(* ===== verification/Prelude.thy ===== *)
theory Prelude
  imports Main "HOL-Library.Word" "HOL-Library.List_Lexorder"
begin

text \<open>
  Shared vocabulary of the development.

  \<^item> Machine integers are words, so \<open>+\<close> wraps as it does in the release profile of the workspace;
    the saturating operations the code calls are written out.  \<open>usize\<close> values (lengths, offsets,
    counts, MTUs) are \<open>nat\<close>: they are lengths of buffers that exist in memory.
  \<^item> Byte strings, fixed-size arrays \<open>[u8; N]\<close> and Rust strings (UTF-8 bytes) are \<open>bytes\<close>.
  \<^item> \<open>outcome\<close> makes a Rust panic (an out-of-range slice or index, an \<open>unwrap\<close> of \<open>None\<close>) a value.
  \<^item> \<open>bmap\<close> is a map kept as an association list in key order: the iteration order of a
    \<open>BTreeMap\<close>.  The code's \<open>HashMap\<close>s use the same representation; where the code iterates over
    a \<open>HashMap\<close> the order is a parameter of the operation.
\<close>

section \<open>Machine types\<close>

type_synonym u8 = "8 word"
type_synonym u16 = "16 word"
type_synonym u32 = "32 word"
type_synonym u64 = "64 word"
type_synonym bytes = "u8 list"
type_synonym rstring = bytes

named_theorems bmap_simps \<open>lookup equations of ordered maps\<close>

lemma unat_bound: "unat (w :: 'a::len word) < 2 ^ LENGTH('a)"
  by (rule unsigned_less)

definition saturating_sub :: "'a::len word \<Rightarrow> 'a word \<Rightarrow> 'a word" where
  "saturating_sub a b = (if b \<le> a then a - b else 0)"

definition saturating_add :: "'a::len word \<Rightarrow> 'a word \<Rightarrow> 'a word" where
  "saturating_add a b = (if unat a + unat b < 2 ^ LENGTH('a) then a + b else - 1)"

lemma unat_saturating_sub: "unat (saturating_sub a b) = unat a - unat b"
  by (simp add: saturating_sub_def unat_sub word_le_nat_alt)

lemma waited_at_least: "0 < b \<Longrightarrow> b \<le> unat (saturating_sub x y) \<longleftrightarrow> unat y + b \<le> unat x"
  by (auto simp: unat_saturating_sub)

lemma unat_saturating_add:
  fixes a b :: "'a::len word"
  shows "unat (saturating_add a b) = min (unat a + unat b) (2 ^ LENGTH('a) - 1)"
proof (cases "unat a + unat b < 2 ^ LENGTH('a)")
  case True
  then show ?thesis by (simp add: saturating_add_def unat_add_lem [THEN iffD1])
next
  case False
  have "unat (- 1 :: 'a word) = 2 ^ LENGTH('a) - 1"
    by (simp add: unsigned_minus_1_eq_mask mask_eq_exp_minus_1)
  with False show ?thesis by (simp add: saturating_add_def)
qed

lemma saturating_add_mono: "a \<le> saturating_add a b"
  unfolding word_le_nat_alt unat_saturating_add using unat_bound [of a] by linarith

section \<open>Panics as values\<close>

datatype 'a outcome = Panic | Ret 'a

fun and_then :: "'a outcome \<Rightarrow> ('a \<Rightarrow> 'b outcome) \<Rightarrow> 'b outcome" where
  "and_then Panic f = Panic"
| "and_then (Ret x) f = f x"

definition index :: "'a list \<Rightarrow> nat \<Rightarrow> 'a outcome" where
  "index xs i = (if i < length xs then Ret (xs ! i) else Panic)"

definition bslice :: "'a list \<Rightarrow> nat \<Rightarrow> nat \<Rightarrow> 'a list outcome" where
  "bslice xs i j = (if i \<le> j \<and> j \<le> length xs then Ret (take (j - i) (drop i xs)) else Panic)"

definition unwrap :: "'a option \<Rightarrow> 'a outcome" where
  "unwrap x = (case x of Some v \<Rightarrow> Ret v | None \<Rightarrow> Panic)"

lemma index_Ret [simp]: "i < length xs \<Longrightarrow> index xs i = Ret (xs ! i)"
  by (simp add: index_def)

lemma bslice_Ret [simp]: "i \<le> j \<Longrightarrow> j \<le> length xs \<Longrightarrow> bslice xs i j = Ret (take (j - i) (drop i xs))"
  by (simp add: bslice_def)

lemma unwrap_simps [simp]: "unwrap (Some v) = Ret v" "unwrap None = Panic"
  by (simp_all add: unwrap_def)

lemma and_then_eq_Ret: "and_then m f = Ret y \<longleftrightarrow> (\<exists>x. m = Ret x \<and> f x = Ret y)"
  by (cases m) auto

lemma and_then_neq_Panic: "and_then m f \<noteq> Panic \<longleftrightarrow> (\<exists>x. m = Ret x \<and> f x \<noteq> Panic)"
  by (cases m) auto

lemma outcome_neq_PanicE: "m \<noteq> Panic \<Longrightarrow> (\<And>x. m = Ret x \<Longrightarrow> R) \<Longrightarrow> R"
  by (cases m) auto

section \<open>Big-endian integers\<close>

text \<open>\<open>to_be_bytes\<close> and \<open>from_be_bytes\<close> of the primitive integers, for any width.\<close>

fun be_bytes :: "nat \<Rightarrow> nat \<Rightarrow> bytes" where
  "be_bytes 0 x = []"
| "be_bytes (Suc n) x = be_bytes n (x div 256) @ [of_nat x]"

definition be_nat :: "bytes \<Rightarrow> nat" where
  "be_nat bs = foldl (\<lambda>a b. a * 256 + unat b) 0 bs"

abbreviation u16_to_be :: "u16 \<Rightarrow> bytes" where "u16_to_be w \<equiv> be_bytes 2 (unat w)"
abbreviation u32_to_be :: "u32 \<Rightarrow> bytes" where "u32_to_be w \<equiv> be_bytes 4 (unat w)"
abbreviation u64_to_be :: "u64 \<Rightarrow> bytes" where "u64_to_be w \<equiv> be_bytes 8 (unat w)"
abbreviation u16_from_be :: "bytes \<Rightarrow> u16" where "u16_from_be bs \<equiv> of_nat (be_nat bs)"
abbreviation u32_from_be :: "bytes \<Rightarrow> u32" where "u32_from_be bs \<equiv> of_nat (be_nat bs)"
abbreviation u64_from_be :: "bytes \<Rightarrow> u64" where "u64_from_be bs \<equiv> of_nat (be_nat bs)"

lemma length_be_bytes [simp]: "length (be_bytes n x) = n"
  by (induction n arbitrary: x) auto

lemma be_nat_simps [simp]: "be_nat [] = 0" "be_nat (bs @ [b]) = be_nat bs * 256 + unat b"
  by (simp_all add: be_nat_def)

lemma unat_u8_less [simp]: "unat (b :: u8) < 256"
  using unsigned_less [of b] by simp

lemma be_nat_less: "be_nat bs < 256 ^ length bs"
proof (induction bs rule: rev_induct)
  case (snoc b bs)
  have "be_nat bs * 256 + unat b < (be_nat bs + 1) * 256" by simp
  also have "\<dots> \<le> 256 ^ length bs * 256"
    using snoc by (intro mult_right_mono) auto
  finally show ?case by (simp add: mult.commute)
qed simp

lemma be_nat_be_bytes: "be_nat (be_bytes n x) = x mod 256 ^ n"
proof (induction n arbitrary: x)
  case (Suc n)
  have "be_nat (be_bytes (Suc n) x) = (x div 256) mod 256 ^ n * 256 + x mod 256"
    by (simp add: Suc unat_of_nat)
  also have "\<dots> = x mod (256 * 256 ^ n)"
    by (simp add: mod_mult2_eq mult.commute)
  finally show ?case by simp
qed simp

lemma be_bytes_be_nat: "length bs = n \<Longrightarrow> be_bytes n (be_nat bs) = bs"
proof (induction bs arbitrary: n rule: rev_induct)
  case (snoc b bs)
  then obtain m where n: "n = Suc m" "length bs = m" by (cases n) auto
  have "(be_nat bs * 256 + unat b) div 256 = be_nat bs" by simp
  moreover have "(of_nat (be_nat bs * 256 + unat b) :: u8) = b"
    by (rule word_unat_eq_iff [THEN iffD2]) (simp only: unat_of_nat, simp)
  ultimately show ?case using snoc.IH [OF n(2)] n by simp
qed simp

lemma u16_be_roundtrip [simp]: "u16_from_be (u16_to_be w) = w"
  using unat_bound [of w] by (simp add: be_nat_be_bytes)

lemma u32_be_roundtrip [simp]: "u32_from_be (u32_to_be w) = w"
  using unat_bound [of w] by (simp add: be_nat_be_bytes)

lemma u64_be_roundtrip [simp]: "u64_from_be (u64_to_be w) = w"
  using unat_bound [of w] by (simp add: be_nat_be_bytes)

lemma u16_to_be_from_be: "length bs = 2 \<Longrightarrow> u16_to_be (u16_from_be bs) = bs"
  using be_nat_less [of bs] by (simp add: unat_of_nat be_bytes_be_nat)

lemma u64_to_be_from_be: "length bs = 8 \<Longrightarrow> u64_to_be (u64_from_be bs) = bs"
  using be_nat_less [of bs] by (simp add: unat_of_nat be_bytes_be_nat)

lemma unat_u16_from_be: "length bs = 2 \<Longrightarrow> unat (u16_from_be bs) = be_nat bs"
  using be_nat_less [of bs] by (simp add: unat_of_nat)

lemma be_bytes_inject: "x < 256 ^ n \<Longrightarrow> y < 256 ^ n \<Longrightarrow> be_bytes n x = be_bytes n y \<longleftrightarrow> x = y"
  by (metis be_nat_be_bytes mod_less)

section \<open>Ordered maps\<close>

type_synonym ('k, 'v) bmap = "('k \<times> 'v) list"

abbreviation bm_get :: "('k, 'v) bmap \<Rightarrow> 'k \<Rightarrow> 'v option" where "bm_get \<equiv> map_of"

fun bm_insert :: "'k::linorder \<Rightarrow> 'v \<Rightarrow> ('k, 'v) bmap \<Rightarrow> ('k, 'v) bmap" where
  "bm_insert k v [] = [(k, v)]"
| "bm_insert k v ((k', v') # m) =
     (if k < k' then (k, v) # (k', v') # m
      else if k = k' then (k, v) # m
      else (k', v') # bm_insert k v m)"

definition bm_remove :: "'k \<Rightarrow> ('k, 'v) bmap \<Rightarrow> ('k, 'v) bmap" where
  "bm_remove k m = filter (\<lambda>p. fst p \<noteq> k) m"

definition bm_contains :: "('k, 'v) bmap \<Rightarrow> 'k \<Rightarrow> bool" where
  "bm_contains m k \<longleftrightarrow> map_of m k \<noteq> None"

definition bm_retain :: "('k \<Rightarrow> 'v \<Rightarrow> bool) \<Rightarrow> ('k, 'v) bmap \<Rightarrow> ('k, 'v) bmap" where
  "bm_retain P m = filter (\<lambda>(k, v). P k v) m"

definition bm_ok :: "('k::linorder, 'v) bmap \<Rightarrow> bool" where
  "bm_ok m \<longleftrightarrow> sorted_wrt (<) (map fst m)"

lemma bm_get_insert [simp, bmap_simps]: "bm_get (bm_insert k v m) = (bm_get m)(k \<mapsto> v)"
  by (induction m) auto

lemma bm_get_remove [simp, bmap_simps]: "bm_get (bm_remove k m) = (bm_get m)(k := None)"
  by (induction m) (auto simp: bm_remove_def fun_eq_iff)

lemma set_fst_bm_insert [simp]: "fst ` set (bm_insert k v m) = insert k (fst ` set m)"
  by (induction k v m rule: bm_insert.induct) (simp_all add: insert_commute)

lemma bm_ok_Nil [simp]: "bm_ok []"
  by (simp add: bm_ok_def)

lemma bm_ok_insert [simp]: "bm_ok m \<Longrightarrow> bm_ok (bm_insert k v m)"
proof (induction m)
  case (Cons p m)
  obtain k' v' where p: "p = (k', v')" by (cases p)
  have "\<forall>x \<in> fst ` set (bm_insert k v m). k' < x" if "k' < k"
    using Cons.prems that by (auto simp: bm_ok_def p)
  with Cons show ?case by (auto simp: bm_ok_def p)
qed (simp add: bm_ok_def)

lemma bm_ok_filter: "bm_ok m \<Longrightarrow> bm_ok (filter P m)"
  unfolding bm_ok_def by (induction m) auto

lemma bm_ok_remove [simp]: "bm_ok m \<Longrightarrow> bm_ok (bm_remove k m)"
  by (simp add: bm_remove_def bm_ok_filter)

lemma bm_ok_retain [simp]: "bm_ok m \<Longrightarrow> bm_ok (bm_retain P m)"
  by (simp add: bm_retain_def bm_ok_filter)

lemma bm_ok_distinct: "bm_ok m \<Longrightarrow> distinct (map fst m)"
  unfolding bm_ok_def using strict_sorted_iff by blast

lemma bm_get_filter:
  assumes "distinct (map fst m)"
  shows "bm_get (filter P m) k =
    (case bm_get m k of None \<Rightarrow> None | Some v \<Rightarrow> if P (k, v) then Some v else None)"
  using assms by (induction m) (force split: option.splits simp: map_of_eq_None_iff)+

lemma bm_get_retain:
  "bm_ok m \<Longrightarrow> bm_get (bm_retain P m) k =
    (case bm_get m k of None \<Rightarrow> None | Some v \<Rightarrow> if P k v then Some v else None)"
  by (simp add: bm_retain_def bm_get_filter bm_ok_distinct split: option.splits)

lemma bm_contains_insert [simp]: "bm_contains (bm_insert k v m) k' \<longleftrightarrow> k' = k \<or> bm_contains m k'"
  by (auto simp: bm_contains_def)

lemma bm_contains_remove [simp]: "bm_contains (bm_remove k m) k' \<longleftrightarrow> k' \<noteq> k \<and> bm_contains m k'"
  by (auto simp: bm_contains_def)

lemma bm_contains_Nil [simp]: "\<not> bm_contains [] k"
  by (simp add: bm_contains_def)

lemma bm_contains_iff: "bm_contains m k \<longleftrightarrow> k \<in> fst ` set m"
  by (metis bm_contains_def map_of_eq_None_iff)

lemma length_bm_remove:
  assumes "distinct (map fst m)"
  shows "length (bm_remove k m) = length m - (if bm_contains m k then 1 else 0)"
  using assms
proof (induction m)
  case (Cons p m)
  then show ?case
  proof (cases "fst p = k")
    case True
    with Cons have "\<not> bm_contains m k" by (auto simp: bm_contains_iff)
    with True Cons show ?thesis by (cases p) (auto simp: bm_remove_def bm_contains_def)
  next
    case False
    have "length m \<noteq> 0" if "bm_contains m k" using that by (auto simp: bm_contains_def)
    with False Cons show ?thesis by (cases p) (auto simp: bm_remove_def bm_contains_def)
  qed
qed (simp add: bm_remove_def)

lemma length_bm_insert:
  assumes "bm_ok m"
  shows "length (bm_insert k v m) = (if bm_contains m k then length m else Suc (length m))"
  using assms
proof (induction m)
  case (Cons p m)
  obtain k' v' where p: "p = (k', v')" by (cases p)
  have "\<not> bm_contains m k" if "k < k'"
    using Cons.prems that by (force simp: bm_ok_def bm_contains_iff p)
  moreover have "\<not> bm_contains m k'"
    using Cons.prems by (force simp: bm_ok_def bm_contains_iff p)
  ultimately show ?case using Cons by (auto simp: bm_ok_def bm_contains_def p)
qed simp

lemma bm_get_mem: "bm_ok m \<Longrightarrow> (k, v) \<in> set m \<longleftrightarrow> bm_get m k = Some v"
  by (simp add: bm_ok_distinct)

section \<open>Iterator adaptors\<close>

text \<open>\<open>Iterator::min_by_key\<close>: the first of several minimal elements is returned.\<close>

fun min_by_key :: "('a \<Rightarrow> 'b::linorder) \<Rightarrow> 'a list \<Rightarrow> 'a option" where
  "min_by_key f [] = None"
| "min_by_key f (x # xs) =
     (case min_by_key f xs of None \<Rightarrow> Some x | Some y \<Rightarrow> if f x \<le> f y then Some x else Some y)"

lemma min_by_key_None [simp]: "min_by_key f xs = None \<longleftrightarrow> xs = []"
  by (cases xs) (auto split: option.splits)

lemma min_by_key_Some:
  "min_by_key f xs = Some x \<Longrightarrow> x \<in> set xs \<and> (\<forall>y \<in> set xs. f x \<le> f y)"
proof (induction xs arbitrary: x)
  case (Cons a xs)
  show ?case
  proof (cases "min_by_key f xs")
    case None
    with Cons.prems show ?thesis by auto
  next
    case (Some y)
    from Cons.IH [OF Some] Cons.prems Some show ?thesis
      by (auto split: if_splits intro: order_trans)
  qed
qed simp

text \<open>Removing the entry with the least key value, as the caches do to make room: the first minimal
  entry in key order goes.\<close>

definition evict_min :: "('v \<Rightarrow> 'b::linorder) \<Rightarrow> ('k, 'v) bmap \<Rightarrow> ('k, 'v) bmap" where
  "evict_min f m =
     (case min_by_key (\<lambda>(k, e). f e) m of
        Some (k, _) \<Rightarrow> bm_remove k m
      | None \<Rightarrow> m)"

lemma evict_min_subset: "set (evict_min f m) \<subseteq> set m"
  by (auto simp: evict_min_def bm_remove_def split: option.splits)

lemma evict_min_ok: "bm_ok m \<Longrightarrow> bm_ok (evict_min f m)"
  by (auto simp: evict_min_def split: option.splits)

lemma length_evict_min: "bm_ok m \<Longrightarrow> length (evict_min f m) = length m - 1"
proof (cases "min_by_key (\<lambda>(k, e). f e) m")
  case (Some ke)
  obtain k e where ke: "ke = (k, e)" by (cases ke)
  assume ok: "bm_ok m"
  from Some ke have "bm_contains m k"
    using min_by_key_Some [OF Some] by (force simp: bm_contains_iff)
  with Some ke ok show ?thesis by (simp add: evict_min_def length_bm_remove bm_ok_distinct)
qed (simp add: evict_min_def)

lemma evict_min_get: "bm_get m k = None \<Longrightarrow> bm_get (evict_min f m) k = None"
  by (auto simp: evict_min_def split: option.splits)

lemma bm_insert_values: "snd ` set (bm_insert k v m) \<subseteq> insert v (snd ` set m)"
  by (induction k v m rule: bm_insert.induct) auto

lemma bm_remove_values: "snd ` set (bm_remove k m) \<subseteq> snd ` set m"
  by (auto simp: bm_remove_def)

text \<open>\<open>slice::chunks\<close> (a last short chunk is kept) and \<open>slice::chunks_exact\<close> (it is dropped).\<close>

function chunks :: "nat \<Rightarrow> 'a list \<Rightarrow> 'a list list" where
  "chunks n xs = (if xs = [] \<or> n = 0 then [] else take n xs # chunks n (drop n xs))"
  by pat_completeness auto
termination
  by (relation "measure (\<lambda>(n, xs). length xs)") auto

declare chunks.simps [simp del]

lemma chunks_Nil [simp]: "chunks n [] = []"
  by (simp add: chunks.simps)

lemma chunks_step: "xs \<noteq> [] \<Longrightarrow> 0 < n \<Longrightarrow> chunks n xs = take n xs # chunks n (drop n xs)"
  by (simp add: chunks.simps [of n xs])

definition chunks_exact :: "nat \<Rightarrow> 'a list \<Rightarrow> 'a list list" where
  "chunks_exact n xs = filter (\<lambda>c. length c = n) (chunks n xs)"

definition div_ceil :: "nat \<Rightarrow> nat \<Rightarrow> nat" where
  "div_ceil a b = (a + b - 1) div b"

lemma concat_chunks: "0 < n \<Longrightarrow> concat (chunks n xs) = xs"
  by (induction n xs rule: chunks.induct) (auto simp: chunks.simps)

lemma chunks_bounds: "c \<in> set (chunks n xs) \<Longrightarrow> c \<noteq> [] \<and> length c \<le> n"
proof (induction n xs rule: chunks.induct)
  case (1 n xs)
  then show ?case by (auto simp: chunks.simps [of n xs] split: if_splits)
qed

lemma length_chunks: "0 < n \<Longrightarrow> length (chunks n xs) = div_ceil (length xs) n"
proof (induction n xs rule: chunks.induct)
  case (1 n xs)
  show ?case
  proof (cases "xs = []")
    case True
    with 1 show ?thesis by (simp add: chunks.simps div_ceil_def)
  next
    case False
    with 1 have IH: "length (chunks n (drop n xs)) = div_ceil (length xs - n) n" by simp
    show ?thesis
    proof (cases "length xs \<le> n")
      case True
      have "(length xs + n - 1) div n = 1"
        using False True "1.prems" by (intro div_nat_eqI) (cases xs, auto)
      moreover have "div_ceil 0 n = 0" using "1.prems" by (simp add: div_ceil_def)
      ultimately show ?thesis
        using False True "1.prems" IH by (simp add: chunks.simps [of n xs] div_ceil_def)
    next
      case False
      have "length xs + n - 1 = (length xs - n + n - 1) + n" using False by simp
      then have "div_ceil (length xs) n = (length xs - n + n - 1 + n) div n"
        by (simp only: div_ceil_def)
      also have "\<dots> = Suc (div_ceil (length xs - n) n)"
        using div_add_self2 [of n "length xs - n + n - 1"] "1.prems"
        by (simp only: div_ceil_def Suc_eq_plus1)
      finally show ?thesis
        using IH \<open>xs \<noteq> []\<close> "1.prems" by (simp add: chunks_step)
    qed
  qed
qed

lemma chunks_concat_exact:
  assumes "0 < n" "\<forall>c \<in> set cs. length c = n"
  shows "chunks n (concat cs) = cs"
  using assms(2)
proof (induction cs)
  case (Cons c cs)
  then have "c @ concat cs \<noteq> []" using assms(1) by auto
  with Cons assms(1) show ?case by (simp add: chunks_step)
qed simp

lemma chunks_exact_concat:
  "0 < n \<Longrightarrow> \<forall>c \<in> set cs. length c = n \<Longrightarrow> chunks_exact n (concat cs) = cs"
  by (simp add: chunks_exact_def chunks_concat_exact)

end
