(* ===== verification/Wire.thy ===== *)
theory Wire
  imports Prelude
begin

text \<open>
  The packet codec of \<open>crates/meshcore/src/wire.rs\<close> and the error types of
  \<open>crates/meshcore/src/error.rs\<close>.  Encoding is a function to bytes; decoding untrusted bytes
  returns an \<open>outcome\<close>, so an out-of-range read would be visible as \<open>Panic\<close>.  Ed25519 and SHA-256
  are parameters (\<open>ed_sign\<close>, \<open>ed_verify\<close>, \<open>sha256\<close>) of the operations that call them.
  The lemmas show that decoding never panics, that encoding and decoding are inverse to each
  other in both directions, which bytes a signature covers, and what each error path reports.
\<close>

unbundle bit_operations_syntax

section \<open>Errors\<close>

datatype wire_error =
    Short nat nat
  | BadVersion u8
  | BadLength nat nat
  | Trailing nat
  | BadSignature

datatype frag_error =
    MtuTooSmall nat
  | BadIndex u16 u16
  | TooLarge nat

datatype mesh_error =
    WireErr wire_error
  | FragErr frag_error
  | IdentityErr string
  | CompressErr string
  | RateLimited
  | StoreErr string
  | NoiseErr string

section \<open>Message types\<close>

datatype msg_type =
    Announce
  | ChannelMessage
  | DirectMessage
  | NoiseHandshake
  | Receipt
  | SyncRequest
  | SyncResponse
  | MediaOffer
  | MediaFetchRequest
  | MediaChunk
  | MediaFetchAck
  | Unknown u8

definition from_u8 :: "u8 \<Rightarrow> msg_type" where
  "from_u8 b =
     (if b = 0x01 then Announce
      else if b = 0x02 then ChannelMessage
      else if b = 0x03 then DirectMessage
      else if b = 0x04 then NoiseHandshake
      else if b = 0x05 then Receipt
      else if b = 0x06 then SyncRequest
      else if b = 0x07 then SyncResponse
      else if b = 0x10 then MediaOffer
      else if b = 0x11 then MediaFetchRequest
      else if b = 0x12 then MediaChunk
      else if b = 0x13 then MediaFetchAck
      else Unknown b)"

fun to_u8 :: "msg_type \<Rightarrow> u8" where
  "to_u8 Announce = 0x01"
| "to_u8 ChannelMessage = 0x02"
| "to_u8 DirectMessage = 0x03"
| "to_u8 NoiseHandshake = 0x04"
| "to_u8 Receipt = 0x05"
| "to_u8 SyncRequest = 0x06"
| "to_u8 SyncResponse = 0x07"
| "to_u8 MediaOffer = 0x10"
| "to_u8 MediaFetchRequest = 0x11"
| "to_u8 MediaChunk = 0x12"
| "to_u8 MediaFetchAck = 0x13"
| "to_u8 (Unknown b) = b"

fun is_known :: "msg_type \<Rightarrow> bool" where
  "is_known (Unknown b) = False"
| "is_known t = True"

section \<open>Packets\<close>

type_synonym eph_id = bytes

definition PROTOCOL_VERSION :: u8 where "PROTOCOL_VERSION = 1"
definition FLAG_HAS_RECIPIENT :: u8 where "FLAG_HAS_RECIPIENT = 1"
definition FLAG_COMPRESSED :: u8 where "FLAG_COMPRESSED = 2"
definition FLAG_RESERVED_PQ :: u8 where "FLAG_RESERVED_PQ = 4"
definition SIG_LEN :: nat where "SIG_LEN = 64"
definition MIN_HEADER :: nat where "MIN_HEADER = 1 + 1 + 1 + 1 + 8 + 8 + 2"
definition BROADCAST :: "eph_id option" where "BROADCAST = None"

record packet =
  p_version :: u8
  p_type :: msg_type
  p_flags :: u8
  p_ttl :: u8
  p_timestamp_ms :: u64
  p_sender :: eph_id
  p_recipient :: "eph_id option"
  p_payload :: bytes
  p_signature :: bytes

definition new_packet :: "msg_type \<Rightarrow> u8 \<Rightarrow> u64 \<Rightarrow> eph_id \<Rightarrow> eph_id option \<Rightarrow> bytes \<Rightarrow> packet" where
  "new_packet msg_type ttl timestamp_ms sender recipient payload =
     \<lparr>p_version = PROTOCOL_VERSION, p_type = msg_type, p_flags = 0, p_ttl = ttl,
      p_timestamp_ms = timestamp_ms, p_sender = sender, p_recipient = recipient,
      p_payload = payload, p_signature = replicate SIG_LEN 0\<rparr>"

definition effective_flags :: "packet \<Rightarrow> u8" where
  "effective_flags p =
     (let f = p_flags p AND NOT FLAG_HAS_RECIPIENT
      in if p_recipient p \<noteq> None then f OR FLAG_HAS_RECIPIENT else f)"

text \<open>The payload length is cast \<open>as u16\<close>, which keeps the low 16 bits.\<close>

definition write_body :: "packet \<Rightarrow> u8 option \<Rightarrow> bytes" where
  "write_body p ttl_override =
     [p_version p, to_u8 (p_type p), effective_flags p,
      (case ttl_override of Some t \<Rightarrow> t | None \<Rightarrow> p_ttl p)]
     @ u64_to_be (p_timestamp_ms p)
     @ p_sender p
     @ (case p_recipient p of Some r \<Rightarrow> r | None \<Rightarrow> [])
     @ u16_to_be (of_nat (length (p_payload p)))
     @ p_payload p"

definition signed_region :: "packet \<Rightarrow> bytes" where
  "signed_region p = write_body p (Some 0)"

definition packet_sign :: "(bytes \<Rightarrow> bytes \<Rightarrow> bytes) \<Rightarrow> packet \<Rightarrow> bytes \<Rightarrow> packet" where
  "packet_sign ed_sign p key = p\<lparr>p_signature := ed_sign key (signed_region p)\<rparr>"

definition packet_verify :: "(bytes \<Rightarrow> bytes \<Rightarrow> bytes \<Rightarrow> bool) \<Rightarrow> packet \<Rightarrow> bytes \<Rightarrow> wire_error + unit" where
  "packet_verify ed_verify p key =
     (if ed_verify key (signed_region p) (p_signature p) then Inr () else Inl BadSignature)"

definition encode :: "packet \<Rightarrow> bytes" where
  "encode p = write_body p None @ p_signature p"

definition need :: "nat \<Rightarrow> nat \<Rightarrow> nat \<Rightarrow> wire_error + unit" where
  "need off n avail = (if off + n > avail then Inl (Short (off + n) avail) else Inr ())"

text \<open>The optional recipient: the field and the offset after it.\<close>

definition decode_recipient ::
  "bytes \<Rightarrow> u8 \<Rightarrow> nat \<Rightarrow> (wire_error + eph_id option \<times> nat) outcome" where
  "decode_recipient bs flags off =
     (if flags AND FLAG_HAS_RECIPIENT \<noteq> 0 then
        (case need off 8 (length bs) of
           Inl e \<Rightarrow> Ret (Inl e)
         | Inr _ \<Rightarrow> and_then (bslice bs off (off + 8)) (\<lambda>r. Ret (Inr (Some r, off + 8))))
      else Ret (Inr (None, off)))"

text \<open>Everything from the payload length on.\<close>

definition decode_tail :: "bytes \<Rightarrow> nat \<Rightarrow> (wire_error + bytes \<times> bytes) outcome" where
  "decode_tail bs off =
     (case need off 2 (length bs) of
        Inl e \<Rightarrow> Ret (Inl e)
      | Inr _ \<Rightarrow>
          and_then (index bs off) (\<lambda>b0.
          and_then (index bs (off + 1)) (\<lambda>b1.
            let payload_len = unat (u16_from_be [b0, b1]);
                off = off + 2;
                remaining = length bs - off
            in if payload_len + SIG_LEN > remaining then Ret (Inl (BadLength payload_len remaining))
               else
                 and_then (bslice bs off (off + payload_len)) (\<lambda>payload.
                 and_then (bslice bs (off + payload_len) (off + payload_len + SIG_LEN)) (\<lambda>signature.
                   let off = off + payload_len + SIG_LEN
                   in if off \<noteq> length bs then Ret (Inl (Trailing (length bs - off)))
                      else Ret (Inr (payload, signature)))))))"

definition decode :: "bytes \<Rightarrow> (wire_error + packet) outcome" where
  "decode bs =
     (case need 0 MIN_HEADER (length bs) of
        Inl e \<Rightarrow> Ret (Inl e)
      | Inr _ \<Rightarrow>
          and_then (index bs 0) (\<lambda>version.
          if version \<noteq> PROTOCOL_VERSION then Ret (Inl (BadVersion version))
          else
            and_then (index bs 1) (\<lambda>ty.
            and_then (index bs 2) (\<lambda>flags.
            and_then (index bs 3) (\<lambda>ttl.
            and_then (bslice bs 4 12) (\<lambda>ts.
            and_then (bslice bs 12 20) (\<lambda>sender.
            and_then (decode_recipient bs flags 20) (\<lambda>rcpt.
              case rcpt of
                Inl e \<Rightarrow> Ret (Inl e)
              | Inr (recipient, off) \<Rightarrow>
                  and_then (decode_tail bs off) (\<lambda>tail.
                    case tail of
                      Inl e \<Rightarrow> Ret (Inl e)
                    | Inr (payload, signature) \<Rightarrow>
                        Ret (Inr \<lparr>p_version = version, p_type = from_u8 ty,
                          p_flags = flags AND NOT FLAG_HAS_RECIPIENT, p_ttl = ttl,
                          p_timestamp_ms = u64_from_be ts, p_sender = sender,
                          p_recipient = recipient, p_payload = payload,
                          p_signature = signature\<rparr>)))))))))) "

definition packet_digest :: "(bytes \<Rightarrow> bytes) \<Rightarrow> packet \<Rightarrow> bytes" where
  "packet_digest sha256 p = take 8 (sha256 (p_signature p))"

text \<open>
  What the Rust types and \<open>Packet::decode\<close> guarantee of a packet: arrays of their length, a payload
  whose length fits the 16-bit field, the current version, a canonical type and a flag byte in
  which \<open>HAS_RECIPIENT\<close> is left to \<open>recipient\<close>.
\<close>

definition packet_ok :: "packet \<Rightarrow> bool" where
  "packet_ok p \<longleftrightarrow>
     p_version p = PROTOCOL_VERSION \<and> from_u8 (to_u8 (p_type p)) = p_type p
     \<and> p_flags p AND FLAG_HAS_RECIPIENT = 0 \<and> length (p_sender p) = 8
     \<and> (case p_recipient p of None \<Rightarrow> True | Some r \<Rightarrow> length r = 8)
     \<and> length (p_payload p) < 2 ^ 16 \<and> length (p_signature p) = SIG_LEN"

section \<open>Lemmas\<close>

lemmas wire_consts = PROTOCOL_VERSION_def FLAG_HAS_RECIPIENT_def SIG_LEN_def MIN_HEADER_def

lemma to_u8_from_u8 [simp]: "to_u8 (from_u8 b) = b"
  by (simp add: from_u8_def)

lemma from_u8_to_u8: "from_u8 (to_u8 t) = t \<longleftrightarrow> is_known t \<or> (\<exists>b. t = Unknown b \<and> \<not> is_known (from_u8 b))"
  by (cases t) (auto simp: from_u8_def)

lemma flags_with_recipient:
  "f AND FLAG_HAS_RECIPIENT \<noteq> 0 \<Longrightarrow> (f AND NOT FLAG_HAS_RECIPIENT) OR FLAG_HAS_RECIPIENT = f"
proof -
  assume "f AND FLAG_HAS_RECIPIENT \<noteq> 0"
  then have "bit f 0"
    by (auto simp: FLAG_HAS_RECIPIENT_def and_one_eq even_iff_mod_2_eq_zero bit_0 odd_iff_mod_2_eq_one)
  then show ?thesis
    by (intro bit_word_eqI) (auto simp: FLAG_HAS_RECIPIENT_def bit_simps)
qed

lemma flags_without_recipient:
  "f AND FLAG_HAS_RECIPIENT = 0 \<Longrightarrow> f AND NOT FLAG_HAS_RECIPIENT = f"
proof -
  assume "f AND FLAG_HAS_RECIPIENT = 0"
  then have "\<not> bit f 0"
    by (auto simp: FLAG_HAS_RECIPIENT_def and_one_eq bit_0 odd_iff_mod_2_eq_one)
  then show ?thesis
    by (intro bit_word_eqI) (auto simp: FLAG_HAS_RECIPIENT_def bit_simps, metis gr0I)
qed

lemma flag_cleared: "(f AND NOT FLAG_HAS_RECIPIENT) AND FLAG_HAS_RECIPIENT = 0"
  by (simp add: and.assoc)

lemma flag_set: "(f OR FLAG_HAS_RECIPIENT) AND FLAG_HAS_RECIPIENT \<noteq> 0"
proof
  assume "(f OR FLAG_HAS_RECIPIENT) AND FLAG_HAS_RECIPIENT = 0"
  then have "\<not> bit (f OR FLAG_HAS_RECIPIENT) 0"
    by (auto simp: FLAG_HAS_RECIPIENT_def and_one_eq bit_0 odd_iff_mod_2_eq_one)
  then show False by (simp add: FLAG_HAS_RECIPIENT_def bit_simps)
qed

lemma decode_short: "length bs < MIN_HEADER \<Longrightarrow> decode bs = Ret (Inl (Short MIN_HEADER (length bs)))"
  by (simp add: decode_def need_def)

lemma decode_header:
  assumes "MIN_HEADER \<le> length bs"
  shows "decode bs =
    (if bs ! 0 \<noteq> PROTOCOL_VERSION then Ret (Inl (BadVersion (bs ! 0)))
     else and_then (decode_recipient bs (bs ! 2) 20) (\<lambda>rcpt.
       case rcpt of
         Inl e \<Rightarrow> Ret (Inl e)
       | Inr (recipient, off) \<Rightarrow>
           and_then (decode_tail bs off) (\<lambda>tail.
             case tail of
               Inl e \<Rightarrow> Ret (Inl e)
             | Inr (payload, signature) \<Rightarrow>
                 Ret (Inr \<lparr>p_version = PROTOCOL_VERSION, p_type = from_u8 (bs ! Suc 0),
                   p_flags = bs ! 2 AND NOT FLAG_HAS_RECIPIENT, p_ttl = bs ! 3,
                   p_timestamp_ms = u64_from_be (take 8 (drop 4 bs)), p_sender = take 8 (drop 12 bs),
                   p_recipient = recipient, p_payload = payload, p_signature = signature\<rparr>))))"
proof -
  have "index bs i = Ret (bs ! i)" if "i < 4" for i
    using that assms by (simp add: MIN_HEADER_def)
  moreover have "bslice bs 4 12 = Ret (take 8 (drop 4 bs))" "bslice bs 12 20 = Ret (take 8 (drop 12 bs))"
    using assms by (simp_all add: MIN_HEADER_def)
  moreover have "need 0 MIN_HEADER (length bs) = Inr ()"
    using assms by (simp add: need_def)
  ultimately show ?thesis by (simp add: decode_def cong: if_cong)
qed

lemma decode_recipient_cases:
  "decode_recipient bs f off =
     (if f AND FLAG_HAS_RECIPIENT = 0 then Ret (Inr (None, off))
      else if length bs < off + 8 then Ret (Inl (Short (off + 8) (length bs)))
      else Ret (Inr (Some (take 8 (drop off bs)), off + 8)))"
  by (simp add: decode_recipient_def need_def)

lemma decode_tail_cases:
  "decode_tail bs off =
     (if length bs < off + 2 then Ret (Inl (Short (off + 2) (length bs)))
      else let n = be_nat (take 2 (drop off bs)); remaining = length bs - (off + 2) in
        if remaining < n + SIG_LEN then Ret (Inl (BadLength n remaining))
        else if n + SIG_LEN < remaining then Ret (Inl (Trailing (remaining - (n + SIG_LEN))))
        else Ret (Inr (take n (drop (off + 2) bs), drop (off + 2 + n) bs)))"
proof (cases "length bs < off + 2")
  case False
  then have t: "take 2 (drop off bs) = [bs ! off, bs ! Suc off]"
    by (simp add: numeral_2_eq_2 take_Suc_conv_app_nth)
  have u: "unat (u16_from_be [bs ! off, bs ! Suc off]) = be_nat (take 2 (drop off bs))"
    unfolding t by (rule unat_u16_from_be) simp
  show ?thesis
    using False
    by (auto simp: decode_tail_def need_def u Let_def simp del: unsigned_of_nat)
qed (simp add: decode_tail_def need_def)

lemma decode_recipient_total: "\<exists>r. decode_recipient bs f off = Ret r"
  by (simp add: decode_recipient_cases)

lemma decode_tail_total: "\<exists>r. decode_tail bs off = Ret r"
  by (simp add: decode_tail_cases Let_def)

lemma decode_total: "\<exists>r. decode bs = Ret r"
proof (cases "MIN_HEADER \<le> length bs")
  case True
  obtain x where x: "decode_recipient bs (bs ! 2) 20 = Ret x"
    using decode_recipient_total by blast
  obtain y where "decode_tail bs (snd (projr x)) = Ret y"
    using decode_tail_total by blast
  then show ?thesis
    unfolding decode_header [OF True] x by (cases x; cases y) (auto split: prod.splits)
next
  case False
  then show ?thesis by (simp add: decode_short)
qed

lemma decode_tail_layout:
  assumes d: "drop off bs = lenb @ payload @ signature"
    and l: "length lenb = 2" "be_nat lenb = length payload" "length signature = SIG_LEN"
  shows "decode_tail bs off = Ret (Inr (payload, signature))"
proof -
  have "length (drop off bs) = 2 + length payload + SIG_LEN" using d l by simp
  then have len: "length bs = off + 2 + length payload + SIG_LEN"
    by (simp add: SIG_LEN_def)
  have "drop (off + 2) bs = drop 2 (drop off bs)" by (simp add: add.commute)
  then have d2: "drop (off + 2) bs = payload @ signature" using d l by simp
  have "drop (off + 2 + length payload) bs = drop (length payload) (drop (off + 2) bs)"
    by (simp only: drop_drop add.commute)
  then have d3: "drop (off + 2 + length payload) bs = signature" unfolding d2 by simp
  show ?thesis
    using len l by (simp only: decode_tail_cases d d2 Let_def) (simp add: d3 [simplified])
qed

lemma decode_recipient_layout:
  assumes d: "drop off bs = rc @ rest" "off \<le> length bs"
    and rcpt: "case recipient of None \<Rightarrow> rc = [] \<and> flags AND FLAG_HAS_RECIPIENT = 0
      | Some r \<Rightarrow> rc = r \<and> length r = 8 \<and> flags AND FLAG_HAS_RECIPIENT \<noteq> 0"
  shows "decode_recipient bs flags off = Ret (Inr (recipient, off + length rc))"
    and "drop (off + length rc) bs = rest"
proof -
  have "length (drop off bs) = length rc + length rest" using d by simp
  then have len: "length bs = off + length rc + length rest" using d(2) by simp
  show "decode_recipient bs flags off = Ret (Inr (recipient, off + length rc))"
    using rcpt len d(1) by (cases recipient) (simp_all add: decode_recipient_cases)
  have "drop (off + length rc) bs = drop (length rc) (drop off bs)"
    by (simp only: drop_drop add.commute)
  then show "drop (off + length rc) bs = rest" by (simp add: d(1))
qed

lemma decode_layout:
  assumes "length ts = 8" "length sender = 8" "length lenb = 2" "be_nat lenb = length payload"
    and "length signature = SIG_LEN"
    and rcpt: "case recipient of None \<Rightarrow> rc = [] \<and> flags AND FLAG_HAS_RECIPIENT = 0
      | Some r \<Rightarrow> rc = r \<and> length r = 8 \<and> flags AND FLAG_HAS_RECIPIENT \<noteq> 0"
  shows "decode ([PROTOCOL_VERSION, ty, flags, ttl] @ ts @ sender @ rc @ lenb @ payload @ signature) =
    Ret (Inr \<lparr>p_version = PROTOCOL_VERSION, p_type = from_u8 ty,
      p_flags = flags AND NOT FLAG_HAS_RECIPIENT, p_ttl = ttl, p_timestamp_ms = u64_from_be ts,
      p_sender = sender, p_recipient = recipient, p_payload = payload, p_signature = signature\<rparr>)"
    (is "decode ?bs = _")
proof -
  let ?off = "20 + length rc"
  have len: "length ?bs = ?off + 2 + length payload + SIG_LEN" using assms by simp
  have "drop 20 ?bs = rc @ lenb @ payload @ signature" using assms(1,2) by simp
  moreover have "20 \<le> length ?bs" unfolding len by simp
  ultimately have r: "decode_recipient ?bs flags 20 = Ret (Inr (recipient, ?off))"
    and d: "drop ?off ?bs = lenb @ payload @ signature"
    using decode_recipient_layout [OF _ _ rcpt] by blast+
  from d have t: "decode_tail ?bs ?off = Ret (Inr (payload, signature))"
    by (rule decode_tail_layout) (use assms in simp_all)
  have "MIN_HEADER \<le> length ?bs" unfolding len by (simp add: MIN_HEADER_def)
  then show ?thesis
    unfolding decode_header [OF \<open>MIN_HEADER \<le> length ?bs\<close>]
    using r t assms(1,2) by (simp add: numeral_2_eq_2 numeral_3_eq_3)
qed

lemma effective_flags_recipient:
  "effective_flags p AND FLAG_HAS_RECIPIENT \<noteq> 0 \<longleftrightarrow> p_recipient p \<noteq> None"
  using flag_set flag_cleared by (auto simp: effective_flags_def Let_def simp del: bit.conj_disj_distrib2)

lemma effective_flags_cleared:
  "p_flags p AND FLAG_HAS_RECIPIENT = 0 \<Longrightarrow> effective_flags p AND NOT FLAG_HAS_RECIPIENT = p_flags p"
  by (simp add: effective_flags_def Let_def flags_without_recipient bit.conj_disj_distrib2)

lemma decode_encode:
  assumes "packet_ok p"
  shows "decode (encode p) = Ret (Inr p)"
proof -
  have "be_nat (u16_to_be (of_nat (length (p_payload p)))) = length (p_payload p)"
    using assms by (simp add: packet_ok_def be_nat_be_bytes unat_of_nat)
  then have "decode ([PROTOCOL_VERSION, to_u8 (p_type p), effective_flags p, p_ttl p]
      @ u64_to_be (p_timestamp_ms p) @ p_sender p
      @ (case p_recipient p of Some r \<Rightarrow> r | None \<Rightarrow> [])
      @ u16_to_be (of_nat (length (p_payload p))) @ p_payload p @ p_signature p) = Ret (Inr p)"
    using assms effective_flags_recipient [of p]
    by (subst decode_layout [where recipient = "p_recipient p"])
       (auto simp: packet_ok_def effective_flags_cleared split: option.splits)
  then show ?thesis
    using assms by (simp add: encode_def write_body_def packet_ok_def)
qed

lemma take_drop_append: "take n (drop m xs) @ drop (m + n) xs = drop m xs"
  by (metis add.commute append_take_drop_id drop_drop)

lemma decode_tail_Inr:
  assumes "decode_tail bs off = Ret (Inr (payload, signature))"
  shows "drop off bs = u16_to_be (of_nat (length payload)) @ payload @ signature"
    and "length signature = SIG_LEN" and "length payload < 2 ^ 16"
proof -
  obtain b where b: "take 2 (drop off bs) = b" by simp
  have "\<not> length bs < off + 2" "\<not> length bs - (off + 2) < be_nat b + SIG_LEN"
    "\<not> be_nat b + SIG_LEN < length bs - (off + 2)"
    and p: "payload = take (be_nat b) (drop (off + 2) bs)" "signature = drop (off + 2 + be_nat b) bs"
    using assms unfolding decode_tail_cases b Let_def by (simp_all only: split: if_split_asm) simp_all
  then have len: "length bs = off + 2 + be_nat b + SIG_LEN" by linarith
  have "length b = min 2 (length bs - off)" unfolding b [symmetric] by simp
  with len have l2: "length b = 2" by linarith
  have lp: "length payload = be_nat b" using len by (simp add: p(1))
  show "length payload < 2 ^ 16" using be_nat_less [of b] lp l2 by simp
  show "length signature = SIG_LEN" using len by (simp add: p(2))
  have "u16_to_be (of_nat (length payload)) = b"
    unfolding lp by (rule u16_to_be_from_be [OF l2])
  moreover have "payload @ signature = drop (off + 2) bs"
    unfolding p by (rule take_drop_append)
  ultimately show "drop off bs = u16_to_be (of_nat (length payload)) @ payload @ signature"
    using take_drop_append [of 2 off bs] b by simp
qed

lemma decode_Inr:
  assumes "decode bs = Ret (Inr p)"
  obtains recipient off payload signature where
    "MIN_HEADER \<le> length bs" "bs ! 0 = PROTOCOL_VERSION"
    "decode_recipient bs (bs ! 2) 20 = Ret (Inr (recipient, off))"
    "decode_tail bs off = Ret (Inr (payload, signature))"
    "p = \<lparr>p_version = PROTOCOL_VERSION, p_type = from_u8 (bs ! Suc 0),
      p_flags = bs ! 2 AND NOT FLAG_HAS_RECIPIENT, p_ttl = bs ! 3,
      p_timestamp_ms = u64_from_be (take 8 (drop 4 bs)), p_sender = take 8 (drop 12 bs),
      p_recipient = recipient, p_payload = payload, p_signature = signature\<rparr>"
proof -
  have len: "MIN_HEADER \<le> length bs"
    using assms by (cases "MIN_HEADER \<le> length bs") (auto simp: decode_short)
  obtain x where r: "decode_recipient bs (bs ! 2) 20 = Ret x"
    using decode_recipient_total by blast
  obtain recipient off where x: "x = Inr (recipient, off)"
    using assms r unfolding decode_header [OF len] by (cases x) (auto split: if_split_asm)
  obtain y where t: "decode_tail bs off = Ret y"
    using decode_tail_total by blast
  obtain payload signature where y: "y = Inr (payload, signature)"
    using assms r t x unfolding decode_header [OF len] by (cases y) (auto split: if_split_asm)
  show thesis
    using assms r t x y len that unfolding decode_header [OF len] by (auto split: if_split_asm)
qed

lemma decode_recipient_Inr:
  assumes "decode_recipient bs f off = Ret (Inr (recipient, off'))"
  shows "drop off bs = (case recipient of Some r \<Rightarrow> r | None \<Rightarrow> []) @ drop off' bs"
    and "case recipient of None \<Rightarrow> True | Some r \<Rightarrow> length r = 8"
    and "recipient \<noteq> None \<longleftrightarrow> f AND FLAG_HAS_RECIPIENT \<noteq> 0"
  using assms take_drop_append [of 8 off bs]
  by (auto simp: decode_recipient_cases split: if_splits)

lemma list_header4: "4 \<le> length bs \<Longrightarrow> bs = [bs ! 0, bs ! Suc 0, bs ! 2, bs ! 3] @ drop 4 bs"
  by (cases bs; cases "tl bs"; cases "tl (tl bs)"; cases "tl (tl (tl bs))")
     (auto simp: numeral_2_eq_2 numeral_3_eq_3 eval_nat_numeral)

lemma encode_decode:
  assumes "decode bs = Ret (Inr p)"
  shows "packet_ok p \<and> encode p = bs"
proof -
  from assms obtain recipient off payload signature where
    len: "MIN_HEADER \<le> length bs" and v: "bs ! 0 = PROTOCOL_VERSION"
    and r: "decode_recipient bs (bs ! 2) 20 = Ret (Inr (recipient, off))"
    and t: "decode_tail bs off = Ret (Inr (payload, signature))"
    and p: "p = \<lparr>p_version = PROTOCOL_VERSION, p_type = from_u8 (bs ! Suc 0),
      p_flags = bs ! 2 AND NOT FLAG_HAS_RECIPIENT, p_ttl = bs ! 3,
      p_timestamp_ms = u64_from_be (take 8 (drop 4 bs)), p_sender = take 8 (drop 12 bs),
      p_recipient = recipient, p_payload = payload, p_signature = signature\<rparr>"
    by (rule decode_Inr)
  note R = decode_recipient_Inr [OF r] and T = decode_tail_Inr [OF t]
  from len have l: "length (take 8 (drop 4 bs)) = 8" "length (take 8 (drop 12 bs)) = 8"
    by (simp_all add: MIN_HEADER_def)
  have ok: "packet_ok p"
    using R(2) T(2,3) l by (simp add: packet_ok_def p flag_cleared)
  have f: "effective_flags p = bs ! 2"
    using R(3) by (simp add: effective_flags_def p Let_def flags_with_recipient flags_without_recipient)
  have ts: "u64_to_be (p_timestamp_ms p) = take 8 (drop 4 bs)"
    unfolding p using u64_to_be_from_be [OF l(1)] by simp
  have "encode p = [bs ! 0, bs ! Suc 0, bs ! 2, bs ! 3] @ take 8 (drop 4 bs) @ take 8 (drop 12 bs)
      @ drop 20 bs"
    unfolding R(1) T(1) by (simp add: encode_def write_body_def f ts v) (simp add: p)
  also have "\<dots> = [bs ! 0, bs ! Suc 0, bs ! 2, bs ! 3] @ drop 4 bs"
    using take_drop_append [of 8 4 bs] take_drop_append [of 8 12 bs] by simp
  also have "\<dots> = bs"
    using list_header4 [of bs] len by (simp add: MIN_HEADER_def)
  finally show ?thesis using ok by simp
qed

lemma signed_region_ttl: "signed_region (p\<lparr>p_ttl := t\<rparr>) = signed_region p"
  by (simp add: signed_region_def write_body_def effective_flags_def Let_def)

lemma signed_region_signature: "signed_region (p\<lparr>p_signature := s\<rparr>) = signed_region p"
  by (simp add: signed_region_def write_body_def effective_flags_def Let_def)

lemma signed_region_inject:
  assumes "packet_ok p" "packet_ok q" "signed_region p = signed_region q"
  shows "p\<lparr>p_ttl := p_ttl q, p_signature := p_signature q\<rparr> = q"
proof -
  let ?z = "\<lambda>r. r\<lparr>p_ttl := 0, p_signature := replicate SIG_LEN 0\<rparr>"
  have e: "encode (?z r) = signed_region r @ replicate SIG_LEN 0" for r
    by (simp add: encode_def signed_region_def write_body_def effective_flags_def Let_def)
  have "decode (encode (?z p)) = decode (encode (?z q))" by (simp only: e assms(3))
  moreover have "decode (encode (?z p)) = Ret (Inr (?z p))" "decode (encode (?z q)) = Ret (Inr (?z q))"
    using assms(1,2) by (auto intro!: decode_encode simp: packet_ok_def)
  ultimately have "?z p = ?z q" by simp
  then show ?thesis by (cases p, cases q) simp
qed

lemma decode_tail_trailing:
  assumes d: "drop off bs = lenb @ rest"
    and l: "length lenb = 2" "be_nat lenb + SIG_LEN < length rest"
  shows "decode_tail bs off = Ret (Inl (Trailing (length rest - (be_nat lenb + SIG_LEN))))"
proof -
  have "length (drop off bs) = 2 + length rest" using d l by simp
  then have len: "length bs = off + 2 + length rest" by simp
  have "take 2 (drop off bs) = lenb" using d l by simp
  then show ?thesis using len l by (simp only: decode_tail_cases Let_def) simp
qed

lemma oversized_payload_is_trailing:
  assumes "packet_ok (p\<lparr>p_payload := []\<rparr>)" and "2 ^ 16 \<le> length (p_payload p)"
  shows "decode (encode p) =
    Ret (Inl (Trailing (length (p_payload p) - length (p_payload p) mod 2 ^ 16)))"
proof -
  let ?rc = "case p_recipient p of Some r \<Rightarrow> r | None \<Rightarrow> []"
  let ?len = "u16_to_be (of_nat (length (p_payload p)))" and ?rest = "p_payload p @ p_signature p"
  let ?off = "20 + length ?rc" and ?n = "length (p_payload p) mod 2 ^ 16"
  have e: "encode p = [PROTOCOL_VERSION, to_u8 (p_type p), effective_flags p, p_ttl p]
      @ u64_to_be (p_timestamp_ms p) @ p_sender p @ ?rc @ ?len @ ?rest"
    and s: "length (p_sender p) = 8" "length (p_signature p) = SIG_LEN"
    and rok: "case p_recipient p of None \<Rightarrow> True | Some r \<Rightarrow> length r = 8"
    using assms(1) by (simp_all add: encode_def write_body_def packet_ok_def)
  have len: "length (encode p) = ?off + 2 + length ?rest" unfolding e using s by simp
  have "drop 20 (encode p) = ?rc @ ?len @ ?rest" unfolding e using s by simp
  moreover have "20 \<le> length (encode p)" unfolding len by simp
  moreover have "case p_recipient p of None \<Rightarrow> ?rc = [] \<and> effective_flags p AND FLAG_HAS_RECIPIENT = 0
      | Some r \<Rightarrow> ?rc = r \<and> length r = 8 \<and> effective_flags p AND FLAG_HAS_RECIPIENT \<noteq> 0"
    using effective_flags_recipient [of p] rok by (auto split: option.splits)
  ultimately have r: "decode_recipient (encode p) (effective_flags p) 20 = Ret (Inr (p_recipient p, ?off))"
    and d: "drop ?off (encode p) = ?len @ ?rest"
    by (rule decode_recipient_layout)+
  note d
  moreover have n: "be_nat ?len = ?n" by (simp add: be_nat_be_bytes unat_of_nat)
  moreover have lt: "?n < 2 ^ 16" by (rule mod_less_divisor) simp
  ultimately have t: "decode_tail (encode p) ?off = Ret (Inl (Trailing (length ?rest - (?n + SIG_LEN))))"
    using assms(2) s decode_tail_trailing [of ?off "encode p" ?len ?rest] by simp
  have fl: "encode p ! 2 = effective_flags p" unfolding e by simp
  have "MIN_HEADER \<le> length (encode p)" unfolding len by (simp add: MIN_HEADER_def)
  then show ?thesis
    using s by (simp add: decode_header fl r t) (simp add: e)
qed

section \<open>Properties\<close>

text \<open>A packet as \<open>Packet::new\<close> builds it satisfies the well-formedness condition.\<close>

lemma new_packet_ok:
  assumes "from_u8 (to_u8 t) = t" "length sender = 8" "\<forall>r. recipient = Some r \<longrightarrow> length r = 8" "length payload < 2 ^ 16"
  shows "packet_ok (new_packet t ttl ts sender recipient payload)"
  using assms by (auto simp: packet_ok_def new_packet_def SIG_LEN_def split: option.splits)

definition sample_packet :: packet where
  "sample_packet = new_packet ChannelMessage 5 1 (replicate 8 1) (Some (replicate 8 2)) [1, 2, 3]"

lemma sample_packet_ok: "packet_ok sample_packet"
  unfolding sample_packet_def by (rule new_packet_ok) (simp_all add: from_u8_def)

text \<open>C19: every well-formed packet survives encoding and decoding unchanged.\<close>

theorem wire_roundtrip:
  assumes "packet_ok p"
  shows "decode (encode p) = Ret (Inr p)"
  by (rule decode_encode [OF assms])

theorem wire_roundtrip_witness: "decode (encode sample_packet) = Ret (Inr sample_packet)"
  by (rule wire_roundtrip [OF sample_packet_ok])

text \<open>C20: decoding is total on arbitrary bytes (no slice or index of it panics), and it accepts only the
  canonical form: whatever is accepted is well-formed and encodes back to exactly the bytes received.\<close>

theorem decode_total_and_canonical:
  "\<exists>r. decode bs = Ret r \<and> (\<forall>p. r = Inr p \<longrightarrow> packet_ok p \<and> encode p = bs)"
  using decode_total [of bs] encode_decode by blast

theorem decode_total_and_canonical_witness:
  "\<exists>r. decode (encode sample_packet) = Ret r \<and> r = Inr sample_packet"
  using decode_total_and_canonical [of "encode sample_packet"] decode_encode [OF sample_packet_ok] by auto

text \<open>A relay that changes only the hop limit of a packet invalidates neither its signature nor the
  digest it is recognised by.\<close>

theorem relay_keeps_signature:
  "packet_verify ed_verify (p\<lparr>p_ttl := t\<rparr>) key = packet_verify ed_verify p key
   \<and> packet_digest sha256 (p\<lparr>p_ttl := t\<rparr>) = packet_digest sha256 p"
  by (simp add: packet_verify_def packet_digest_def signed_region_ttl)

text \<open>C21: the signature covers everything else: two well-formed packets with the same signed bytes differ at
  most in hop limit and signature.\<close>

theorem signed_region_binds:
  assumes "packet_ok p" "packet_ok q" "signed_region p = signed_region q"
  shows "p\<lparr>p_ttl := p_ttl q, p_signature := p_signature q\<rparr> = q"
  by (rule signed_region_inject [OF assms])

theorem signed_region_binds_witness:
  "sample_packet\<lparr>p_ttl := 4, p_signature := replicate SIG_LEN 9\<rparr> = sample_packet\<lparr>p_ttl := 4, p_signature := replicate SIG_LEN 9\<rparr>
   \<and> signed_region sample_packet = signed_region (sample_packet\<lparr>p_ttl := 4, p_signature := replicate SIG_LEN 9\<rparr>)"
proof -
  have eq: "signed_region sample_packet = signed_region (sample_packet\<lparr>p_ttl := 4, p_signature := replicate SIG_LEN 9\<rparr>)"
    by (simp add: signed_region_signature signed_region_ttl)
  have ok: "packet_ok (sample_packet\<lparr>p_ttl := 4, p_signature := replicate SIG_LEN 9\<rparr>)"
    using sample_packet_ok by (simp add: packet_ok_def)
  from signed_region_binds [OF sample_packet_ok ok eq] eq show ?thesis by simp
qed

text \<open>C38: the length field is 16 bits and the encoder truncates to it: a packet with a payload of 64 KiB or
  more encodes without an error to bytes that every decoder rejects as having trailing data.\<close>

theorem oversized_payload_undecodable:
  assumes "packet_ok (p\<lparr>p_payload := []\<rparr>)" and "2 ^ 16 \<le> length (p_payload p)"
  shows "decode (encode p) =
    Ret (Inl (Trailing (length (p_payload p) - length (p_payload p) mod 2 ^ 16)))"
  by (rule oversized_payload_is_trailing [OF assms])

theorem oversized_payload_undecodable_witness:
  "decode (encode (sample_packet\<lparr>p_payload := replicate 65540 7\<rparr>)) = Ret (Inl (Trailing 65536))"
proof -
  have "packet_ok (sample_packet\<lparr>p_payload := []\<rparr>)" using sample_packet_ok by (simp add: packet_ok_def)
  then show ?thesis
    using oversized_payload_undecodable [of "sample_packet\<lparr>p_payload := replicate 65540 7\<rparr>"] by simp
qed

end
