(* ===== verification/F64.thy ===== *)
theory F64
  imports Prelude Complex_Main "HOL-Library.Log_Nat"
begin

text \<open>
  The finite values of Rust's \<open>f64\<close> are rationals; an arithmetic operation is the exact operation
  followed by rounding to the nearest binary64 value, ties to even (IEEE 754).  \<open>f64_round\<close> is that
  rounding, executable, with the 53-bit significand and the least exponent \<open>-1074\<close> of binary64.
  Infinities and NaN are not represented: no operand of the modelled code comes near \<open>2^1024\<close> and
  no operation there is undefined.

  The clients (the token bucket of \<open>relay.rs\<close>) need only two laws of the rounding, stated as the
  locale \<open>rounding\<close>: it is monotone on non-negative values and exact on the integers up to \<open>2^53\<close>.
  The interpretation proves both for \<open>f64_round\<close>.
\<close>

section \<open>Rounding to binary64\<close>

type_synonym f64 = rat

definition f64_exp :: "rat \<Rightarrow> int" where
  "f64_exp x =
     (case quotient_of \<bar>x\<bar> of (p, q) \<Rightarrow>
        let e = int (floorlog 2 (nat p)) - int (floorlog 2 (nat q))
        in if 2 powi e \<le> \<bar>x\<bar> then e else e - 1)"

definition f64_ulp :: "rat \<Rightarrow> rat" where
  "f64_ulp x = 2 powi (max (f64_exp x - 52) (- 1074))"

definition round_half_even :: "rat \<Rightarrow> int" where
  "round_half_even y =
     (let f = \<lfloor>y\<rfloor>; d = y - of_int f
      in if d < 1 / 2 then f else if 1 / 2 < d then f + 1 else if even f then f else f + 1)"

definition f64_round :: "rat \<Rightarrow> f64" where
  "f64_round x = (if x = 0 then 0 else of_int (round_half_even (x / f64_ulp x)) * f64_ulp x)"

section \<open>The contract of a rounding\<close>

locale rounding =
  fixes rnd :: "rat \<Rightarrow> rat"
  assumes rnd_mono: "0 \<le> x \<Longrightarrow> x \<le> y \<Longrightarrow> rnd x \<le> rnd y"
    and rnd_of_nat: "n \<le> 2 ^ 53 \<Longrightarrow> rnd (of_nat n) = of_nat n"
begin

lemma rnd_0: "rnd 0 = 0"
  using rnd_of_nat [of 0] by simp

lemma rnd_nonneg: "0 \<le> x \<Longrightarrow> 0 \<le> rnd x"
  using rnd_mono [of 0 x] by (simp add: rnd_0)

lemma rnd_le_nat: "0 \<le> x \<Longrightarrow> x \<le> of_nat n \<Longrightarrow> n \<le> 2 ^ 53 \<Longrightarrow> rnd x \<le> of_nat n"
  using rnd_mono [of x "of_nat n"] by (simp add: rnd_of_nat)

lemma rnd_ge_nat: "of_nat n \<le> x \<Longrightarrow> n \<le> 2 ^ 53 \<Longrightarrow> of_nat n \<le> rnd x"
  using rnd_mono [of "of_nat n" x] by (simp add: rnd_of_nat)

end

section \<open>binary64 satisfies the contract\<close>

lemma powi_mono: "a \<le> b \<Longrightarrow> (2 :: rat) powi a \<le> 2 powi b"
  by (simp add: power_int_increasing)

lemma powi_less_iff: "(2 :: rat) powi a < 2 powi b \<longleftrightarrow> a < b"
  by (metis linorder_not_le powi_mono power_int_strict_increasing one_less_numeral_iff semiring_norm(76))

lemma powi_quotient: "(2 :: rat) powi a / 2 powi b = 2 powi (a - b)"
  by (simp add: power_int_diff)

lemma powi_int: "0 \<le> a \<Longrightarrow> (2 :: rat) powi a = of_int (2 ^ nat a)"
  by (simp add: power_int_def)

lemma nat_binade:
  assumes "0 < p"
  shows "(2 :: rat) powi (int (floorlog 2 p) - 1) \<le> of_nat p" and "of_nat p < (2 :: rat) powi int (floorlog 2 p)"
proof -
  have b: "2 ^ (floorlog 2 p - 1) \<le> p" "p < 2 ^ floorlog 2 p"
    using floorlog_bounds [of p 2] assms by auto
  have "0 < floorlog 2 p" using assms by (simp add: floorlog_def)
  then have "(2 :: rat) powi (int (floorlog 2 p) - 1) = of_nat (2 ^ (floorlog 2 p - 1))"
    by (simp add: power_int_def nat_diff_distrib')
  also have "\<dots> \<le> of_nat p" using b(1) by (simp only: of_nat_le_iff)
  finally show "(2 :: rat) powi (int (floorlog 2 p) - 1) \<le> of_nat p" .
  have "of_nat p < (of_nat (2 ^ floorlog 2 p) :: rat)" using b(2) by (simp only: of_nat_less_iff)
  then show "of_nat p < (2 :: rat) powi int (floorlog 2 p)" by simp
qed

lemma f64_exp_bounds:
  assumes "0 < x"
  shows "2 powi f64_exp x \<le> x" and "x < 2 powi (f64_exp x + 1)"
proof -
  obtain p q where pq: "quotient_of x = (p, q)" by (cases "quotient_of x")
  have x: "x = of_int p / of_int q" and q: "0 < q"
    using pq by (simp_all add: quotient_of_div quotient_of_denom_pos)
  have p: "0 < p" using assms q by (simp add: x zero_less_divide_iff)
  define a where "a = int (floorlog 2 (nat p))"
  define b where "b = int (floorlog 2 (nat q))"
  have P: "2 powi (a - 1) \<le> (of_int p :: rat)" "of_int p < (2 :: rat) powi a"
    using nat_binade [of "nat p"] p by (simp_all add: a_def)
  have Q: "2 powi (b - 1) \<le> (of_int q :: rat)" "of_int q < (2 :: rat) powi b"
    using nat_binade [of "nat q"] q by (simp_all add: b_def)
  have "x < 2 powi a / 2 powi (b - 1)"
    unfolding x using P(2) Q(1) p q by (intro frac_less) auto
  then have hi: "x < 2 powi (a - b + 1)" by (simp add: powi_quotient algebra_simps)
  have "2 powi (a - 1) / 2 powi b < x"
    unfolding x using P(1) Q(2) p q by (intro frac_less2) auto
  then have lo: "2 powi (a - b - 1) \<le> x" by (simp add: powi_quotient algebra_simps)
  have e: "f64_exp x = (if 2 powi (a - b) \<le> x then a - b else a - b - 1)"
    using assms by (simp add: f64_exp_def pq a_def b_def Let_def)
  show "2 powi f64_exp x \<le> x" using lo by (simp add: e)
  show "x < 2 powi (f64_exp x + 1)" using hi by (simp add: e not_le)
qed

lemma f64_exp_mono: "0 < x \<Longrightarrow> x \<le> y \<Longrightarrow> f64_exp x \<le> f64_exp y"
proof -
  assume "0 < x" "x \<le> y"
  then have "(2 :: rat) powi f64_exp x < 2 powi (f64_exp y + 1)"
    using f64_exp_bounds(1) [of x] f64_exp_bounds(2) [of y] by linarith
  then show ?thesis by (simp add: powi_less_iff)
qed

lemma f64_ulp_pos: "0 < f64_ulp x"
  by (simp add: f64_ulp_def)

lemma round_half_even_int [simp]: "round_half_even (of_int n) = n"
  by (simp add: round_half_even_def)

lemma round_half_even_bounds: "\<lfloor>y\<rfloor> \<le> round_half_even y" "round_half_even y \<le> \<lfloor>y\<rfloor> + 1"
  by (simp_all add: round_half_even_def Let_def)

lemma round_half_even_mono: "x \<le> y \<Longrightarrow> round_half_even x \<le> round_half_even y"
proof (cases "\<lfloor>x\<rfloor> = \<lfloor>y\<rfloor>")
  case True
  moreover assume "x \<le> y"
  ultimately show ?thesis by (auto simp: round_half_even_def Let_def)
next
  case False
  assume "x \<le> y"
  with False have "\<lfloor>x\<rfloor> + 1 \<le> \<lfloor>y\<rfloor>" using floor_mono [of x y] by linarith
  then show ?thesis using round_half_even_bounds [of x] round_half_even_bounds [of y] by linarith
qed

text \<open>A point of the grid of \<open>x\<close> bounds the rounding of \<open>x\<close> from the same side as it bounds \<open>x\<close>.\<close>

lemma f64_round_le_grid:
  assumes "0 < x" "x \<le> of_int n * f64_ulp x"
  shows "f64_round x \<le> of_int n * f64_ulp x"
proof -
  have "x / f64_ulp x \<le> of_int n" using assms f64_ulp_pos [of x] by (simp add: field_simps)
  then have "round_half_even (x / f64_ulp x) \<le> n" using round_half_even_mono by fastforce
  then show ?thesis
    using assms f64_ulp_pos [of x] by (simp add: f64_round_def)
qed

lemma f64_round_ge_grid:
  assumes "0 < x" "of_int n * f64_ulp x \<le> x"
  shows "of_int n * f64_ulp x \<le> f64_round x"
proof -
  have "of_int n \<le> x / f64_ulp x" using assms f64_ulp_pos [of x] by (simp add: field_simps)
  then have "n \<le> round_half_even (x / f64_ulp x)" using round_half_even_mono by fastforce
  then show ?thesis
    using assms f64_ulp_pos [of x] by (simp add: f64_round_def)
qed

lemma f64_round_grid: "0 < x \<Longrightarrow> x = of_int n * f64_ulp x \<Longrightarrow> f64_round x = x"
  using f64_round_le_grid [of x n] f64_round_ge_grid [of x n] by linarith

lemma f64_grid_powi:
  assumes "f64_exp x - 52 \<le> k" "- 1074 \<le> k"
  obtains n where "2 powi k = of_int n * f64_ulp x"
proof -
  let ?u = "max (f64_exp x - 52) (- 1074)"
  have "(2 :: rat) powi k = 2 powi (k - ?u) * 2 powi ?u"
    by (simp add: power_int_diff)
  then show thesis
    using that [of "2 ^ nat (k - ?u)"] assms by (simp add: f64_ulp_def powi_int)
qed

lemma f64_round_mono_pos:
  assumes "0 < x" "x \<le> y"
  shows "f64_round x \<le> f64_round y"
proof (cases "f64_ulp x = f64_ulp y")
  case True
  have "x / f64_ulp y \<le> y / f64_ulp y"
    using assms f64_ulp_pos [of y] by (simp add: divide_right_mono)
  then have "round_half_even (x / f64_ulp y) \<le> round_half_even (y / f64_ulp y)"
    by (rule round_half_even_mono)
  then show ?thesis
    using assms True f64_ulp_pos [of y] by (simp add: f64_round_def)
next
  case False
  let ?k = "f64_exp y"
  from False have "max (f64_exp x - 52) (- 1074) \<noteq> max (?k - 52) (- 1074)"
    by (auto simp: f64_ulp_def)
  with f64_exp_mono [OF assms] have lt: "f64_exp x < ?k" and norm: "- 1074 \<le> ?k - 52"
    by linarith+
  have "x < 2 powi (f64_exp x + 1)" by (rule f64_exp_bounds(2) [OF assms(1)])
  also have "\<dots> \<le> 2 powi ?k" by (rule powi_mono) (use lt in simp)
  finally have xz: "x \<le> 2 powi ?k" by simp
  obtain n where n: "2 powi ?k = of_int n * f64_ulp x"
    by (rule f64_grid_powi [of x ?k]) (use lt norm in auto)
  obtain m where m: "2 powi ?k = of_int m * f64_ulp y"
    by (rule f64_grid_powi [of y ?k]) (use norm in auto)
  have "f64_round x \<le> 2 powi ?k" using f64_round_le_grid [of x n] assms xz n by simp
  also have "\<dots> \<le> f64_round y"
    using f64_round_ge_grid [of y m] assms m f64_exp_bounds(1) [of y] by simp
  finally show ?thesis .
qed

lemma f64_round_nonneg: "0 \<le> x \<Longrightarrow> 0 \<le> f64_round x"
  using f64_round_ge_grid [of x 0] by (cases "x = 0") (auto simp: f64_round_def)

lemma f64_round_of_nat:
  assumes "n \<le> 2 ^ 53"
  shows "f64_round (of_nat n) = of_nat n"
proof (cases "n = 0 \<or> n = 2 ^ 53")
  case True
  have "f64_round (2 ^ 53) = 2 ^ 53"
  proof -
    have "f64_exp (2 ^ 53) \<le> 53"
      using f64_exp_bounds(1) [of "2 ^ 53"] powi_less_iff [of 53 "f64_exp (2 ^ 53)"] by force
    then have k: "f64_exp (2 ^ 53) - 52 \<le> 53" by simp
    obtain m where "2 powi 53 = of_int m * f64_ulp (2 ^ 53)"
      by (rule f64_grid_powi [OF k]) auto
    then show ?thesis by (intro f64_round_grid [of _ m]) auto
  qed
  with True show ?thesis by (auto simp: f64_round_def)
next
  case False
  then have "of_nat n < (2 :: rat) powi 53" using assms by (simp flip: of_nat_power of_nat_less_iff)
  then have "f64_exp (of_nat n) - 52 \<le> 0"
    using False f64_exp_bounds(1) [of "of_nat n"] powi_less_iff [of "f64_exp (of_nat n)" 53] by force
  then obtain m where m: "2 powi 0 = of_int m * f64_ulp (of_nat n)"
    by (rule f64_grid_powi) auto
  then have "of_nat n = of_int (int n * m) * f64_ulp (of_nat n)" by (simp add: mult.assoc)
  then show ?thesis by (rule f64_round_grid [rotated]) (use False in simp)
qed

interpretation f64: rounding f64_round
proof
  show "f64_round x \<le> f64_round y" if "0 \<le> x" "x \<le> y" for x y
    using that f64_round_mono_pos f64_round_nonneg [of y] by (cases "x = 0") (auto simp: f64_round_def)
qed (rule f64_round_of_nat)

end
