(* ===== verification/Config.thy ===== *)
theory Config
  imports Wire F64
begin

text \<open>
  The tunables of \<open>crates/meshcore/src/config.rs\<close> with their defaults and the origin TTL, the
  injected clock of \<open>clock.rs\<close> and the transport interface of \<open>transport.rs\<close>.
\<close>

section \<open>Clock\<close>

type_synonym millis = u64

record manual_clock =
  mc_now :: millis

definition manual_clock_new :: "millis \<Rightarrow> manual_clock" where
  "manual_clock_new start = \<lparr>mc_now = start\<rparr>"

definition manual_clock_advance :: "manual_clock \<Rightarrow> millis \<Rightarrow> millis \<times> manual_clock" where
  "manual_clock_advance c delta =
     (let next = saturating_add (mc_now c) delta in (next, c\<lparr>mc_now := next\<rparr>))"

definition manual_clock_set :: "manual_clock \<Rightarrow> millis \<Rightarrow> manual_clock" where
  "manual_clock_set c v = c\<lparr>mc_now := v\<rparr>"

section \<open>Transport\<close>

type_synonym link_id = u64

datatype transport_event =
    LinkUp link_id nat "bytes option"
  | LinkDown link_id
  | FrameReceived link_id bytes
  | MtuChanged link_id nat

text \<open>What the core asks of the platform: the calls of \<open>Transport\<close>, in order.\<close>

datatype transport_call =
    Send link_id bytes
  | Close link_id

section \<open>Tunables\<close>

record tunables =
  default_mtu :: nat
  reassembly_slots :: nat
  reassembly_timeout_ms :: millis
  reassembly_max_bytes :: nat
  ttl_announce :: u8
  ttl_announce_dense :: u8
  ttl_channel :: u8
  ttl_channel_dense :: u8
  ttl_dm :: u8
  ttl_dm_dense :: u8
  dense_degree :: nat
  jitter_min_ms :: millis
  jitter_max_ms :: millis
  suppression_threshold :: u32
  relay_prob_sparse :: f64
  relay_prob_mid :: f64
  relay_prob_dense :: f64
  relay_sparse_max :: nat
  relay_mid_max :: nat
  seen_cache_capacity :: nat
  seen_cache_ttl_ms :: millis
  rate_burst :: u32
  rate_sustained_per_min :: u32
  greylist_ms :: millis
  pow_bits :: u32
  compress_min_bytes :: nat
  decompress_max_bytes :: nat
  channel_history_ms :: millis
  channel_history_max_msgs :: nat
  envelope_ttl_ms :: millis
  envelope_max_per_peer :: nat

definition default_tunables :: tunables where
  "default_tunables =
     \<lparr>default_mtu = 182,
      reassembly_slots = 128,
      reassembly_timeout_ms = 30000,
      reassembly_max_bytes = 2 ^ 20,
      ttl_announce = 15,
      ttl_announce_dense = 12,
      ttl_channel = 10,
      ttl_channel_dense = 7,
      ttl_dm = 10,
      ttl_dm_dense = 7,
      dense_degree = 6,
      jitter_min_ms = 10,
      jitter_max_ms = 220,
      suppression_threshold = 3,
      relay_prob_sparse = 1,
      relay_prob_mid = f64_round (7 / 10),
      relay_prob_dense = f64_round (45 / 100),
      relay_sparse_max = 3,
      relay_mid_max = 6,
      seen_cache_capacity = 1000,
      seen_cache_ttl_ms = 5 * 60000,
      rate_burst = 10,
      rate_sustained_per_min = 30,
      greylist_ms = 60000,
      pow_bits = 22,
      compress_min_bytes = 128,
      decompress_max_bytes = 4096,
      channel_history_ms = 6 * 3600000,
      channel_history_max_msgs = 1000,
      envelope_ttl_ms = 24 * 3600000,
      envelope_max_per_peer = 100\<rparr>"

definition origin_ttl :: "tunables \<Rightarrow> msg_type \<Rightarrow> nat \<Rightarrow> u8" where
  "origin_ttl cfg t degree =
     (let dense = dense_degree cfg \<le> degree in
      case t of
        Announce \<Rightarrow> if dense then ttl_announce_dense cfg else ttl_announce cfg
      | ChannelMessage \<Rightarrow> if dense then ttl_channel_dense cfg else ttl_channel cfg
      | DirectMessage \<Rightarrow> if dense then ttl_dm_dense cfg else ttl_dm cfg
      | NoiseHandshake \<Rightarrow> if dense then ttl_dm_dense cfg else ttl_dm cfg
      | _ \<Rightarrow> 1)"

section \<open>Lemmas\<close>

lemma handshake_ttl_is_dm_ttl: "origin_ttl cfg NoiseHandshake degree = origin_ttl cfg DirectMessage degree"
  by (simp add: origin_ttl_def)

lemma origin_ttl_link_local:
  "t \<notin> {Announce, ChannelMessage, DirectMessage, NoiseHandshake} \<Longrightarrow> origin_ttl cfg t degree = 1"
  by (cases t) (simp_all add: origin_ttl_def)

lemma default_relay_probs:
  "relay_prob_mid default_tunables = 6305039478318694 / 9007199254740992"
  "relay_prob_dense default_tunables = 8106479329266893 / 18014398509481984"
  by (simp_all add: default_tunables_def) code_simp+

lemma default_tunables_simps [simp]:
  "reassembly_slots default_tunables = 128" "reassembly_max_bytes default_tunables = 1048576"
  "reassembly_timeout_ms default_tunables = 30000" "compress_min_bytes default_tunables = 128"
  "decompress_max_bytes default_tunables = 4096" "suppression_threshold default_tunables = 3"
  "seen_cache_capacity default_tunables = 1000" "seen_cache_ttl_ms default_tunables = 300000"
  "rate_burst default_tunables = 10" "rate_sustained_per_min default_tunables = 30"
  "greylist_ms default_tunables = 60000" "pow_bits default_tunables = 22"
  "jitter_min_ms default_tunables = 10" "jitter_max_ms default_tunables = 220"
  "channel_history_ms default_tunables = 21600000" "channel_history_max_msgs default_tunables = 1000"
  "envelope_ttl_ms default_tunables = 86400000" "envelope_max_per_peer default_tunables = 100"
  "default_mtu default_tunables = 182" "relay_sparse_max default_tunables = 3" "relay_mid_max default_tunables = 6"
  by (simp_all add: default_tunables_def)

lemma manual_clock_advance_monotone:
  "mc_now c \<le> fst (manual_clock_advance c d) \<and> mc_now (snd (manual_clock_advance c d)) = fst (manual_clock_advance c d)"
  by (simp add: manual_clock_advance_def Let_def saturating_add_mono)

end
