(* ===== verification/Compress.thy ===== *)
theory Compress
  imports Config
begin

text \<open>
  Payload compression with a hard output cap, \<open>crates/meshcore/src/compress.rs\<close>.  The LZ4 codec is
  the \<open>lz4_flex\<close> crate: it is the pair of parameters \<open>lz4_compress\<close> and \<open>lz4_decompress\<close> (block,
  capacity), and the round trip is stated under the documented behaviour \<open>lz4_roundtrip\<close>.
\<close>

section \<open>Operations\<close>

text \<open>The decimal form \<open>format!\<close> gives an unsigned integer.\<close>

fun decimal :: "nat \<Rightarrow> string" where
  "decimal n = (if n < 10 then [char_of (48 + n)] else decimal (n div 10) @ [char_of (48 + n mod 10)])"

declare decimal.simps [simp del]

definition maybe_compress :: "(bytes \<Rightarrow> bytes) \<Rightarrow> bytes \<Rightarrow> tunables \<Rightarrow> bytes option" where
  "maybe_compress lz4_compress input cfg =
     (if length input < compress_min_bytes cfg then None
      else
        let body = lz4_compress input;
            out = u32_to_be (of_nat (length input)) @ body
        in if length out < length input then Some out else None)"

definition decompress ::
  "(bytes \<Rightarrow> nat \<Rightarrow> string + bytes) \<Rightarrow> bytes \<Rightarrow> tunables \<Rightarrow> (mesh_error + bytes) outcome" where
  "decompress lz4_decompress input cfg =
     (if length input < 4 then Ret (Inl (CompressErr ''truncated length prefix''))
      else
        and_then (bslice input 0 4) (\<lambda>len_bytes.
          let declared = unat (u32_from_be len_bytes) in
          if declared > decompress_max_bytes cfg
          then Ret (Inl (CompressErr (''declared size '' @ decimal declared @ '' exceeds cap ''
                                        @ decimal (decompress_max_bytes cfg))))
          else
            and_then (bslice input 4 (length input)) (\<lambda>body.
              Ret (case lz4_decompress body declared of
                     Inl e \<Rightarrow> Inl (CompressErr (''lz4: '' @ e))
                   | Inr out \<Rightarrow>
                       if length out \<noteq> declared then Inl (CompressErr ''length mismatch after decompress'')
                       else Inr out))))"

definition lz4_roundtrip :: "(bytes \<Rightarrow> bytes) \<Rightarrow> (bytes \<Rightarrow> nat \<Rightarrow> string + bytes) \<Rightarrow> bool" where
  "lz4_roundtrip cmp dec \<longleftrightarrow> (\<forall>x. dec (cmp x) (length x) = Inr x)"

section \<open>Lemmas\<close>

lemma unat_u32_from_be: "length bs = 4 \<Longrightarrow> unat (u32_from_be bs) = be_nat bs"
  using be_nat_less [of bs] by (simp add: unat_of_nat)

lemma decompress_Inr:
  "decompress dec input cfg = Ret (Inr out) \<longleftrightarrow>
     4 \<le> length input \<and> be_nat (take 4 input) \<le> decompress_max_bytes cfg
     \<and> dec (drop 4 input) (be_nat (take 4 input)) = Inr out \<and> length out = be_nat (take 4 input)"
  by (auto simp: decompress_def Let_def unat_u32_from_be split: sum.splits)

lemma decompress_total: "\<exists>res. decompress dec input cfg = Ret res \<and> (\<forall>e. res = Inl e \<longrightarrow> (\<exists>msg. e = CompressErr msg))"
  by (auto simp: decompress_def Let_def split: sum.splits)

lemma maybe_compress_SomeD:
  "maybe_compress cmp x cfg = Some y \<Longrightarrow>
     y = u32_to_be (of_nat (length x)) @ cmp x \<and> length y < length x \<and> compress_min_bytes cfg \<le> length x"
  by (auto simp: maybe_compress_def Let_def split: if_splits)

lemma decompress_compressed:
  assumes "lz4_roundtrip lz4_compress lz4_decompress"
    and "maybe_compress lz4_compress input cfg = Some out" "length input < 2 ^ 32"
  shows "length out < length input
    \<and> (\<forall>x. decompress lz4_decompress out cfg' = Ret (Inr x) \<longleftrightarrow> length input \<le> decompress_max_bytes cfg' \<and> x = input)"
proof -
  note out = maybe_compress_SomeD [OF assms(2)]
  have "be_nat (u32_to_be (of_nat (length input))) = length input"
    using assms(3) by (simp add: be_nat_be_bytes unat_of_nat)
  then show ?thesis
    using out assms(1) by (auto simp: decompress_Inr lz4_roundtrip_def)
qed

section \<open>Properties\<close>

text \<open>Decompression never panics, and whatever the input claims and whatever the codec does, its
  output never exceeds the configured cap and is exactly as long as the prefix declares.\<close>

theorem decompress_output_capped:
  "\<exists>res. decompress lz4_decompress input cfg = Ret res
     \<and> (case res of Inl e \<Rightarrow> (\<exists>msg. e = CompressErr msg)
        | Inr out \<Rightarrow> length out \<le> decompress_max_bytes cfg \<and> length out = be_nat (take 4 input))"
  using decompress_total [of lz4_decompress input cfg] decompress_Inr [of lz4_decompress input cfg]
  by (fastforce split: sum.splits)

text \<open>C35: what \<open>maybe_compress\<close> produces is strictly smaller than its input and decompresses to it
  exactly when the input is within the receiver's cap: a longer input is compressed all the same,
  and every receiver with that cap rejects the result.\<close>

theorem compress_decompress:
  assumes "lz4_roundtrip lz4_compress lz4_decompress"
    and "maybe_compress lz4_compress input cfg = Some out" "length input < 2 ^ 32"
  shows "length out < length input
    \<and> (\<forall>x. decompress lz4_decompress out cfg' = Ret (Inr x) \<longleftrightarrow> length input \<le> decompress_max_bytes cfg' \<and> x = input)"
  by (rule decompress_compressed [OF assms])

text \<open>A codec with the documented round trip: one byte for a run of sevens.\<close>

definition sevens_compress :: "bytes \<Rightarrow> bytes" where
  "sevens_compress x = (if x = replicate (length x) 7 then [1] else 0 # x)"

definition sevens_decompress :: "bytes \<Rightarrow> nat \<Rightarrow> string + bytes" where
  "sevens_decompress b n = (case b of [] \<Rightarrow> Inl ''empty'' | c # r \<Rightarrow> Inr (if c = 1 then replicate n 7 else r))"

lemma sevens_roundtrip: "lz4_roundtrip sevens_compress sevens_decompress"
  by (simp add: lz4_roundtrip_def sevens_compress_def sevens_decompress_def)

theorem compress_decompress_witness:
  "lz4_roundtrip sevens_compress sevens_decompress
   \<and> decompress sevens_decompress ([0, 0, 0, 200] @ [1]) default_tunables = Ret (Inr (replicate 200 7))
   \<and> decompress sevens_decompress ([0, 0, 32, 0] @ [1]) default_tunables \<noteq> Ret (Inr (replicate 8192 7))"
proof -
  note rt = sevens_roundtrip
  have four: "4 = Suc (Suc (Suc (Suc 0)))" by simp
  have be: "be_bytes 4 200 = [0, 0, 0, 200]" "be_bytes 4 8192 = [0, 0, 32, 0]"
    unfolding four by simp_all
  have mc: "maybe_compress sevens_compress (replicate 200 7) default_tunables = Some ([0, 0, 0, 200] @ [1])"
    "maybe_compress sevens_compress (replicate 8192 7) default_tunables = Some ([0, 0, 32, 0] @ [1])"
    by (simp_all add: maybe_compress_def sevens_compress_def Let_def be)
  from compress_decompress [OF rt mc(1), where cfg' = default_tunables]
    compress_decompress [OF rt mc(2), where cfg' = default_tunables] rt show ?thesis by simp
qed

end
