(* ===== verification/Channels.thy ===== *)
theory Channels
  imports Compress "HOL-Library.Sublist"
begin

text \<open>
  Strings as the code has them (UTF-8 bytes) with the operations of the standard library it calls,
  and \<open>crates/meshcore/src/channels.rs\<close>: channel names and the set reconciliation that heals
  partitions.

  \<^item> \<open>from_utf8_lossy\<close> replaces each maximal invalid prefix of a sequence by U+FFFD.
  \<^item> \<open>trim\<close> removes the characters with the Unicode property White_Space from both ends; a string is
    scanned in its encoded form, which is the same thing for valid UTF-8.
  \<^item> \<open>to_lowercase\<close> is written out for ASCII strings; the case tables of the other characters are the
    parameter \<open>uni_lower\<close>.
\<close>

section \<open>UTF-8\<close>

definition cont_byte :: "u8 \<Rightarrow> bool" where
  "cont_byte b \<longleftrightarrow> 0x80 \<le> b \<and> b \<le> 0xBF"

text \<open>The length of the character (\<open>True\<close>) or of the maximal invalid part (\<open>False\<close>) a non-empty
  byte string starts with; a byte past the end reads as 0.\<close>

definition utf8_at :: "bytes \<Rightarrow> nat \<Rightarrow> u8" where
  "utf8_at bs i = (if i < length bs then bs ! i else 0)"

definition utf8_step :: "bytes \<Rightarrow> bool \<times> nat" where
  "utf8_step bs =
     (let b = utf8_at bs 0; b1 = utf8_at bs 1; b2 = utf8_at bs 2; b3 = utf8_at bs 3 in
      if b < 0x80 then (True, 1)
      else if 0xC2 \<le> b \<and> b \<le> 0xDF then (if cont_byte b1 then (True, 2) else (False, 1))
      else if 0xE0 \<le> b \<and> b \<le> 0xEF then
        (if \<not> (if b = 0xE0 then 0xA0 \<le> b1 \<and> b1 \<le> 0xBF
                else if b = 0xED then 0x80 \<le> b1 \<and> b1 \<le> 0x9F else cont_byte b1) then (False, 1)
         else if \<not> cont_byte b2 then (False, 2) else (True, 3))
      else if 0xF0 \<le> b \<and> b \<le> 0xF4 then
        (if \<not> (if b = 0xF0 then 0x90 \<le> b1 \<and> b1 \<le> 0xBF
                else if b = 0xF4 then 0x80 \<le> b1 \<and> b1 \<le> 0x8F else cont_byte b1) then (False, 1)
         else if \<not> cont_byte b2 then (False, 2)
         else if \<not> cont_byte b3 then (False, 3) else (True, 4))
      else (False, 1))"

lemma utf8_step_pos: "0 < snd (utf8_step bs)"
  by (simp add: utf8_step_def Let_def)

lemma utf8_step_less: "(v, n) = utf8_step bs \<Longrightarrow> 0 < n"
  using utf8_step_pos [of bs] by (metis snd_conv)

definition REPLACEMENT :: bytes where "REPLACEMENT = [0xEF, 0xBF, 0xBD]"

function from_utf8_lossy :: "bytes \<Rightarrow> rstring" where
  "from_utf8_lossy bs =
     (if bs = [] then []
      else case utf8_step bs of (valid, n) \<Rightarrow>
        (if valid then take n bs else REPLACEMENT) @ from_utf8_lossy (drop n bs))"
  by pat_completeness auto
termination
  by (relation "measure length") (auto dest: utf8_step_less)

declare from_utf8_lossy.simps [simp del]

function valid_utf8 :: "bytes \<Rightarrow> bool" where
  "valid_utf8 bs \<longleftrightarrow>
     (if bs = [] then True
      else case utf8_step bs of (valid, n) \<Rightarrow> valid \<and> valid_utf8 (drop n bs))"
  by pat_completeness auto
termination
  by (relation "measure length") (auto dest: utf8_step_less)

declare valid_utf8.simps [simp del]

section \<open>Trimming and case\<close>

definition white_space :: "bytes list" where
  "white_space =
     map (\<lambda>b. [b]) [0x09, 0x0A, 0x0B, 0x0C, 0x0D, 0x20] @ [[0xC2, 0x85], [0xC2, 0xA0], [0xE1, 0x9A, 0x80]]
     @ map (\<lambda>b. [0xE2, 0x80, b]) [0x80, 0x81, 0x82, 0x83, 0x84, 0x85, 0x86, 0x87, 0x88, 0x89, 0x8A, 0xA8, 0xA9, 0xAF]
     @ [[0xE2, 0x81, 0x9F], [0xE3, 0x80, 0x80]]"

function strip_start :: "bytes list \<Rightarrow> bytes \<Rightarrow> bytes" where
  "strip_start pats s =
     (case find (\<lambda>w. w \<noteq> [] \<and> prefix w s) pats of
        None \<Rightarrow> s
      | Some w \<Rightarrow> strip_start pats (drop (length w) s))"
  by pat_completeness auto
termination
  by (relation "measure (\<lambda>(pats, s). length s)") (auto simp: find_Some_iff prefix_def)

declare strip_start.simps [simp del]

definition trim_str :: "rstring \<Rightarrow> rstring" where
  "trim_str s = rev (strip_start (map rev white_space) (rev (strip_start white_space s)))"

definition ascii_lower :: "u8 \<Rightarrow> u8" where
  "ascii_lower b = (if 0x41 \<le> b \<and> b \<le> 0x5A then b + 0x20 else b)"

definition is_ascii :: "rstring \<Rightarrow> bool" where
  "is_ascii s \<longleftrightarrow> list_all (\<lambda>b. b < 0x80) s"

definition to_lowercase :: "(rstring \<Rightarrow> rstring) \<Rightarrow> rstring \<Rightarrow> rstring" where
  "to_lowercase uni_lower s = (if is_ascii s then map ascii_lower s else uni_lower s)"

section \<open>Channels\<close>

abbreviation HASH :: u8 where "HASH \<equiv> 0x23"

definition normalize :: "(rstring \<Rightarrow> rstring) \<Rightarrow> rstring \<Rightarrow> rstring" where
  "normalize uni_lower name = HASH # to_lowercase uni_lower (strip_start [[HASH]] (trim_str name))"

definition str_bytes :: "string \<Rightarrow> rstring" where
  "str_bytes s = map of_char s"

definition DEFAULT_CHANNEL :: rstring where "DEFAULT_CHANNEL = str_bytes ''#general''"

record sync_filter =
  sf_channel :: rstring
  sf_digests :: "bytes list"

text \<open>\<open>Vec::dedup\<close>: of each run of equal elements the first is kept.\<close>

fun dedup :: "'a list \<Rightarrow> 'a list" where
  "dedup (x # y # xs) = (if x = y then dedup (x # xs) else x # dedup (y # xs))"
| "dedup xs = xs"

definition sync_filter_new :: "rstring \<Rightarrow> bytes list \<Rightarrow> sync_filter" where
  "sync_filter_new channel ds = \<lparr>sf_channel = channel, sf_digests = dedup (sort ds)\<rparr>"

definition missing_from :: "sync_filter \<Rightarrow> sync_filter \<Rightarrow> bytes list" where
  "missing_from self remote = filter (\<lambda>d. d \<notin> set (sf_digests remote)) (sf_digests self)"

section \<open>Lemmas\<close>

lemma set_dedup [simp]: "set (dedup xs) = set xs"
  by (induction xs rule: dedup.induct) auto

lemma dedup_sorted: "sorted xs \<Longrightarrow> sorted_wrt (<) (dedup (xs :: 'a::linorder list))"
proof (induction xs rule: dedup.induct)
  case (1 x y xs)
  show ?case
  proof (cases "x = y")
    case False
    have "\<forall>z \<in> set (dedup (y # xs)). x < z"
      unfolding set_dedup using 1(3) False by (auto simp: less_le)
    with False 1(2,3) show ?thesis by simp
  qed (use 1 in simp)
qed simp_all

lemma dedup_id: "sorted_wrt (<) (xs :: 'a::linorder list) \<Longrightarrow> dedup xs = xs"
  by (induction xs rule: dedup.induct) auto

lemma from_utf8_lossy_valid: "valid_utf8 bs \<Longrightarrow> from_utf8_lossy bs = bs"
proof (induction bs rule: valid_utf8.induct)
  case (1 bs)
  show ?case
  proof (cases "bs = []")
    case False
    obtain v n where vn: "utf8_step bs = (v, n)" by (cases "utf8_step bs")
    with 1(2) False have "v" "valid_utf8 (drop n bs)" by (auto simp: valid_utf8.simps [of bs])
    with 1(1) [OF False vn [symmetric]] vn False show ?thesis by (simp add: from_utf8_lossy.simps [of bs])
  qed (simp add: from_utf8_lossy.simps)
qed

lemma strip_start_suffix: "\<exists>p. s = p @ strip_start pats s"
proof (induction pats s rule: strip_start.induct)
  case (1 pats s)
  show ?case
  proof (cases "find (\<lambda>w. w \<noteq> [] \<and> prefix w s) pats")
    case (Some w)
    from 1 [OF this] obtain p where "drop (length w) s = p @ strip_start pats (drop (length w) s)" by blast
    moreover have "strip_start pats s = strip_start pats (drop (length w) s)"
      by (subst strip_start.simps) (simp add: Some)
    ultimately have "s = (take (length w) s @ p) @ strip_start pats s"
      by (metis append.assoc append_take_drop_id)
    then show ?thesis by blast
  qed (simp add: strip_start.simps)
qed

lemma strip_start_no_match: "w \<in> set pats \<Longrightarrow> w \<noteq> [] \<Longrightarrow> \<not> prefix w (strip_start pats s)"
proof (induction pats s rule: strip_start.induct)
  case (1 pats s)
  show ?case
  proof (cases "find (\<lambda>w. w \<noteq> [] \<and> prefix w s) pats")
    case None
    then have "strip_start pats s = s" by (subst strip_start.simps) simp
    with None 1(2,3) show ?thesis by (auto simp: find_None_iff)
  next
    case (Some v)
    then have "strip_start pats s = strip_start pats (drop (length v) s)" by (subst strip_start.simps) simp
    with 1(1) [OF Some 1(2,3)] show ?thesis by simp
  qed
qed

lemma strip_start_id: "(\<And>w. w \<in> set pats \<Longrightarrow> w \<noteq> [] \<Longrightarrow> \<not> prefix w s) \<Longrightarrow> strip_start pats s = s"
  by (subst strip_start.simps) (auto simp: find_None_iff split: option.splits dest!: find_Some_iff [THEN iffD1])

definition ascii_space :: "u8 \<Rightarrow> bool" where
  "ascii_space b \<longleftrightarrow> b \<in> {0x09, 0x0A, 0x0B, 0x0C, 0x0D, 0x20}"

lemma white_space_ascii: "w \<in> set white_space \<Longrightarrow> list_all (\<lambda>b. b < 0x80) w \<Longrightarrow> \<exists>b. w = [b] \<and> ascii_space b"
  unfolding white_space_def by (auto simp: ascii_space_def)

lemma white_space_single: "ascii_space b \<Longrightarrow> [b] \<in> set white_space"
  by (auto simp: ascii_space_def white_space_def)

lemma ascii_prefix: "is_ascii s \<Longrightarrow> prefix w s \<Longrightarrow> list_all (\<lambda>b. b < 0x80) w"
  by (auto simp: is_ascii_def prefix_def)

lemma is_ascii_append [simp]: "is_ascii (a @ b) \<longleftrightarrow> is_ascii a \<and> is_ascii b"
  by (simp add: is_ascii_def)

lemma is_ascii_rev [simp]: "is_ascii (rev s) \<longleftrightarrow> is_ascii s"
  by (simp add: is_ascii_def list_all_iff)

text \<open>What trimming does to an ASCII string: the last character left is not a space.\<close>

lemma trim_str_ascii:
  assumes "is_ascii s"
  shows "is_ascii (trim_str s)" "trim_str s \<noteq> [] \<Longrightarrow> \<not> ascii_space (last (trim_str s))"
proof -
  obtain p where p: "s = p @ strip_start white_space s" using strip_start_suffix by blast
  obtain q where q: "rev (strip_start white_space s) = q @ rev (trim_str s)"
    using strip_start_suffix [of "rev (strip_start white_space s)" "map rev white_space"] by (auto simp: trim_str_def)
  have "is_ascii (rev (trim_str s))" using assms p q by (metis is_ascii_append is_ascii_rev)
  then show "is_ascii (trim_str s)" by simp
  show "\<not> ascii_space (last (trim_str s))" if ne: "trim_str s \<noteq> []"
  proof
    assume sp: "ascii_space (last (trim_str s))"
    have "prefix [last (trim_str s)] (rev (trim_str s))"
      using ne by (simp add: hd_rev prefix_def) (metis append_butlast_last_id rev_eq_Cons_iff rev_rev_ident)
    moreover have "[last (trim_str s)] \<in> set (map rev white_space)"
      using white_space_single [OF sp] by force
    ultimately show False
      using strip_start_no_match [of "[last (trim_str s)]" "map rev white_space" "rev (strip_start white_space s)"]
      by (simp add: trim_str_def)
  qed
qed

lemma trim_str_id:
  assumes "is_ascii s" "s \<noteq> []" "\<not> ascii_space (hd s)" "\<not> ascii_space (last s)"
  shows "trim_str s = s"
proof -
  have st: "strip_start white_space s = s"
  proof (rule strip_start_id)
    fix w assume "w \<in> set white_space" "w \<noteq> []"
    then show "\<not> prefix w s"
      using assms white_space_ascii [of w] ascii_prefix [of s w] by (auto simp: prefix_def)
  qed
  have "strip_start (map rev white_space) (rev s) = rev s"
  proof (rule strip_start_id)
    fix w assume w: "w \<in> set (map rev white_space)" "w \<noteq> []"
    show "\<not> prefix w (rev s)"
    proof
      assume pre: "prefix w (rev s)"
      then have "list_all (\<lambda>b. b < 0x80) (rev w)"
        using assms(1) ascii_prefix [of "rev s" w] by (simp add: list_all_iff)
      then obtain b where "rev w = [b]" "ascii_space b" using w white_space_ascii [of "rev w"] by auto
      then show False using pre assms(2,4) by (auto simp: prefix_def rev_swap)
    qed
  qed
  with st show ?thesis by (simp add: trim_str_def)
qed

lemma ascii_lower_facts:
  "ascii_lower (ascii_lower b) = ascii_lower b"
  "ascii_lower b = HASH \<longleftrightarrow> b = HASH"
  "ascii_space (ascii_lower b) \<longleftrightarrow> ascii_space b"
  "b < 0x80 \<Longrightarrow> ascii_lower b < 0x80"
  unfolding ascii_lower_def ascii_space_def by (auto simp: word_unat_eq_iff word_le_nat_alt word_less_nat_alt unat_word_ariths)

lemma ascii_lower_map:
  "is_ascii s \<Longrightarrow> is_ascii (map ascii_lower s)" "map ascii_lower (map ascii_lower s) = map ascii_lower s"
  by (auto simp: is_ascii_def list_all_iff ascii_lower_facts)

section \<open>Properties\<close>

text \<open>Normalising an ASCII channel name is idempotent, whatever mixture of blanks, \<open>#\<close> and case it
  was typed with: the stored form is its own normal form, so lookups by either form agree.\<close>

theorem normalize_idem:
  assumes "is_ascii name"
  shows "normalize uni_lower (normalize uni_lower name) = normalize uni_lower name"
proof -
  define t where "t = strip_start [[HASH]] (trim_str name)"
  obtain p where p: "trim_str name = p @ t" using strip_start_suffix unfolding t_def by blast
  have asc: "is_ascii t" using trim_str_ascii(1) [OF assms] p by simp
  have last: "\<not> ascii_space (last t)" if "t \<noteq> []"
    using trim_str_ascii(2) [OF assms] p that by simp
  have hash: "\<not> prefix [HASH] t" using strip_start_no_match [of "[HASH]" "[[HASH]]"] by (simp add: t_def)
  let ?n = "HASH # map ascii_lower t"
  have n: "normalize uni_lower name = ?n" using asc by (simp add: normalize_def to_lowercase_def t_def)
  have "is_ascii ?n" using ascii_lower_map(1) [OF asc] by (simp add: is_ascii_def)
  then have "trim_str ?n = ?n"
    by (rule trim_str_id)
      (use last in \<open>auto simp: last_map ascii_lower_facts, auto simp: ascii_space_def\<close>)
  moreover have "strip_start [[HASH]] ?n = map ascii_lower t"
  proof -
    have "strip_start [[HASH]] ?n = strip_start [[HASH]] (map ascii_lower t)" by (subst strip_start.simps) simp
    also have "\<dots> = map ascii_lower t"
      by (rule strip_start_id) (use hash in \<open>cases t, auto simp: ascii_lower_facts\<close>)
    finally show ?thesis .
  qed
  ultimately have "normalize uni_lower ?n = ?n"
    using ascii_lower_map [of t] asc by (simp add: normalize_def to_lowercase_def)
  then show ?thesis by (simp only: n)
qed

theorem normalize_idem_witness:
  "normalize id (normalize id (str_bytes '' ##Medic '')) = normalize id (str_bytes '' ##Medic '')
   \<and> normalize id (str_bytes '' ##Medic '') = str_bytes ''#medic''"
proof -
  have "is_ascii (str_bytes '' ##Medic '')" by code_simp
  moreover have "normalize id (str_bytes '' ##Medic '') = str_bytes ''#medic''" by code_simp
  ultimately show ?thesis using normalize_idem by blast
qed

text \<open>What a filter reports as missing from another is exactly the difference of the two digest
  sets, without repetitions and in order, so sending it brings the other side to the union.\<close>

lemma missing_from_is_difference:
  "set (missing_from (sync_filter_new c ds) (sync_filter_new c' es)) = set ds - set es
   \<and> sorted_wrt (<) (missing_from (sync_filter_new c ds) (sync_filter_new c' es))
   \<and> missing_from (sync_filter_new c ds) (sync_filter_new c' (es @ missing_from (sync_filter_new c ds) (sync_filter_new c' es))) = []"
proof -
  have "sorted_wrt (<) (dedup (sort ds))" by (rule dedup_sorted) simp
  then show ?thesis
    by (auto simp: missing_from_def sync_filter_new_def sorted_wrt_filter filter_empty_conv)
qed

end
