(* ===== verification/Identity.thy ===== *)
theory Identity
  imports Channels
begin

text \<open>
  \<open>crates/meshcore/src/identity.rs\<close>: a node's long-term keys, its fingerprint and rotating
  ephemeral id, and the proof of work over the public key.  SHA-256 and the key derivations of
  \<open>ed25519-dalek\<close> and \<open>x25519-dalek\<close> are parameters; keys are their 32 raw bytes.

  The search of \<open>pow::mint\<close> may never end (no nonce need satisfy the target): it is a
  \<open>partial_function (option)\<close> over the wrapping 64-bit nonce, and \<open>None\<close> is divergence.
\<close>

section \<open>Identity\<close>

record local_identity =
  signing :: bytes
  dh_secret :: bytes
  li_eph_id :: eph_id

definition derive :: "(bytes \<Rightarrow> bytes) \<Rightarrow> bytes \<Rightarrow> bytes \<Rightarrow> bytes" where
  "derive sha256 seed label = sha256 (seed @ label)"

definition from_seed :: "(bytes \<Rightarrow> bytes) \<Rightarrow> bytes \<Rightarrow> local_identity" where
  "from_seed sha256 seed =
     \<lparr>signing = seed,
      dh_secret = derive sha256 seed (str_bytes ''cockroach/dh/v1''),
      li_eph_id = take 8 (derive sha256 seed (str_bytes ''cockroach/eph/v1''))\<rparr>"

definition generate :: "(bytes \<Rightarrow> bytes) \<Rightarrow> bytes \<Rightarrow> local_identity" where
  "generate sha256 os_random = from_seed sha256 os_random"

definition fingerprint :: "(bytes \<Rightarrow> bytes) \<Rightarrow> (bytes \<Rightarrow> bytes) \<Rightarrow> local_identity \<Rightarrow> bytes" where
  "fingerprint sha256 ed_public li = sha256 (ed_public (signing li))"

definition verifying_key :: "(bytes \<Rightarrow> bytes) \<Rightarrow> local_identity \<Rightarrow> bytes" where
  "verifying_key ed_public li = ed_public (signing li)"

definition dh_public :: "(bytes \<Rightarrow> bytes) \<Rightarrow> local_identity \<Rightarrow> bytes" where
  "dh_public x_public li = x_public (dh_secret li)"

definition rotate_eph :: "local_identity \<Rightarrow> bytes \<Rightarrow> local_identity" where
  "rotate_eph li fresh = li\<lparr>li_eph_id := fresh\<rparr>"

section \<open>Proof of work\<close>

definition u8_leading_zeros :: "u8 \<Rightarrow> nat" where
  "u8_leading_zeros b = 8 - floorlog 2 (unat b)"

fun leading_zero_bits :: "bytes \<Rightarrow> nat" where
  "leading_zero_bits [] = 0"
| "leading_zero_bits (b # bs) = (if b = 0 then 8 + leading_zero_bits bs else u8_leading_zeros b)"

definition pow_hash :: "(bytes \<Rightarrow> bytes) \<Rightarrow> bytes \<Rightarrow> u64 \<Rightarrow> bytes" where
  "pow_hash sha256 pubkey nonce = sha256 (pubkey @ u64_to_be nonce)"

definition pow_verify :: "(bytes \<Rightarrow> bytes) \<Rightarrow> bytes \<Rightarrow> u64 \<Rightarrow> u32 \<Rightarrow> bool" where
  "pow_verify sha256 pubkey nonce bits \<longleftrightarrow> unat bits \<le> leading_zero_bits (pow_hash sha256 pubkey nonce)"

partial_function (option) mint_from :: "(bytes \<Rightarrow> bytes) \<Rightarrow> bytes \<Rightarrow> u32 \<Rightarrow> u64 \<Rightarrow> u64 option" where
  "mint_from sha256 pubkey bits nonce =
     (if unat bits \<le> leading_zero_bits (pow_hash sha256 pubkey nonce) then Some nonce
      else mint_from sha256 pubkey bits (nonce + 1))"

definition mint :: "(bytes \<Rightarrow> bytes) \<Rightarrow> bytes \<Rightarrow> u32 \<Rightarrow> u64 option" where
  "mint sha256 pubkey bits = mint_from sha256 pubkey bits 0"

declare mint_from.simps [code]

section \<open>Lemmas\<close>

lemma leading_zero_bits_le: "leading_zero_bits bs \<le> 8 * length bs"
  by (induction bs) (auto simp: u8_leading_zeros_def)

text \<open>The number of leading zero bits is a bound on the number the bytes spell.\<close>

lemma be_nat_Cons: "be_nat (b # bs) = unat b * 256 ^ length bs + be_nat bs"
proof (induction bs rule: rev_induct)
  case (snoc x xs)
  have "be_nat (b # xs @ [x]) = be_nat (b # xs) * 256 + unat x" using be_nat_simps(2) [of "b # xs" x] by simp
  with snoc show ?case by (simp add: algebra_simps)
qed (simp add: be_nat_def)

lemma leading_zeros_u8: "b \<noteq> 0 \<Longrightarrow> k \<le> u8_leading_zeros b \<longleftrightarrow> k \<le> 8 \<and> unat b < 2 ^ (8 - k)"
proof -
  assume b: "b \<noteq> 0"
  have "floorlog 2 (unat b) \<le> 8" using unat_u8_less [of b] by (simp add: floorlog_le_iff)
  moreover have "floorlog 2 (unat b) \<le> 8 - k \<longleftrightarrow> unat b < 2 ^ (8 - k)" by (simp add: floorlog_le_iff)
  moreover have "0 < floorlog 2 (unat b)" using b floorlog_eq_zero_iff [of 2 "unat b"] by (auto simp: unat_eq_0)
  ultimately show ?thesis by (auto simp: u8_leading_zeros_def)
qed

lemma leading_zero_bits_iff:
  "k \<le> 8 * length bs \<Longrightarrow> k \<le> leading_zero_bits bs \<longleftrightarrow> be_nat bs < 2 ^ (8 * length bs - k)"
proof (induction bs arbitrary: k)
  case (Cons b bs)
  let ?n = "length bs"
  have r: "be_nat bs < 256 ^ ?n" by (rule be_nat_less)
  have p256: "(256 :: nat) ^ ?n = 2 ^ (8 * ?n)" by (simp add: power_mult)
  show ?case
  proof (cases "b = 0")
    case True
    then show ?thesis
    proof (cases "k \<le> 8")
      case le: True
      have "be_nat bs < 2 ^ (8 * ?n + (8 - k))"
        using r p256 by (metis le_add1 one_le_numeral order_less_le_trans power_increasing)
      with True le show ?thesis by (simp add: be_nat_Cons add.commute)
    next
      case False
      then have "k - 8 \<le> leading_zero_bits bs \<longleftrightarrow> be_nat bs < 2 ^ (8 * ?n - (k - 8))"
        using Cons by simp
      with True False show ?thesis by (auto simp: be_nat_Cons add.commute)
    qed
  next
    case False
    show ?thesis
    proof (cases "k \<le> 8")
      case True
      have split: "(2 :: nat) ^ (8 * length (b # bs) - k) = 2 ^ (8 - k) * 256 ^ ?n"
        unfolding p256 power_add [symmetric] using True by (simp add: algebra_simps)
      have "unat b * 256 ^ ?n + be_nat bs < c * 256 ^ ?n \<longleftrightarrow> unat b < c" for c
      proof
        assume "unat b < c"
        then have "(unat b + 1) * 256 ^ ?n \<le> c * 256 ^ ?n" by (intro mult_right_mono) auto
        with r show "unat b * 256 ^ ?n + be_nat bs < c * 256 ^ ?n" by simp
      next
        assume lt: "unat b * 256 ^ ?n + be_nat bs < c * 256 ^ ?n"
        then have "unat b * 256 ^ ?n < c * 256 ^ ?n" by (rule add_lessD1)
        then show "unat b < c" by simp
      qed
      with False True split show ?thesis by (simp add: be_nat_Cons leading_zeros_u8)
    next
      case gt: False
      have "(2 :: nat) ^ (8 * length (b # bs) - k) \<le> 2 ^ (8 * ?n)" using gt by (intro power_increasing) auto
      also have "\<dots> \<le> unat b * 256 ^ ?n" using False p256 by (simp add: unat_gt_0 Suc_leI)
      finally show ?thesis using False gt by (simp add: be_nat_Cons leading_zeros_u8)
    qed
  qed
qed (simp add: be_nat_def)

lemma mint_from_found:
  assumes "pow_verify sha256 pk n bits" "m \<le> n"
  shows "\<exists>k. mint_from sha256 pk bits m = Some k \<and> pow_verify sha256 pk k bits \<and> m \<le> k \<and> k \<le> n
    \<and> (\<forall>j. m \<le> j \<and> j < k \<longrightarrow> \<not> pow_verify sha256 pk j bits)"
  using assms(2)
proof (induction "unat n - unat m" arbitrary: m rule: less_induct)
  case less
  show ?case
  proof (cases "pow_verify sha256 pk m bits")
    case True
    then show ?thesis using less.prems by (subst mint_from.simps) (auto simp: pow_verify_def)
  next
    case False
    then have "m \<noteq> n" using assms(1) by auto
    with less.prems have mn: "m < n" by simp
    then have un: "unat (m + 1) = unat m + 1"
      using unat_bound [of n] by (simp add: word_less_nat_alt unat_word_ariths)
    then have "m + 1 \<le> n" "unat n - unat (m + 1) < unat n - unat m"
      using mn by (auto simp: word_less_nat_alt word_le_nat_alt)
    from less.hyps [OF this(2,1)] obtain k where k:
      "mint_from sha256 pk bits (m + 1) = Some k" "pow_verify sha256 pk k bits" "m + 1 \<le> k" "k \<le> n"
      "\<forall>j. m + 1 \<le> j \<and> j < k \<longrightarrow> \<not> pow_verify sha256 pk j bits" by blast
    have "mint_from sha256 pk bits m = Some k"
      using False k(1) by (subst mint_from.simps) (simp add: pow_verify_def)
    moreover have "m \<le> k" using k(3) un by (simp add: word_le_nat_alt)
    moreover have "\<not> pow_verify sha256 pk j bits" if "m \<le> j" "j < k" for j
    proof (cases "j = m")
      case False
      then have "m + 1 \<le> j" using that un by (simp add: word_le_nat_alt word_unat_eq_iff)
      with that k(5) show ?thesis by blast
    qed (use \<open>\<not> pow_verify sha256 pk m bits\<close> in simp)
    ultimately show ?thesis using k(2,4) by blast
  qed
qed

lemma mint_from_sound: "mint_from sha256 pk bits m = Some k \<Longrightarrow> pow_verify sha256 pk k bits"
  by (rule mint_from.raw_induct [where P = "\<lambda>h pk bits m k. pow_verify h pk k bits"])
    (auto simp: pow_verify_def split: if_splits)

section \<open>Properties\<close>

text \<open>C37: the bit-by-bit check of a proof of work is the comparison of the hash, read as a big-endian
  number, with the target: \<open>bits\<close> leading zero bits mean a value below \<open>2^(256 - bits)\<close>.\<close>

theorem pow_verify_is_target:
  assumes "length (sha256 (pk @ u64_to_be nonce)) = 32" "unat bits \<le> 256"
  shows "pow_verify sha256 pk nonce bits \<longleftrightarrow> be_nat (sha256 (pk @ u64_to_be nonce)) < 2 ^ (256 - unat bits)"
  using leading_zero_bits_iff [of "unat bits" "sha256 (pk @ u64_to_be nonce)"] assms
  by (simp add: pow_verify_def pow_hash_def)

theorem pow_verify_is_target_witness:
  "pow_verify (\<lambda>_. 0 # replicate 31 1) [] 0 15 \<longleftrightarrow> be_nat (0 # replicate 31 1) < 2 ^ 241"
  using pow_verify_is_target [of "\<lambda>_. 0 # replicate 31 1" "[]" 0 15] by simp

text \<open>C36: minting returns exactly when some nonce meets the target; it then returns the least such
  nonce, which passes the check.  With a target of more bits than the hash has, it never returns.\<close>

theorem mint_correct:
  "(\<forall>n. mint sha256 pk bits = Some n \<longleftrightarrow>
       pow_verify sha256 pk n bits \<and> (\<forall>m < n. \<not> pow_verify sha256 pk m bits))
   \<and> (mint sha256 pk bits = None \<longleftrightarrow> (\<forall>n. \<not> pow_verify sha256 pk n bits))
   \<and> ((\<forall>x. length (sha256 x) = 32) \<longrightarrow> 256 < unat bits \<longrightarrow> mint sha256 pk bits = None)"
proof -
  have found: "\<exists>k. mint sha256 pk bits = Some k \<and> pow_verify sha256 pk k bits \<and> k \<le> n
      \<and> (\<forall>j < k. \<not> pow_verify sha256 pk j bits)" if "pow_verify sha256 pk n bits" for n
    using mint_from_found [OF that, of 0] by (auto simp: mint_def)
  have none: "mint sha256 pk bits = None \<longleftrightarrow> (\<forall>n. \<not> pow_verify sha256 pk n bits)"
    using found mint_from_sound by (metis mint_def not_None_eq option.distinct(1))
  have "\<not> pow_verify sha256 pk n bits" if "\<forall>x. length (sha256 x) = 32" "256 < unat bits" for n
    using leading_zero_bits_le [of "pow_hash sha256 pk n"] that by (simp add: pow_verify_def pow_hash_def)
  moreover have "mint sha256 pk bits = Some n \<longleftrightarrow>
       pow_verify sha256 pk n bits \<and> (\<forall>m < n. \<not> pow_verify sha256 pk m bits)" for n
    using found none by (metis not_None_eq option.inject order_le_less)
  ultimately show ?thesis using none by blast
qed

theorem mint_correct_witness:
  "mint (\<lambda>x. replicate 32 (last x)) [7] 8 = Some 0 \<and> mint (\<lambda>_. replicate 32 0) [7] 257 = None"
proof -
  have "pow_verify (\<lambda>x. replicate 32 (last x)) [7] 0 8" by code_simp
  moreover have "\<forall>m < 0. \<not> pow_verify (\<lambda>x. replicate 32 (last x)) [7] m 8" by simp
  ultimately show ?thesis
    using mint_correct [of "\<lambda>x. replicate 32 (last x)" "[7]" 8] mint_correct [of "\<lambda>_. replicate 32 0" "[7]" 257]
    by simp
qed

end
