(* ===== verification/Relay.thy ===== *)
theory Relay
  imports Identity
begin

text \<open>
  Flood control, \<open>crates/meshcore/src/relay.rs\<close>: the duplicate cache with its hear counter, the
  per-sender token bucket with its greylist, the jittered rebroadcast queue with counter-based
  suppression, and the density-adaptive fanout.  The token bucket computes in \<open>f64\<close>: every
  operation is followed by \<open>f64_round\<close>.  The random generator is a parameter: a draw is a function
  of the draws made before it, as for any seeded generator.
\<close>

section \<open>Duplicate cache\<close>

record observation =
  is_new :: bool
  obs_hear_count :: u32

record seen_entry =
  se_first_seen_ms :: millis
  se_hear_count :: u32

record seen_cache =
  sc_map :: "(bytes, seen_entry) bmap"
  sc_cfg :: tunables

definition seen_cache_new :: "tunables \<Rightarrow> seen_cache" where
  "seen_cache_new cfg = \<lparr>sc_map = [], sc_cfg = cfg\<rparr>"

definition evict_oldest_seen :: "(bytes, seen_entry) bmap \<Rightarrow> (bytes, seen_entry) bmap" where
  "evict_oldest_seen m = evict_min se_first_seen_ms m"

definition observe :: "seen_cache \<Rightarrow> bytes \<Rightarrow> millis \<Rightarrow> observation \<times> seen_cache" where
  "observe c d now_ms =
     (case bm_get (sc_map c) d of
        Some e \<Rightarrow>
          let e' = e\<lparr>se_hear_count := saturating_add (se_hear_count e) 1\<rparr>
          in (\<lparr>is_new = False, obs_hear_count = se_hear_count e'\<rparr>, c\<lparr>sc_map := bm_insert d e' (sc_map c)\<rparr>)
      | None \<Rightarrow>
          let m = (if seen_cache_capacity (sc_cfg c) \<le> length (sc_map c) then evict_oldest_seen (sc_map c)
                   else sc_map c)
          in (\<lparr>is_new = True, obs_hear_count = 1\<rparr>,
              c\<lparr>sc_map := bm_insert d \<lparr>se_first_seen_ms = now_ms, se_hear_count = 1\<rparr> m\<rparr>))"

definition hear_count :: "seen_cache \<Rightarrow> bytes \<Rightarrow> u32" where
  "hear_count c d = (case bm_get (sc_map c) d of Some e \<Rightarrow> se_hear_count e | None \<Rightarrow> 0)"

definition seen_len :: "seen_cache \<Rightarrow> nat" where
  "seen_len c = length (sc_map c)"

definition evict_expired_seen :: "seen_cache \<Rightarrow> millis \<Rightarrow> nat \<times> seen_cache" where
  "evict_expired_seen c now_ms =
     (let ttl = seen_cache_ttl_ms (sc_cfg c);
          m = bm_retain (\<lambda>_ e. saturating_sub now_ms (se_first_seen_ms e) < ttl) (sc_map c)
      in (length (sc_map c) - length m, c\<lparr>sc_map := m\<rparr>))"

section \<open>Rate limiter\<close>

definition f64_of :: "'a::len word \<Rightarrow> f64" where
  "f64_of w = f64_round (of_nat (unat w))"

record bucket =
  tokens :: f64
  last_ms :: millis
  greylist_until :: millis

record rate_limiter =
  buckets :: "(bytes, bucket) bmap"
  rl_cfg :: tunables

definition rate_limiter_new :: "tunables \<Rightarrow> rate_limiter" where
  "rate_limiter_new cfg = \<lparr>buckets = [], rl_cfg = cfg\<rparr>"

definition refill_rate_per_ms :: "tunables \<Rightarrow> f64" where
  "refill_rate_per_ms cfg = f64_round (f64_of (rate_sustained_per_min cfg) / 60000)"

definition bucket_entry :: "rate_limiter \<Rightarrow> bytes \<Rightarrow> millis \<Rightarrow> bucket" where
  "bucket_entry rl sender now_ms =
     (case bm_get (buckets rl) sender of
        Some b \<Rightarrow> b
      | None \<Rightarrow> \<lparr>tokens = f64_of (rate_burst (rl_cfg rl)), last_ms = now_ms, greylist_until = 0\<rparr>)"

definition refill :: "tunables \<Rightarrow> bucket \<Rightarrow> millis \<Rightarrow> f64" where
  "refill cfg b now_ms =
     (let elapsed = f64_of (saturating_sub now_ms (last_ms b))
      in min (f64_round (tokens b + f64_round (elapsed * refill_rate_per_ms cfg))) (f64_of (rate_burst cfg)))"

definition allow :: "rate_limiter \<Rightarrow> bytes \<Rightarrow> millis \<Rightarrow> bool \<times> rate_limiter" where
  "allow rl sender now_ms =
     (let b = bucket_entry rl sender now_ms;
          put = (\<lambda>b. rl\<lparr>buckets := bm_insert sender b (buckets rl)\<rparr>)
      in if now_ms < greylist_until b then (False, put b)
         else
           let t = refill (rl_cfg rl) b now_ms;
               b = b\<lparr>tokens := t, last_ms := now_ms\<rparr>
           in if 1 \<le> t then (True, put (b\<lparr>tokens := f64_round (t - 1)\<rparr>))
              else (False, put (b\<lparr>greylist_until := now_ms + greylist_ms (rl_cfg rl)\<rparr>)))"

definition is_greylisted :: "rate_limiter \<Rightarrow> bytes \<Rightarrow> millis \<Rightarrow> bool" where
  "is_greylisted rl sender now_ms =
     (case bm_get (buckets rl) sender of Some b \<Rightarrow> now_ms < greylist_until b | None \<Rightarrow> False)"

section \<open>Rebroadcast queue\<close>

record pending_relay =
  pr_packet :: packet
  pr_send_at_ms :: millis
  pr_exclude_link :: link_id

record due_relay =
  dr_packet :: packet
  dr_exclude_link :: link_id

record relay_scheduler =
  rs_pending :: "(bytes, pending_relay) bmap"
  rs_cfg :: tunables

definition relay_scheduler_new :: "tunables \<Rightarrow> relay_scheduler" where
  "relay_scheduler_new cfg = \<lparr>rs_pending = [], rs_cfg = cfg\<rparr>"

definition pending_count :: "relay_scheduler \<Rightarrow> nat" where
  "pending_count s = length (rs_pending s)"

definition schedule ::
  "relay_scheduler \<Rightarrow> bytes \<Rightarrow> packet \<Rightarrow> link_id \<Rightarrow> millis \<Rightarrow> millis \<Rightarrow> relay_scheduler" where
  "schedule s d packet exclude_link delay_ms now_ms =
     (if bm_contains (rs_pending s) d then s
      else s\<lparr>rs_pending := bm_insert d
               \<lparr>pr_packet = packet, pr_send_at_ms = now_ms + delay_ms, pr_exclude_link = exclude_link\<rparr>
               (rs_pending s)\<rparr>)"

fun due_loop ::
  "seen_cache \<Rightarrow> u32 \<Rightarrow> bytes list \<Rightarrow> (bytes, pending_relay) bmap
    \<Rightarrow> (due_relay list \<times> (bytes, pending_relay) bmap) outcome" where
  "due_loop seen threshold [] m = Ret ([], m)"
| "due_loop seen threshold (d # ready) m =
     and_then (unwrap (bm_get m d)) (\<lambda>p.
     and_then (due_loop seen threshold ready (bm_remove d m)) (\<lambda>(out, m').
       Ret (if threshold \<le> hear_count seen d then out
            else \<lparr>dr_packet = pr_packet p, dr_exclude_link = pr_exclude_link p\<rparr> # out, m')))"

definition due :: "relay_scheduler \<Rightarrow> millis \<Rightarrow> seen_cache \<Rightarrow> (due_relay list \<times> relay_scheduler) outcome" where
  "due s now_ms seen =
     (let ready = map fst (filter (\<lambda>(k, p). pr_send_at_ms p \<le> now_ms) (rs_pending s))
      in and_then (due_loop seen (suppression_threshold (rs_cfg s)) ready (rs_pending s))
           (\<lambda>(out, m). Ret (out, s\<lparr>rs_pending := m\<rparr>)))"

section \<open>Fanout\<close>

definition rebroadcast_probability :: "nat \<Rightarrow> tunables \<Rightarrow> f64" where
  "rebroadcast_probability degree cfg =
     (if degree \<le> relay_sparse_max cfg then relay_prob_sparse cfg
      else if degree \<le> relay_mid_max cfg then relay_prob_mid cfg
      else relay_prob_dense cfg)"

text \<open>A generator is given by its answers: to each kind of draw, after the draws made so far.\<close>

datatype rng_call = GenF64 | GenRange u64 u64 | FillBytes nat

type_synonym rng = "rng_call list"

record rng_ops =
  gen_f64 :: "rng \<Rightarrow> f64"
  gen_range :: "rng \<Rightarrow> u64 \<Rightarrow> u64 \<Rightarrow> u64"
  fill_bytes :: "rng \<Rightarrow> nat \<Rightarrow> bytes"

definition should_relay :: "rng_ops \<Rightarrow> nat \<Rightarrow> tunables \<Rightarrow> rng \<Rightarrow> bool \<times> rng" where
  "should_relay ops degree cfg rng =
     (gen_f64 ops rng < rebroadcast_probability degree cfg, rng @ [GenF64])"

definition relay_delay :: "rng_ops \<Rightarrow> tunables \<Rightarrow> rng \<Rightarrow> millis \<times> rng" where
  "relay_delay ops cfg rng =
     (if jitter_max_ms cfg \<le> jitter_min_ms cfg then (jitter_min_ms cfg, rng)
      else (gen_range ops rng (jitter_min_ms cfg) (jitter_max_ms cfg),
            rng @ [GenRange (jitter_min_ms cfg) (jitter_max_ms cfg)]))"

section \<open>The duplicate cache\<close>

text \<open>Invariant: the cache is ordered, within its capacity, and every entry has been heard.\<close>

definition seen_ok :: "seen_cache \<Rightarrow> bool" where
  "seen_ok c \<longleftrightarrow> bm_ok (sc_map c) \<and> seen_len c \<le> max 1 (seen_cache_capacity (sc_cfg c))
     \<and> (\<forall>e \<in> snd ` set (sc_map c). 0 < se_hear_count e)"

lemma evict_oldest_seen_facts:
  "set (evict_oldest_seen m) \<subseteq> set m"
  "bm_ok m \<Longrightarrow> bm_ok (evict_oldest_seen m)"
  "bm_ok m \<Longrightarrow> length (evict_oldest_seen m) = length m - 1"
  by (simp_all add: evict_oldest_seen_def evict_min_subset evict_min_ok length_evict_min)

lemma saturating_add_pos: "0 < saturating_add (w :: 'a::len word) 1"
proof -
  have "1 < (2 :: nat) ^ LENGTH('a)" by (rule one_less_power) auto
  then have "0 < unat (saturating_add w 1)" by (simp add: unat_saturating_add)
  then show ?thesis by (simp add: unat_gt_0 word_gt_0)
qed

lemma observe_ok:
  assumes "seen_ok c"
  shows "seen_ok (snd (observe c d now_ms))" "sc_cfg (snd (observe c d now_ms)) = sc_cfg c"
proof -
  show "sc_cfg (snd (observe c d now_ms)) = sc_cfg c" by (simp add: observe_def Let_def split: option.splits)
  have ok: "bm_ok (sc_map c)" and len: "length (sc_map c) \<le> max 1 (seen_cache_capacity (sc_cfg c))"
    and pos: "\<forall>e \<in> snd ` set (sc_map c). 0 < se_hear_count e"
    using assms by (auto simp: seen_ok_def seen_len_def)
  show "seen_ok (snd (observe c d now_ms))"
  proof (cases "bm_get (sc_map c) d")
    case (Some e)
    then have "bm_contains (sc_map c) d" by (simp add: bm_contains_def)
    with Some ok len pos show ?thesis
      using bm_insert_values [of d "e\<lparr>se_hear_count := saturating_add (se_hear_count e) 1\<rparr>" "sc_map c"]
      by (fastforce simp: seen_ok_def seen_len_def observe_def length_bm_insert saturating_add_pos)
  next
    case None
    let ?m = "if seen_cache_capacity (sc_cfg c) \<le> length (sc_map c) then evict_oldest_seen (sc_map c) else sc_map c"
    have m: "bm_ok ?m" "\<forall>e \<in> snd ` set ?m. 0 < se_hear_count e" "length ?m + 1 \<le> max 1 (seen_cache_capacity (sc_cfg c))"
      using ok len pos evict_oldest_seen_facts [of "sc_map c"] by (auto simp: max_def)
    with None show ?thesis
      using bm_insert_values [of d "\<lparr>se_first_seen_ms = now_ms, se_hear_count = 1\<rparr>" ?m]
      by (fastforce simp: seen_ok_def seen_len_def observe_def length_bm_insert Let_def)
  qed
qed

lemma seen_cache_new_ok: "seen_ok (seen_cache_new cfg)"
  by (simp add: seen_ok_def seen_len_def seen_cache_new_def)

lemma evict_expired_seen_ok:
  assumes "seen_ok c"
  shows "seen_ok (snd (evict_expired_seen c now_ms))" "sc_cfg (snd (evict_expired_seen c now_ms)) = sc_cfg c"
  using assms
  by (auto simp: evict_expired_seen_def Let_def seen_ok_def seen_len_def bm_retain_def bm_ok_filter
      intro: order_trans [OF length_filter_le])

lemma hear_count_observe:
  assumes "seen_ok c" "bm_get (sc_map c) d \<noteq> None \<or> length (sc_map c) < seen_cache_capacity (sc_cfg c)"
  shows "hear_count (snd (observe c d now_ms)) d' =
    (if d' = d then saturating_add (hear_count c d) 1 else hear_count c d')"
  using assms(2) by (auto simp: observe_def hear_count_def Let_def saturating_add_def split: option.splits)

lemma is_new_iff: "seen_ok c \<Longrightarrow> is_new (fst (observe c d now_ms)) \<longleftrightarrow> hear_count c d = 0"
  by (fastforce simp: observe_def hear_count_def seen_ok_def Let_def dest: map_of_SomeD split: option.splits)

lemma obs_hear_count: "obs_hear_count (fst (observe c d now_ms)) = saturating_add (hear_count c d) 1"
  by (auto simp: observe_def hear_count_def Let_def saturating_add_def split: option.splits)

text \<open>Observing a sequence of copies.\<close>

fun observe_all :: "seen_cache \<Rightarrow> (bytes \<times> millis) list \<Rightarrow> observation list \<times> seen_cache" where
  "observe_all c [] = ([], c)"
| "observe_all c ((d, t) # ds) =
     (let (o1, c1) = observe c d t; (os, c2) = observe_all c1 ds in (o1 # os, c2))"

text \<open>The specification: a cache that remembers every copy.\<close>

fun ideal_observations :: "bytes list \<Rightarrow> bytes list \<Rightarrow> observation list" where
  "ideal_observations past [] = []"
| "ideal_observations past (d # ds) =
     \<lparr>is_new = (d \<notin> set past), obs_hear_count = of_nat (min (count_list past d + 1) (2 ^ 32 - 1))\<rparr>
     # ideal_observations (past @ [d]) ds"

lemma observe_length:
  assumes "seen_ok c" "bm_get (sc_map c) d \<noteq> None \<or> length (sc_map c) < seen_cache_capacity (sc_cfg c)"
  shows "fst ` set (sc_map (snd (observe c d t))) = insert d (fst ` set (sc_map c))"
  using assms by (auto simp: observe_def Let_def bm_contains_def split: option.splits)

lemma observe_all_ideal:
  assumes "seen_ok c" "\<forall>d. unat (hear_count c d) = min (count_list past d) (2 ^ 32 - 1)"
    "fst ` set (sc_map c) = set past" "card (set past \<union> fst ` set ds) \<le> seen_cache_capacity (sc_cfg c)"
  shows "fst (observe_all c ds) = ideal_observations past (map fst ds)"
  using assms
proof (induction ds arbitrary: c past)
  case (Cons dt ds)
  obtain d t where dt: "dt = (d, t)" by (cases dt)
  obtain o1 c1 where o1: "observe c d t = (o1, c1)" by (cases "observe c d t")
  have fits: "bm_get (sc_map c) d \<noteq> None \<or> length (sc_map c) < seen_cache_capacity (sc_cfg c)"
  proof (cases "d \<in> set past")
    case True
    then show ?thesis using Cons.prems(3) by (metis map_of_eq_None_iff)
  next
    case False
    have "length (sc_map c) = card (fst ` set (sc_map c))"
      using Cons.prems(1) by (metis bm_ok_distinct distinct_card length_map list.set_map seen_ok_def)
    also have "\<dots> < card (insert d (set past))" using False Cons.prems(3) by simp
    also have "\<dots> \<le> card (set past \<union> fst ` set (dt # ds))" by (rule card_mono) (auto simp: dt)
    finally show ?thesis using Cons.prems(4) by simp
  qed
  have hc: "hear_count c1 d' = (if d' = d then saturating_add (hear_count c d) 1 else hear_count c d')" for d'
    using hear_count_observe [OF Cons.prems(1) fits, of t d'] o1 by simp
  have "fst (observe_all c1 ds) = ideal_observations (past @ [d]) (map fst ds)"
  proof (rule Cons.IH)
    show "seen_ok c1" using observe_ok(1) [OF Cons.prems(1), of d t] o1 by simp
    show "\<forall>d'. unat (hear_count c1 d') = min (count_list (past @ [d]) d') (2 ^ 32 - 1)"
      using Cons.prems(2) by (auto simp: hc unat_saturating_add)
    show "fst ` set (sc_map c1) = set (past @ [d])"
      using observe_length [OF Cons.prems(1) fits, of t] o1 Cons.prems(3) by simp
    show "card (set (past @ [d]) \<union> fst ` set ds) \<le> seen_cache_capacity (sc_cfg c1)"
      using Cons.prems(4) observe_ok(2) [OF Cons.prems(1), of d t] o1 by (simp add: dt)
  qed
  moreover have "is_new o1 \<longleftrightarrow> d \<notin> set past"
    using is_new_iff [OF Cons.prems(1), of d t] o1 Cons.prems(2)
    by (simp add: unat_eq_0 [symmetric] min_def count_list_0_iff [symmetric])
  moreover have "obs_hear_count o1 = of_nat (min (count_list past d + 1) (2 ^ 32 - 1))"
  proof -
    have "unat (obs_hear_count o1) = min (count_list past d + 1) (2 ^ 32 - 1)"
      using obs_hear_count [of c d t] o1 Cons.prems(2) by (simp add: unat_saturating_add)
    then have "of_nat (unat (obs_hear_count o1)) = (of_nat (min (count_list past d + 1) (2 ^ 32 - 1)) :: u32)"
      by (rule arg_cong)
    then show ?thesis by simp
  qed
  ultimately show ?case by (cases o1) (simp add: dt o1 case_prod_beta)
qed simp

section \<open>The rebroadcast queue\<close>

lemma due_loop_eq:
  assumes "bm_ok m" "distinct ds" "set ds \<subseteq> fst ` set m"
  shows "due_loop seen th ds m =
    Ret (map (\<lambda>d. let p = the (bm_get m d) in \<lparr>dr_packet = pr_packet p, dr_exclude_link = pr_exclude_link p\<rparr>)
           (filter (\<lambda>d. hear_count seen d < th) ds),
         filter (\<lambda>(k, p). k \<notin> set ds) m)"
  using assms
proof (induction ds arbitrary: m)
  case (Cons d ds)
  have "bm_get m d \<noteq> None" using Cons.prems(3) by (simp add: map_of_eq_None_iff)
  then obtain p where p: "bm_get m d = Some p" by blast
  have IH: "due_loop seen th ds (bm_remove d m) =
    Ret (map (\<lambda>e. let p = the (bm_get (bm_remove d m) e) in \<lparr>dr_packet = pr_packet p, dr_exclude_link = pr_exclude_link p\<rparr>)
           (filter (\<lambda>d. hear_count seen d < th) ds),
         filter (\<lambda>(k, p). k \<notin> set ds) (bm_remove d m))"
  proof (rule Cons.IH)
    show "set ds \<subseteq> fst ` set (bm_remove d m)"
      using Cons.prems(2,3) by (fastforce simp: bm_remove_def image_iff)
  qed (use Cons.prems in auto)
  have same: "map (\<lambda>e. let p = the (bm_get (bm_remove d m) e) in \<lparr>dr_packet = pr_packet p, dr_exclude_link = pr_exclude_link p\<rparr>)
           (filter (\<lambda>d. hear_count seen d < th) ds) =
    map (\<lambda>e. let p = the (bm_get m e) in \<lparr>dr_packet = pr_packet p, dr_exclude_link = pr_exclude_link p\<rparr>)
           (filter (\<lambda>d. hear_count seen d < th) ds)"
    using Cons.prems(2) by (auto intro!: map_cong)
  have "filter (\<lambda>(k, p). k \<notin> set ds) (bm_remove d m) = filter (\<lambda>(k, p). k \<notin> set (d # ds)) m"
    by (auto simp: bm_remove_def intro!: filter_cong)
  then show ?case using IH same p by (auto simp: not_le Let_def)
qed simp

lemma due_eq:
  assumes "bm_ok (rs_pending s)"
  shows "due s now_ms seen =
    Ret (map (\<lambda>(d, p). \<lparr>dr_packet = pr_packet p, dr_exclude_link = pr_exclude_link p\<rparr>)
           (filter (\<lambda>(d, p). pr_send_at_ms p \<le> now_ms \<and> hear_count seen d < suppression_threshold (rs_cfg s)) (rs_pending s)),
         s\<lparr>rs_pending := filter (\<lambda>(d, p). now_ms < pr_send_at_ms p) (rs_pending s)\<rparr>)"
proof -
  let ?m = "rs_pending s" and ?ready = "map fst (filter (\<lambda>(k, p). pr_send_at_ms p \<le> now_ms) (rs_pending s))"
  let ?th = "suppression_threshold (rs_cfg s)"
  have get: "the (bm_get ?m (fst kp)) = snd kp" if "kp \<in> set ?m" for kp
    using that bm_get_mem [OF assms, of "fst kp" "snd kp"] by simp
  have "distinct ?ready" using bm_ok_distinct [OF assms] by (simp add: distinct_map inj_on_def)
  then have loop: "due_loop seen ?th ?ready ?m =
    Ret (map (\<lambda>d. let p = the (bm_get ?m d) in \<lparr>dr_packet = pr_packet p, dr_exclude_link = pr_exclude_link p\<rparr>)
           (filter (\<lambda>d. hear_count seen d < ?th) ?ready),
         filter (\<lambda>(k, p). k \<notin> set ?ready) ?m)"
    by (intro due_loop_eq [OF assms]) auto
  have out: "map (\<lambda>d. let p = the (bm_get ?m d) in \<lparr>dr_packet = pr_packet p, dr_exclude_link = pr_exclude_link p\<rparr>)
           (filter (\<lambda>d. hear_count seen d < ?th) ?ready) =
     map (\<lambda>(d, p). \<lparr>dr_packet = pr_packet p, dr_exclude_link = pr_exclude_link p\<rparr>)
           (filter (\<lambda>(d, p). pr_send_at_ms p \<le> now_ms \<and> hear_count seen d < ?th) ?m)"
    using get by (fastforce simp: filter_map o_def Let_def case_prod_beta intro!: map_cong filter_cong)
  have rest: "filter (\<lambda>(k, p). k \<notin> set ?ready) ?m = filter (\<lambda>(d, p). now_ms < pr_send_at_ms p) ?m"
  proof (rule filter_cong [OF refl])
    fix kp assume kp: "kp \<in> set ?m"
    have "kq = kp" if "kq \<in> set ?m" "fst kq = fst kp" for kq
      using get [OF kp] get [OF that(1)] that(2) by (simp add: prod_eq_iff)
    with kp have "fst kp \<in> set ?ready \<longleftrightarrow> pr_send_at_ms (snd kp) \<le> now_ms"
      by (auto simp: case_prod_beta image_iff) (metis snd_conv, metis prod.collapse)
    then show "(case kp of (k, p) \<Rightarrow> k \<notin> set ?ready) = (case kp of (d, p) \<Rightarrow> now_ms < pr_send_at_ms p)"
      by (auto simp: case_prod_beta not_le)
  qed
  have "due s now_ms seen = and_then (due_loop seen ?th ?ready ?m) (\<lambda>(out, m). Ret (out, s\<lparr>rs_pending := m\<rparr>))"
    by (simp only: due_def Let_def)
  then show ?thesis by (simp only: loop out rest and_then.simps prod.case)
qed

lemma schedule_ok: "bm_ok (rs_pending s) \<Longrightarrow> bm_ok (rs_pending (schedule s d p l del now))"
  by (simp add: schedule_def)

section \<open>The token bucket\<close>

text \<open>The bucket's arithmetic, for any rounding that keeps the laws of \<open>rounding\<close>.\<close>

context rounding
begin

lemma spend_nat: "n \<le> 2 ^ 53 \<Longrightarrow> 0 < n \<Longrightarrow> rnd (of_nat n - 1) = of_nat (n - 1)"
  using rnd_of_nat [of "n - 1"] by (simp add: of_nat_diff)

lemma refill_bounds:
  assumes "0 \<le> t" "0 \<le> gain" "n \<le> 2 ^ 53" "t \<le> of_nat n"
  shows "0 \<le> min (rnd (t + rnd gain)) (of_nat n)" "min (rnd (t + rnd gain)) (of_nat n) \<le> of_nat n"
  using assms rnd_nonneg [of gain] rnd_nonneg [of "t + rnd gain"] by auto

lemma spend_bounds:
  assumes "1 \<le> t" "t \<le> of_nat n" "n \<le> 2 ^ 53"
  shows "0 \<le> rnd (t - 1)" "rnd (t - 1) \<le> of_nat n"
  using assms rnd_nonneg [of "t - 1"] rnd_le_nat [of "t - 1" n] by auto

end

declare of_nat_unat [simp del]

lemma u32_le_53: "unat (w :: u32) \<le> 2 ^ 53"
  using unat_bound [of w] by simp

lemma f64_of_u32 [simp]: "f64_of (w :: u32) = of_nat (unat w)"
  using f64.rnd_of_nat [OF u32_le_53] by (simp add: f64_of_def)

lemma f64_of_nonneg: "0 \<le> f64_of w"
  unfolding f64_of_def by (rule f64.rnd_nonneg) simp

lemma refill_rate_nonneg: "0 \<le> refill_rate_per_ms cfg"
  unfolding refill_rate_per_ms_def by (rule f64.rnd_nonneg) (simp add: f64_of_nonneg)

definition bucket_ok :: "tunables \<Rightarrow> bucket \<Rightarrow> bool" where
  "bucket_ok cfg b \<longleftrightarrow> 0 \<le> tokens b \<and> tokens b \<le> of_nat (unat (rate_burst cfg))"

definition limiter_ok :: "rate_limiter \<Rightarrow> bool" where
  "limiter_ok rl \<longleftrightarrow> bm_ok (buckets rl) \<and> (\<forall>b \<in> snd ` set (buckets rl). bucket_ok (rl_cfg rl) b)"

lemma bucket_entry_ok: "limiter_ok rl \<Longrightarrow> bucket_ok (rl_cfg rl) (bucket_entry rl s t)"
  by (fastforce simp: bucket_entry_def bucket_ok_def limiter_ok_def split: option.splits dest: map_of_SomeD)

lemma refill_ok:
  assumes "bucket_ok cfg b"
  shows "0 \<le> refill cfg b t" "refill cfg b t \<le> of_nat (unat (rate_burst cfg))"
  using f64.refill_bounds [OF _ _ u32_le_53, of "tokens b"
      "f64_of (saturating_sub t (last_ms b)) * refill_rate_per_ms cfg" "rate_burst cfg"]
    assms f64_of_nonneg [of "saturating_sub t (last_ms b)"] refill_rate_nonneg [of cfg]
  by (simp_all add: refill_def Let_def bucket_ok_def)

lemma allow_ok:
  assumes "limiter_ok rl"
  shows "limiter_ok (snd (allow rl s t))" "rl_cfg (snd (allow rl s t)) = rl_cfg rl"
proof -
  note e = bucket_entry_ok [OF assms, of s t]
  note r = refill_ok [OF e, of t]
  have "limiter_ok (rl\<lparr>buckets := bm_insert s b (buckets rl)\<rparr>)" if "bucket_ok (rl_cfg rl) b" for b
    using assms that bm_insert_values [of s b "buckets rl"] by (fastforce simp: limiter_ok_def)
  then show "limiter_ok (snd (allow rl s t))"
    using e r f64.spend_bounds [OF _ r(2) u32_le_53]
    by (auto simp: allow_def Let_def bucket_ok_def)
  show "rl_cfg (snd (allow rl s t)) = rl_cfg rl" by (simp add: allow_def Let_def)
qed

text \<open>A sequence of packets of one sender.\<close>

fun allow_all :: "rate_limiter \<Rightarrow> bytes \<Rightarrow> millis list \<Rightarrow> bool list \<times> rate_limiter" where
  "allow_all rl s [] = ([], rl)"
| "allow_all rl s (t # ts) =
     (let (ok, rl1) = allow rl s t; (oks, rl2) = allow_all rl1 s ts in (ok # oks, rl2))"

lemma refill_same_instant:
  assumes "last_ms b = t" "tokens b = of_nat n" "n \<le> unat (rate_burst cfg)"
  shows "refill cfg b t = of_nat n"
proof -
  have "n \<le> 2 ^ 53" using assms(3) u32_le_53 [of "rate_burst cfg"] by linarith
  then show ?thesis
    using assms by (simp add: refill_def saturating_sub_def f64_of_def f64.rnd_0 f64.rnd_of_nat)
qed

lemma allow_same_instant:
  assumes "last_ms (bucket_entry rl s t) = t" "tokens (bucket_entry rl s t) = of_nat n"
    "n \<le> unat (rate_burst (rl_cfg rl))" "greylist_until (bucket_entry rl s t) = 0"
  shows "fst (allow rl s t) \<longleftrightarrow> 0 < n"
    "0 < n \<Longrightarrow> bucket_entry (snd (allow rl s t)) s t = (bucket_entry rl s t)\<lparr>tokens := of_nat (n - 1)\<rparr>"
    "n = 0 \<Longrightarrow> bucket_entry (snd (allow rl s t)) s t = (bucket_entry rl s t)\<lparr>greylist_until := t + greylist_ms (rl_cfg rl)\<rparr>"
proof -
  note r = refill_same_instant [OF assms(1-3)]
  have n: "n \<le> 2 ^ 53" using assms(3) u32_le_53 [of "rate_burst (rl_cfg rl)"] by linarith
  show "fst (allow rl s t) \<longleftrightarrow> 0 < n" using r assms(4) by (simp add: allow_def Let_def)
  show "bucket_entry (snd (allow rl s t)) s t = (bucket_entry rl s t)\<lparr>tokens := of_nat (n - 1)\<rparr>" if "0 < n"
    using r assms f64.spend_nat [OF n that] that by (simp add: allow_def Let_def bucket_entry_def)
  show "bucket_entry (snd (allow rl s t)) s t = (bucket_entry rl s t)\<lparr>greylist_until := t + greylist_ms (rl_cfg rl)\<rparr>"
    if "n = 0"
    using r assms that by (simp add: allow_def Let_def bucket_entry_def)
qed

lemma allow_all_greylisted:
  assumes "bm_get (buckets rl) s = Some b" "\<forall>t \<in> set ts. t < greylist_until b"
  shows "fst (allow_all rl s ts) = replicate (length ts) False"
  using assms
proof (induction ts arbitrary: rl)
  case (Cons t ts)
  then have "allow rl s t = (False, rl\<lparr>buckets := bm_insert s b (buckets rl)\<rparr>)"
    by (simp add: allow_def bucket_entry_def Let_def)
  with Cons show ?case by (simp add: case_prod_beta)
qed simp

lemma allow_other_sender:
  "s' \<noteq> s \<Longrightarrow> bm_get (buckets (snd (allow rl s t))) s' = bm_get (buckets rl) s'"
  by (simp add: allow_def Let_def)

text \<open>\<open>n\<close> tokens at one instant admit exactly \<open>n\<close> packets; the next is refused and greylists.\<close>

lemma allow_all_burst:
  assumes "last_ms (bucket_entry rl s t) = t" "tokens (bucket_entry rl s t) = of_nat n"
    "n \<le> unat (rate_burst (rl_cfg rl))" "greylist_until (bucket_entry rl s t) = 0"
    and later: "\<forall>u \<in> set us. u < t + greylist_ms (rl_cfg rl)"
  shows "fst (allow_all rl s (replicate n t @ t # us)) = replicate n True @ False # replicate (length us) False"
  using assms
proof (induction n arbitrary: rl)
  case 0
  note a = allow_same_instant [OF 0(1-4)]
  let ?rl = "snd (allow rl s t)"
  have "bm_get (buckets ?rl) s = Some (bucket_entry ?rl s t)"
    by (auto simp: allow_def bucket_entry_def Let_def)
  moreover have "greylist_until (bucket_entry ?rl s t) = t + greylist_ms (rl_cfg rl)" using a(3) by simp
  ultimately have "fst (allow_all ?rl s us) = replicate (length us) False"
    using allow_all_greylisted [of ?rl s _ us] 0(5) by simp
  with a(1) show ?case by (simp add: case_prod_beta)
next
  case (Suc n)
  note a = allow_same_instant [OF Suc.prems(1-4)]
  have cfg: "rl_cfg (snd (allow rl s t)) = rl_cfg rl" by (simp add: allow_def Let_def)
  have "fst (allow_all (snd (allow rl s t)) s (replicate n t @ t # us)) =
      replicate n True @ False # replicate (length us) False"
    by (rule Suc.IH) (use a(2) Suc.prems cfg in auto)
  with a(1) show ?case by (simp add: case_prod_beta)
qed

declare of_nat_unat [simp]

section \<open>Properties\<close>

text \<open>C32: as long as the traffic since the start fits the cache, the cache behaves as one that remembers
  everything: a copy is new exactly when no copy came before it, and the hear counter is the number
  of copies heard, saturating at the top of \<open>u32\<close>.\<close>

theorem seen_cache_exact:
  assumes "card (fst ` set ds) \<le> seen_cache_capacity cfg"
  shows "fst (observe_all (seen_cache_new cfg) ds) = ideal_observations [] (map fst ds)"
  by (rule observe_all_ideal)
    (use assms in \<open>auto simp: seen_cache_new_ok, auto simp: seen_cache_new_def hear_count_def\<close>)

theorem seen_cache_exact_witness:
  "fst (observe_all (seen_cache_new default_tunables) [([1], 0), ([2], 5), ([1], 9)]) =
     [\<lparr>is_new = True, obs_hear_count = 1\<rparr>, \<lparr>is_new = True, obs_hear_count = 1\<rparr>, \<lparr>is_new = False, obs_hear_count = 2\<rparr>]"
proof -
  have "card {[1 :: u8], [2], [1]} \<le> 1000" by (simp add: card_insert_if)
  then show ?thesis
    using seen_cache_exact [of "[([1], 0), ([2], 5), ([1], 9)]" default_tunables] by simp
qed

text \<open>Under arbitrary traffic the duplicate cache stays within its capacity (one entry when the
  capacity is zero), and a digest just observed is remembered.\<close>

lemma seen_cache_bounded:
  assumes "seen_ok c"
  shows "seen_ok (snd (observe c d t)) \<and> seen_ok (snd (evict_expired_seen c t))
    \<and> seen_len (snd (observe c d t)) \<le> max 1 (seen_cache_capacity (sc_cfg c))
    \<and> \<not> is_new (fst (observe (snd (observe c d t)) d t'))"
proof -
  note ok = observe_ok [OF assms, of d t]
  have "bm_contains (sc_map (snd (observe c d t))) d"
    by (auto simp: observe_def Let_def bm_contains_def split: option.splits)
  then have "\<not> is_new (fst (observe (snd (observe c d t)) d t'))"
    by (auto simp: observe_def [of "snd (observe c d t)"] Let_def bm_contains_def split: option.splits)
  with ok evict_expired_seen_ok(1) [OF assms] show ?thesis by (auto simp: seen_ok_def)
qed

text \<open>C30: a sender that was never seen before gets exactly its burst through at one instant; the next
  packet is refused and so is every later one until the greylist period is over.\<close>

theorem burst_then_greylist:
  assumes "bm_get (buckets rl) s = None" "\<forall>u \<in> set us. u < t + greylist_ms (rl_cfg rl)"
  shows "fst (allow_all rl s (replicate (unat (rate_burst (rl_cfg rl))) t @ t # us)) =
    replicate (unat (rate_burst (rl_cfg rl))) True @ False # replicate (length us) False"
proof -
  have e: "bucket_entry rl s t = \<lparr>tokens = of_nat (unat (rate_burst (rl_cfg rl))), last_ms = t, greylist_until = 0\<rparr>"
    using assms(1) by (simp add: bucket_entry_def)
  show ?thesis by (rule allow_all_burst) (use e assms(2) in auto)
qed

theorem burst_then_greylist_witness:
  "fst (allow_all (rate_limiter_new default_tunables) [9] (replicate 10 5 @ 5 # [1000, 60004])) =
     replicate 10 True @ [False, False, False]"
  using burst_then_greylist [of "rate_limiter_new default_tunables" "[9]" "[1000, 60004]" 5]
  by (simp add: rate_limiter_new_def)

text \<open>C31: whatever the timing (clocks that jump back included), a bucket never holds a negative number
  of tokens or more than the burst, in binary64 arithmetic, and one sender's traffic never touches
  another sender's bucket.\<close>

theorem tokens_bounded:
  assumes "limiter_ok rl"
  shows "limiter_ok (snd (allow rl s t))
    \<and> (s' \<noteq> s \<longrightarrow> bm_get (buckets (snd (allow rl s t))) s' = bm_get (buckets rl) s')"
  using allow_ok(1) [OF assms] allow_other_sender by blast

theorem tokens_bounded_witness: "limiter_ok (snd (allow (rate_limiter_new default_tunables) [9] 5))"
proof -
  have "limiter_ok (rate_limiter_new default_tunables)" by (simp add: limiter_ok_def rate_limiter_new_def)
  from tokens_bounded [OF this] show ?thesis by blast
qed

text \<open>C29: releasing the rebroadcasts never panics; it returns, in digest order, exactly the packets whose
  jitter has elapsed and that were heard fewer times than the suppression threshold, on all links but
  the one they came from, and it leaves queued exactly those whose time has not come.\<close>

theorem due_exact:
  assumes "bm_ok (rs_pending s)"
  shows "due s now_ms seen =
    Ret (map (\<lambda>(d, p). \<lparr>dr_packet = pr_packet p, dr_exclude_link = pr_exclude_link p\<rparr>)
           (filter (\<lambda>(d, p). pr_send_at_ms p \<le> now_ms \<and> hear_count seen d < suppression_threshold (rs_cfg s)) (rs_pending s)),
         s\<lparr>rs_pending := filter (\<lambda>(d, p). now_ms < pr_send_at_ms p) (rs_pending s)\<rparr>)"
  by (rule due_eq [OF assms])

theorem due_exact_witness:
  "\<exists>s'. due (schedule (relay_scheduler_new default_tunables) [2] (new_packet ChannelMessage 5 1 [1] None [3]) 1 100 0)
       150 (seen_cache_new default_tunables)
     = Ret ([\<lparr>dr_packet = new_packet ChannelMessage 5 1 [1] None [3], dr_exclude_link = 1\<rparr>], s') \<and> rs_pending s' = []"
  using due_exact [of "schedule (relay_scheduler_new default_tunables) [2] (new_packet ChannelMessage 5 1 [1] None [3]) 1 100 0"
      150 "seen_cache_new default_tunables"]
  by (simp add: schedule_def relay_scheduler_new_def hear_count_def seen_cache_new_def bm_ok_def)

end
