(* ===== verification/Store.thy ===== *)
theory Store
  imports Relay "HOL-Library.Multiset"
begin

text \<open>
  Persistence, \<open>crates/meshcore/src/store.rs\<close>: the \<open>Store\<close> trait as a record of operations, the laws
  the core relies on as the locale \<open>store_laws\<close>, and \<open>MemoryStore\<close>, which interprets it.  A
  \<open>HashMap\<close> is kept as an ordered map; where the code iterates over one, the order is the parameter
  \<open>order\<close> applied to the keys.
\<close>

section \<open>Data\<close>

record stored_message =
  sm_digest :: bytes
  sm_channel :: rstring
  sm_sender :: eph_id
  sm_timestamp_ms :: u64
  sm_body :: bytes
  sm_raw :: bytes

record peer_record =
  pr_fingerprint :: bytes
  petname :: "rstring option"
  verified :: bool
  last_eph :: eph_id
  last_seen_ms :: millis

record stored_dm =
  dm_peer :: bytes
  dm_mine :: bool
  dm_timestamp_ms :: u64
  dm_body :: bytes

record envelope =
  packet_bytes :: bytes
  queued_ms :: millis

section \<open>The trait\<close>

record 's store_ops =
  put_channel_message :: "'s \<Rightarrow> stored_message \<Rightarrow> 's"
  has_message :: "'s \<Rightarrow> bytes \<Rightarrow> bool"
  channel_history :: "'s \<Rightarrow> rstring \<Rightarrow> nat \<Rightarrow> stored_message list"
  channel_digests :: "'s \<Rightarrow> rstring \<Rightarrow> bytes list"
  message_by_digest :: "'s \<Rightarrow> bytes \<Rightarrow> stored_message option"
  upsert_peer :: "'s \<Rightarrow> peer_record \<Rightarrow> 's"
  get_peer :: "'s \<Rightarrow> bytes \<Rightarrow> peer_record option"
  list_peers :: "'s \<Rightarrow> peer_record list"
  put_dm :: "'s \<Rightarrow> stored_dm \<Rightarrow> 's"
  dm_history :: "'s \<Rightarrow> bytes \<Rightarrow> nat \<Rightarrow> stored_dm list"
  queue_envelope :: "'s \<Rightarrow> bytes \<Rightarrow> bytes \<Rightarrow> millis \<Rightarrow> 's"
  take_envelopes :: "'s \<Rightarrow> bytes \<Rightarrow> bytes list \<times> 's"
  delete_peer :: "'s \<Rightarrow> bytes \<Rightarrow> 's"
  delete_dms :: "'s \<Rightarrow> bytes \<Rightarrow> bool \<Rightarrow> 's"
  store_wipe :: "'s \<Rightarrow> 's"

definition is_control_dm :: "bytes \<Rightarrow> bool" where
  "is_control_dm body \<longleftrightarrow> length body = 1 \<and> 1 \<le> hd body \<and> hd body \<le> 3"

section \<open>MemoryStore\<close>

record memory_store =
  ms_channels :: "(rstring, stored_message list) bmap"
  ms_digests :: "bytes set"
  ms_peers :: "(bytes, peer_record) bmap"
  ms_dms :: "(bytes, stored_dm list) bmap"
  ms_envelopes :: "(bytes, envelope list) bmap"
  history_max :: nat
  history_ms :: millis
  ms_envelope_ttl_ms :: millis
  ms_envelope_max_per_peer :: nat

definition memory_store_new :: "nat \<Rightarrow> millis \<Rightarrow> millis \<Rightarrow> nat \<Rightarrow> memory_store" where
  "memory_store_new hmax hms ettl emax =
     \<lparr>ms_channels = [], ms_digests = {}, ms_peers = [], ms_dms = [], ms_envelopes = [],
      history_max = hmax, history_ms = hms, ms_envelope_ttl_ms = ettl, ms_envelope_max_per_peer = emax\<rparr>"

text \<open>\<open>while v.len() > n { v.remove(0) }\<close>, with the removed elements.\<close>

fun pop_front_while :: "nat \<Rightarrow> 'a list \<Rightarrow> 'a list \<times> 'a list" where
  "pop_front_while n [] = ([], [])"
| "pop_front_while n (x # xs) =
     (if n < length (x # xs) then (let (gone, kept) = pop_front_while n xs in (x # gone, kept))
      else ([], x # xs))"

definition get_or_default :: "('k, 'v list) bmap \<Rightarrow> 'k \<Rightarrow> 'v list" where
  "get_or_default m k = (case bm_get m k of Some v \<Rightarrow> v | None \<Rightarrow> [])"

definition prune_channel :: "memory_store \<Rightarrow> rstring \<Rightarrow> millis \<Rightarrow> memory_store" where
  "prune_channel s channel now_ms =
     (case bm_get (ms_channels s) channel of
        None \<Rightarrow> s
      | Some msgs \<Rightarrow>
          let msgs = (if 0 < history_ms s
                      then filter (\<lambda>m. saturating_sub now_ms (sm_timestamp_ms m) < history_ms s) msgs
                      else msgs);
              (gone, kept) = pop_front_while (history_max s) msgs
          in s\<lparr>ms_channels := bm_insert channel kept (ms_channels s),
               ms_digests := ms_digests s - sm_digest ` set gone\<rparr>)"

definition mem_put_channel_message :: "memory_store \<Rightarrow> stored_message \<Rightarrow> memory_store" where
  "mem_put_channel_message s msg =
     (if sm_digest msg \<in> ms_digests s then s
      else
        let now = sm_timestamp_ms msg;
            channel = sm_channel msg;
            v = sort_key sm_timestamp_ms (get_or_default (ms_channels s) channel @ [msg])
        in prune_channel
             (s\<lparr>ms_digests := insert (sm_digest msg) (ms_digests s),
                ms_channels := bm_insert channel v (ms_channels s)\<rparr>) channel now)"

definition mem_has_message :: "memory_store \<Rightarrow> bytes \<Rightarrow> bool" where
  "mem_has_message s d \<longleftrightarrow> d \<in> ms_digests s"

text \<open>\<open>if v.len() > limit { v = v.split_off(v.len() - limit) }\<close>\<close>

definition keep_last :: "nat \<Rightarrow> 'a list \<Rightarrow> 'a list" where
  "keep_last limit v = (if limit < length v then drop (length v - limit) v else v)"

definition mem_channel_history :: "memory_store \<Rightarrow> rstring \<Rightarrow> nat \<Rightarrow> stored_message list" where
  "mem_channel_history s channel limit =
     keep_last limit (sort_key sm_timestamp_ms (get_or_default (ms_channels s) channel))"

definition mem_channel_digests :: "memory_store \<Rightarrow> rstring \<Rightarrow> bytes list" where
  "mem_channel_digests s channel = map sm_digest (get_or_default (ms_channels s) channel)"

definition mem_message_by_digest ::
  "(bytes list \<Rightarrow> bytes list) \<Rightarrow> memory_store \<Rightarrow> bytes \<Rightarrow> stored_message option" where
  "mem_message_by_digest order s d =
     find (\<lambda>m. sm_digest m = d)
       (concat (map (get_or_default (ms_channels s)) (order (map fst (ms_channels s)))))"

definition mem_upsert_peer :: "memory_store \<Rightarrow> peer_record \<Rightarrow> memory_store" where
  "mem_upsert_peer s peer = s\<lparr>ms_peers := bm_insert (pr_fingerprint peer) peer (ms_peers s)\<rparr>"

definition mem_get_peer :: "memory_store \<Rightarrow> bytes \<Rightarrow> peer_record option" where
  "mem_get_peer s fp = bm_get (ms_peers s) fp"

definition mem_list_peers :: "(bytes list \<Rightarrow> bytes list) \<Rightarrow> memory_store \<Rightarrow> peer_record list" where
  "mem_list_peers order s = List.map_filter (bm_get (ms_peers s)) (order (map fst (ms_peers s)))"

definition mem_put_dm :: "memory_store \<Rightarrow> stored_dm \<Rightarrow> memory_store" where
  "mem_put_dm s dm =
     (let thread = sort_key dm_timestamp_ms (get_or_default (ms_dms s) (dm_peer dm) @ [dm])
      in s\<lparr>ms_dms := bm_insert (dm_peer dm) (snd (pop_front_while (history_max s) thread)) (ms_dms s)\<rparr>)"

definition mem_dm_history :: "memory_store \<Rightarrow> bytes \<Rightarrow> nat \<Rightarrow> stored_dm list" where
  "mem_dm_history s peer limit =
     keep_last limit (sort_key dm_timestamp_ms (get_or_default (ms_dms s) peer))"

definition mem_queue_envelope :: "memory_store \<Rightarrow> bytes \<Rightarrow> bytes \<Rightarrow> millis \<Rightarrow> memory_store" where
  "mem_queue_envelope s recipient bs now_ms =
     (let q = filter (\<lambda>e. saturating_sub now_ms (queued_ms e) < ms_envelope_ttl_ms s)
                (get_or_default (ms_envelopes s) recipient);
          q = q @ [\<lparr>packet_bytes = bs, queued_ms = now_ms\<rparr>]
      in s\<lparr>ms_envelopes := bm_insert recipient (snd (pop_front_while (ms_envelope_max_per_peer s) q))
             (ms_envelopes s)\<rparr>)"

definition mem_take_envelopes :: "memory_store \<Rightarrow> bytes \<Rightarrow> bytes list \<times> memory_store" where
  "mem_take_envelopes s recipient =
     (map packet_bytes (get_or_default (ms_envelopes s) recipient),
      s\<lparr>ms_envelopes := bm_remove recipient (ms_envelopes s)\<rparr>)"

definition mem_delete_peer :: "memory_store \<Rightarrow> bytes \<Rightarrow> memory_store" where
  "mem_delete_peer s fp = s\<lparr>ms_peers := bm_remove fp (ms_peers s)\<rparr>"

definition mem_delete_dms :: "memory_store \<Rightarrow> bytes \<Rightarrow> bool \<Rightarrow> memory_store" where
  "mem_delete_dms s fp only_control =
     (if only_control
      then (case bm_get (ms_dms s) fp of
              None \<Rightarrow> s
            | Some thread \<Rightarrow>
                s\<lparr>ms_dms := bm_insert fp (filter (\<lambda>d. \<not> is_control_dm (dm_body d)) thread) (ms_dms s)\<rparr>)
      else s\<lparr>ms_dms := bm_remove fp (ms_dms s)\<rparr>)"

definition mem_panic_wipe :: "memory_store \<Rightarrow> memory_store" where
  "mem_panic_wipe s =
     s\<lparr>ms_channels := [], ms_digests := {}, ms_peers := [], ms_dms := [], ms_envelopes := []\<rparr>"

definition memory_ops :: "(bytes list \<Rightarrow> bytes list) \<Rightarrow> memory_store store_ops" where
  "memory_ops order =
     \<lparr>put_channel_message = mem_put_channel_message, has_message = mem_has_message,
      channel_history = mem_channel_history, channel_digests = mem_channel_digests,
      message_by_digest = mem_message_by_digest order,
      upsert_peer = mem_upsert_peer, get_peer = mem_get_peer, list_peers = mem_list_peers order,
      put_dm = mem_put_dm, dm_history = mem_dm_history,
      queue_envelope = mem_queue_envelope, take_envelopes = mem_take_envelopes,
      delete_peer = mem_delete_peer, delete_dms = mem_delete_dms, store_wipe = mem_panic_wipe\<rparr>"

section \<open>What the core relies on\<close>

text \<open>What the core reads back of a contact: the name the user gave it and whether the user verified it.\<close>

definition contact :: "'s store_ops \<Rightarrow> 's \<Rightarrow> bytes \<Rightarrow> (rstring option \<times> bool) option" where
  "contact ops s fp = map_option (\<lambda>p. (petname p, verified p)) (get_peer ops s fp)"

locale store_laws =
  fixes ops :: "'s store_ops"
  assumes contact_upsert: "contact ops (upsert_peer ops s p) fp =
      (if fp = pr_fingerprint p then Some (petname p, verified p) else contact ops s fp)"
    and contact_delete: "contact ops (delete_peer ops s fp') fp = (if fp = fp' then None else contact ops s fp)"
    and contact_put_channel: "contact ops (put_channel_message ops s m) fp = contact ops s fp"
    and contact_put_dm: "contact ops (put_dm ops s dm) fp = contact ops s fp"
    and contact_delete_dms: "contact ops (delete_dms ops s fp' only) fp = contact ops s fp"
    and contact_queue: "contact ops (queue_envelope ops s fp' b t) fp = contact ops s fp"
    and contact_take: "contact ops (snd (take_envelopes ops s fp')) fp = contact ops s fp"
    and contact_wipe: "contact ops (store_wipe ops s) fp = None"
    and take_take: "fst (take_envelopes ops (snd (take_envelopes ops s fp)) fp) = []"
    and take_wipe: "fst (take_envelopes ops (store_wipe ops s) fp) = []"
    and dms_wipe: "dm_history ops (store_wipe ops s) fp n = []"
    and dms_delete: "dm_history ops (delete_dms ops s fp False) fp n = []"
    and dms_delete_peer: "dm_history ops (delete_peer ops s fp') fp n = dm_history ops s fp n"
    and has_wipe: "\<not> has_message ops (store_wipe ops s) d"
    and history_wipe: "channel_history ops (store_wipe ops s) ch n = []"
    and digests_wipe: "channel_digests ops (store_wipe ops s) ch = []"
    and lookup_wipe: "message_by_digest ops (store_wipe ops s) d = None"
begin

lemmas contact_frame = contact_put_channel contact_put_dm contact_delete_dms contact_queue contact_take

end

interpretation mem: store_laws "memory_ops order" for order
  by unfold_locales
    (auto simp: contact_def memory_ops_def mem_get_peer_def mem_upsert_peer_def mem_delete_peer_def mem_put_channel_message_def
      prune_channel_def mem_put_dm_def mem_delete_dms_def mem_queue_envelope_def mem_take_envelopes_def
      mem_panic_wipe_def mem_dm_history_def mem_has_message_def mem_channel_history_def mem_channel_digests_def
      mem_message_by_digest_def find_None_iff get_or_default_def keep_last_def Let_def split: option.splits prod.splits)

section \<open>Lemmas on MemoryStore\<close>

lemma pop_front_while_eq: "pop_front_while n xs = (take (length xs - n) xs, drop (length xs - n) xs)"
  by (induction n xs rule: pop_front_while.induct) (auto simp: Suc_diff_le not_less)

lemma keep_last_eq: "keep_last n xs = drop (length xs - n) xs"
  by (simp add: keep_last_def)

lemma keep_last_snoc: "keep_last n (keep_last n xs @ [x]) = keep_last n (xs @ [x])"
  by (cases "n \<le> length xs") (simp_all add: keep_last_eq Suc_diff_le)

lemma get_or_default_insert [simp]:
  "get_or_default (bm_insert k v m) k' = (if k' = k then v else get_or_default m k')"
  by (simp add: get_or_default_def)

lemma get_or_default_remove [simp]:
  "get_or_default (bm_remove k m) k' = (if k' = k then [] else get_or_default m k')"
  by (simp add: get_or_default_def)

lemma get_or_default_Nil [simp]: "get_or_default [] k = []"
  by (simp add: get_or_default_def)

text \<open>Storing a message: the channel's new contents and the digests given up.\<close>

definition aged :: "memory_store \<Rightarrow> millis \<Rightarrow> stored_message list \<Rightarrow> stored_message list" where
  "aged s now ms = filter (\<lambda>m. 0 < history_ms s \<longrightarrow> saturating_sub now (sm_timestamp_ms m) < history_ms s) ms"

definition inserted :: "memory_store \<Rightarrow> stored_message \<Rightarrow> stored_message list" where
  "inserted s msg = aged s (sm_timestamp_ms msg)
     (sort_key sm_timestamp_ms (get_or_default (ms_channels s) (sm_channel msg) @ [msg]))"

lemma mem_put_channels:
  assumes "sm_digest msg \<notin> ms_digests s"
  defines "v \<equiv> inserted s msg"
  shows "get_or_default (ms_channels (mem_put_channel_message s msg)) c =
      (if c = sm_channel msg then drop (length v - history_max s) v else get_or_default (ms_channels s) c)"
    and "ms_digests (mem_put_channel_message s msg) =
      insert (sm_digest msg) (ms_digests s) - sm_digest ` set (take (length v - history_max s) v)"
    and "history_max (mem_put_channel_message s msg) = history_max s"
  using assms
  by (auto simp: mem_put_channel_message_def prune_channel_def Let_def pop_front_while_eq inserted_def aged_def
      split: prod.splits)

lemma mem_put_ok: "bm_ok (ms_channels s) \<Longrightarrow> bm_ok (ms_channels (mem_put_channel_message s msg))"
  by (auto simp: mem_put_channel_message_def prune_channel_def Let_def split: option.splits prod.splits)

text \<open>Invariant: a channel's messages are in order of time, within the cap, filed under their channel, and
  no digest is stored twice.\<close>

definition channel_ok :: "memory_store \<Rightarrow> rstring \<Rightarrow> stored_message list \<Rightarrow> bool" where
  "channel_ok s c v \<longleftrightarrow>
     sorted (map sm_timestamp_ms v) \<and> length v \<le> history_max s \<and> distinct (map sm_digest v)
     \<and> (\<forall>m \<in> set v. sm_channel m = c \<and> sm_digest m \<in> ms_digests s)"

definition mem_ok :: "memory_store \<Rightarrow> bool" where
  "mem_ok s \<longleftrightarrow> bm_ok (ms_channels s)
     \<and> (\<forall>c. channel_ok s c (get_or_default (ms_channels s) c))
     \<and> (\<forall>c c' m m'. m \<in> set (get_or_default (ms_channels s) c) \<longrightarrow>
           m' \<in> set (get_or_default (ms_channels s) c') \<longrightarrow> sm_digest m = sm_digest m' \<longrightarrow> c = c')"

lemma distinct_map_sort_key: "distinct (map f (sort_key k xs)) \<longleftrightarrow> distinct (map f xs)"
  by (metis mset_map mset_sort mset_eq_imp_distinct_iff)

lemma distinct_map_filter_subset: "distinct (map f xs) \<Longrightarrow> distinct (map f (filter P xs))"
  by (simp add: distinct_map_filter)

lemma inserted_facts:
  assumes "mem_ok s" "sm_digest msg \<notin> ms_digests s"
  shows "sorted (map sm_timestamp_ms (inserted s msg))" "distinct (map sm_digest (inserted s msg))"
    "set (inserted s msg) \<subseteq> insert msg (set (get_or_default (ms_channels s) (sm_channel msg)))"
proof -
  let ?v = "get_or_default (ms_channels s) (sm_channel msg)"
  have v: "channel_ok s (sm_channel msg) ?v" using assms(1) by (simp add: mem_ok_def)
  show "sorted (map sm_timestamp_ms (inserted s msg))" by (simp add: inserted_def aged_def sorted_filter)
  have "distinct (map sm_digest (?v @ [msg]))" using v assms(2) by (auto simp: channel_ok_def)
  then show "distinct (map sm_digest (inserted s msg))"
    unfolding inserted_def aged_def by (intro distinct_map_filter_subset) (simp only: distinct_map_sort_key)
  show "set (inserted s msg) \<subseteq> insert msg (set ?v)" by (auto simp: inserted_def aged_def)
qed

lemma mem_put_mem_ok:
  assumes "mem_ok s"
  shows "mem_ok (mem_put_channel_message s msg)"
proof (cases "sm_digest msg \<in> ms_digests s")
  case False
  let ?s = "mem_put_channel_message s msg" and ?v = "inserted s msg"
  let ?k = "length ?v - history_max s"
  note put = mem_put_channels [OF False]
  note ins = inserted_facts [OF assms False]
  have old: "channel_ok s c (get_or_default (ms_channels s) c)" for c using assms by (simp add: mem_ok_def)
  have uniq: "c = c'" if "m \<in> set (get_or_default (ms_channels s) c)" "m' \<in> set (get_or_default (ms_channels s) c')"
    "sm_digest m = sm_digest m'" for c c' m m'
    using assms that unfolding mem_ok_def by blast
  have kept: "m \<in> set ?v" "sm_digest m \<in> ms_digests ?s" if "m \<in> set (drop ?k ?v)" for m
  proof -
    show "m \<in> set ?v" using that by (rule in_set_dropD)
    have "distinct (map sm_digest (take ?k ?v) @ map sm_digest (drop ?k ?v))"
      using ins(2) by (simp add: map_append [symmetric] del: map_append)
    then have "sm_digest m \<notin> sm_digest ` set (take ?k ?v)" using that by auto
    moreover have "sm_digest m \<in> insert (sm_digest msg) (ms_digests s)"
      using \<open>m \<in> set ?v\<close> ins(3) old [of "sm_channel msg"] by (auto simp: channel_ok_def)
    ultimately show "sm_digest m \<in> ms_digests ?s" by (simp add: put(2))
  qed
  have other: "sm_digest m \<in> ms_digests ?s" if "m \<in> set (get_or_default (ms_channels s) c)" "c \<noteq> sm_channel msg" for m c
  proof -
    have "sm_digest m \<in> ms_digests s" using old [of c] that(1) by (simp add: channel_ok_def)
    moreover have "sm_digest m \<noteq> sm_digest m'" if m': "m' \<in> set ?v" for m'
      using m' ins(3) uniq [OF \<open>m \<in> set (get_or_default (ms_channels s) c)\<close>, of m'] \<open>c \<noteq> sm_channel msg\<close> False calculation
      by auto
    ultimately show ?thesis by (auto simp: put(2) dest: in_set_takeD)
  qed
  have "channel_ok ?s c (get_or_default (ms_channels ?s) c)" for c
  proof (cases "c = sm_channel msg")
    case True
    have "sorted (map sm_timestamp_ms (drop ?k ?v))" using ins(1) by (simp add: drop_map [symmetric])
    moreover have "distinct (map sm_digest (drop ?k ?v))" using ins(2) by (simp add: drop_map [symmetric])
    moreover have "sm_channel m = c" if "m \<in> set (drop ?k ?v)" for m
      using kept(1) [OF that] ins(3) old [of "sm_channel msg"] True by (auto simp: channel_ok_def)
    ultimately show ?thesis using True kept(2) by (simp add: channel_ok_def put)
  next
    case neq: False
    then show ?thesis using old [of c] other by (simp add: channel_ok_def put)
  qed
  moreover have "c = c'" if "m \<in> set (get_or_default (ms_channels ?s) c)" "m' \<in> set (get_or_default (ms_channels ?s) c')"
    "sm_digest m = sm_digest m'" for c c' m m'
  proof (rule ccontr)
    assume ne: "c \<noteq> c'"
    have sub: "x = msg \<and> e = sm_channel msg \<or> x \<in> set (get_or_default (ms_channels s) e)"
      if "x \<in> set (get_or_default (ms_channels ?s) e)" for x e
      using that kept(1) ins(3) by (auto simp: put split: if_splits)
    have new: "sm_digest x \<noteq> sm_digest msg" if "x \<in> set (get_or_default (ms_channels s) e)" for x e
      using that old [of e] False by (auto simp: channel_ok_def)
    show False using sub [OF that(1)] sub [OF that(2)] that(3) ne new uniq by metis
  qed
  ultimately show ?thesis
    using assms mem_put_ok [of s msg] unfolding mem_ok_def by blast
qed (use assms in \<open>simp add: mem_put_channel_message_def\<close>)

text \<open>A digest that is claimed though no message with it is held, and stays so whatever is stored later.\<close>

definition lost_digest :: "memory_store \<Rightarrow> bytes \<Rightarrow> bool" where
  "lost_digest s d \<longleftrightarrow> mem_ok s \<and> d \<in> ms_digests s
     \<and> (\<forall>c. \<forall>x \<in> set (get_or_default (ms_channels s) c). sm_digest x \<noteq> d)"

lemma lost_digest_put:
  assumes "lost_digest s d"
  shows "lost_digest (mem_put_channel_message s msg) d"
proof (cases "sm_digest msg \<in> ms_digests s")
  case False
  have ins: "sm_digest x \<noteq> d" if "x \<in> set (inserted s msg)" for x
    using that inserted_facts(3) [OF _ False] assms False unfolding lost_digest_def by blast
  have "d \<in> ms_digests (mem_put_channel_message s msg)"
    using assms ins by (auto simp: lost_digest_def mem_put_channels(2) [OF False] dest!: in_set_takeD)
  moreover have "sm_digest x \<noteq> d" if "x \<in> set (get_or_default (ms_channels (mem_put_channel_message s msg)) c)" for c x
    using that assms ins by (auto simp: lost_digest_def mem_put_channels(1) [OF False] dest!: in_set_dropD split: if_splits)
  ultimately show ?thesis using assms mem_put_mem_ok by (auto simp: lost_digest_def)
qed (use assms in \<open>simp add: mem_put_channel_message_def\<close>)

lemma lost_digest_puts: "lost_digest s d \<Longrightarrow> lost_digest (foldl mem_put_channel_message s msgs) d"
  by (induction msgs arbitrary: s) (simp_all add: lost_digest_put)

lemma lost_digestD:
  assumes "lost_digest s d"
  shows "mem_has_message s d" "mem_message_by_digest order s d = None" "sm_digest msg = d \<Longrightarrow> mem_put_channel_message s msg = s"
    "x \<in> set (mem_channel_history s c limit) \<Longrightarrow> sm_digest x \<noteq> d"
proof -
  show "mem_has_message s d" "mem_message_by_digest order s d = None" "sm_digest msg = d \<Longrightarrow> mem_put_channel_message s msg = s"
    using assms by (auto simp: lost_digest_def mem_has_message_def mem_message_by_digest_def find_None_iff mem_put_channel_message_def)
  assume "x \<in> set (mem_channel_history s c limit)"
  then have "x \<in> set (get_or_default (ms_channels s) c)" by (auto simp: mem_channel_history_def keep_last_eq dest!: in_set_dropD)
  then show "sm_digest x \<noteq> d" using assms unfolding lost_digest_def by blast
qed

lemma ages_out:
  assumes "mem_ok s" "m \<in> set (get_or_default (ms_channels s) (sm_channel m))" "sm_channel msg = sm_channel m"
    and "sm_digest msg \<notin> ms_digests s" "0 < history_ms s" "unat (sm_timestamp_ms m) + unat (history_ms s) \<le> unat (sm_timestamp_ms msg)"
  shows "lost_digest (mem_put_channel_message s msg) (sm_digest m)"
proof -
  let ?s = "mem_put_channel_message s msg"
  have held: "channel_ok s c (get_or_default (ms_channels s) c)" for c using assms(1) by (simp add: mem_ok_def)
  have d: "sm_digest m \<in> ms_digests s" using held [of "sm_channel m"] assms(2) unfolding channel_ok_def by blast
  have uniq: "c = c'" if "x \<in> set (get_or_default (ms_channels s) c)" "y \<in> set (get_or_default (ms_channels s) c')"
    "sm_digest x = sm_digest y" for c c' x y
    using assms(1) that unfolding mem_ok_def by blast
  have same: "x = m" if "x \<in> set (get_or_default (ms_channels s) c)" "sm_digest x = sm_digest m" for x c
  proof -
    have "c = sm_channel m" by (rule uniq [OF that(1) assms(2) that(2)])
    then have "x \<in> set (get_or_default (ms_channels s) (sm_channel m))" using that(1) by simp
    moreover have "inj_on sm_digest (set (get_or_default (ms_channels s) (sm_channel m)))"
      using held [of "sm_channel m"] by (simp add: channel_ok_def distinct_map)
    ultimately show ?thesis using assms(2) that(2) by (simp add: inj_onD)
  qed
  have "0 < unat (history_ms s)" using assms(5) by (simp add: word_less_nat_alt)
  then have "\<not> saturating_sub (sm_timestamp_ms msg) (sm_timestamp_ms m) < history_ms s"
    by (simp add: not_less word_le_nat_alt waited_at_least assms(6))
  then have "m \<notin> set (inserted s msg)" using assms(5) by (simp add: inserted_def aged_def)
  moreover have "sm_digest msg \<noteq> sm_digest m" using assms(4) d by metis
  ultimately have ins: "sm_digest x \<noteq> sm_digest m" if "x \<in> set (inserted s msg)" for x
    using that inserted_facts(3) [OF assms(1,4)] same by blast
  have "sm_digest m \<in> ms_digests ?s"
    using d ins [OF in_set_takeD] by (force simp: mem_put_channels(2) [OF assms(4)])
  moreover have "sm_digest x \<noteq> sm_digest m" if "x \<in> set (get_or_default (ms_channels ?s) c)" for c x
    using that ins uniq [OF _ assms(2)] assms(3) by (auto simp: mem_put_channels(1) [OF assms(4)] dest!: in_set_dropD split: if_splits)
  ultimately show ?thesis using mem_put_mem_ok [OF assms(1)] by (auto simp: lost_digest_def)
qed

lemma memory_store_new_ok: "mem_ok (memory_store_new hmax hms ettl emax)"
  by (simp add: mem_ok_def channel_ok_def memory_store_new_def)

lemma puts_ok: "mem_ok s \<Longrightarrow> mem_ok (foldl mem_put_channel_message s msgs)"
  by (induction msgs arbitrary: s) (simp_all add: mem_put_mem_ok)

lemma put_history_ms: "history_ms (mem_put_channel_message s msg) = history_ms s"
  by (auto simp: mem_put_channel_message_def prune_channel_def Let_def split: option.splits prod.splits)

lemma puts_history_ms: "history_ms (foldl mem_put_channel_message s msgs) = history_ms s"
  by (induction msgs arbitrary: s) (simp_all add: put_history_ms)

text \<open>Queueing for one peer, one packet after the other.\<close>

definition queue_all :: "memory_store \<Rightarrow> bytes \<Rightarrow> (bytes \<times> millis) list \<Rightarrow> memory_store" where
  "queue_all s r qs = foldl (\<lambda>s (b, t). mem_queue_envelope s r b t) s qs"

lemma queue_all_envelopes:
  assumes "\<forall>t \<in> snd ` set qs. \<forall>u \<in> snd ` set qs. saturating_sub t u < ms_envelope_ttl_ms s"
    "get_or_default (ms_envelopes s) r = []"
  shows "get_or_default (ms_envelopes (queue_all s r qs)) r' =
      (if r' = r then keep_last (ms_envelope_max_per_peer s) (map (\<lambda>(b, t). \<lparr>packet_bytes = b, queued_ms = t\<rparr>) qs)
       else get_or_default (ms_envelopes s) r')
    \<and> ms_envelope_ttl_ms (queue_all s r qs) = ms_envelope_ttl_ms s
    \<and> ms_envelope_max_per_peer (queue_all s r qs) = ms_envelope_max_per_peer s"
  using assms
proof (induction qs arbitrary: r' rule: rev_induct)
  case (snoc bt qs)
  obtain b t where bt: "bt = (b, t)" by (cases bt)
  let ?s = "queue_all s r qs" and ?es = "map (\<lambda>(b, t). \<lparr>packet_bytes = b, queued_ms = t\<rparr>) qs"
  have IH: "get_or_default (ms_envelopes ?s) r = keep_last (ms_envelope_max_per_peer s) ?es"
    "ms_envelope_ttl_ms ?s = ms_envelope_ttl_ms s" "ms_envelope_max_per_peer ?s = ms_envelope_max_per_peer s"
    "r' \<noteq> r \<Longrightarrow> get_or_default (ms_envelopes ?s) r' = get_or_default (ms_envelopes s) r'"
    using snoc.IH [of r] snoc.IH [of r'] snoc.prems by auto
  have "saturating_sub t (queued_ms e) < ms_envelope_ttl_ms s"
    if "e \<in> set (keep_last (ms_envelope_max_per_peer s) ?es)" for e
    using that snoc.prems(1) by (fastforce simp: keep_last_eq bt dest: in_set_dropD)
  then have "filter (\<lambda>e. saturating_sub t (queued_ms e) < ms_envelope_ttl_ms s)
      (keep_last (ms_envelope_max_per_peer s) ?es) = keep_last (ms_envelope_max_per_peer s) ?es" by simp
  moreover have "queue_all s r (qs @ [bt]) = mem_queue_envelope ?s r b t" by (simp add: queue_all_def bt)
  ultimately show ?case
    using IH keep_last_snoc [of "ms_envelope_max_per_peer s" ?es]
    by (simp add: mem_queue_envelope_def Let_def bt pop_front_while_eq keep_last_eq)
qed (simp add: queue_all_def keep_last_eq)

lemma find_perm:
  assumes "set xs = set ys" "\<And>x y. x \<in> set xs \<Longrightarrow> y \<in> set xs \<Longrightarrow> P x \<Longrightarrow> P y \<Longrightarrow> x = y"
  shows "find P xs = Some x \<longleftrightarrow> x \<in> set ys \<and> P x"
proof -
  have "find P xs \<noteq> None" if "x \<in> set xs" "P x" using that by (auto simp: find_None_iff)
  then show ?thesis using assms by (auto simp: find_Some_iff) (metis find_Some_iff nth_mem option.exhaust)
qed

lemma stored_keys: "m \<in> set (get_or_default ms c) \<Longrightarrow> c \<in> fst ` set ms"
  by (auto simp: get_or_default_def split: option.splits dest: map_of_SomeD) (metis fst_conv imageI map_of_SomeD)

lemma lookup_by_digest:
  assumes "mem_ok s" "\<And>xs. set (order xs) = set xs"
  shows "mem_message_by_digest order s d = Some m \<longleftrightarrow>
    m \<in> set (get_or_default (ms_channels s) (sm_channel m)) \<and> sm_digest m = d"
proof -
  let ?all = "concat (map (get_or_default (ms_channels s)) (order (map fst (ms_channels s))))"
  have all: "x \<in> set ?all \<longleftrightarrow> x \<in> set (get_or_default (ms_channels s) (sm_channel x))" for x
  proof
    assume "x \<in> set ?all"
    then obtain c where c: "x \<in> set (get_or_default (ms_channels s) c)" by auto
    then have "sm_channel x = c" using assms(1) by (simp add: mem_ok_def channel_ok_def)
    with c show "x \<in> set (get_or_default (ms_channels s) (sm_channel x))" by simp
  next
    assume x: "x \<in> set (get_or_default (ms_channels s) (sm_channel x))"
    then have "sm_channel x \<in> set (order (map fst (ms_channels s)))"
      using stored_keys [OF x] assms(2) by simp
    with x show "x \<in> set ?all" by (auto intro!: bexI)
  qed
  have "x = y" if "x \<in> set ?all" "y \<in> set ?all" "sm_digest x = d" "sm_digest y = d" for x y
  proof -
    have mem: "x \<in> set (get_or_default (ms_channels s) (sm_channel x))" "y \<in> set (get_or_default (ms_channels s) (sm_channel y))"
      using that all by blast+
    then have "sm_channel x = sm_channel y" using assms(1) that(3,4) unfolding mem_ok_def by metis
    moreover have "distinct (map sm_digest (get_or_default (ms_channels s) (sm_channel x)))"
      using assms(1) by (simp add: mem_ok_def channel_ok_def)
    ultimately show ?thesis using mem that(3,4) by (metis (mono_tags, lifting) distinct_map inj_onD)
  qed
  then have "find (\<lambda>m. sm_digest m = d) ?all = Some m \<longleftrightarrow> m \<in> set ?all \<and> sm_digest m = d"
    by (intro find_perm) auto
  then show ?thesis using all by (simp add: mem_message_by_digest_def)
qed

section \<open>Properties\<close>

text \<open>C33: storing a channel message keeps the store's invariant: each channel in order of time and within
  its cap, every message filed under its own channel, no digest stored twice, and every stored digest
  known.\<close>

theorem store_keeps_history_ok:
  assumes "mem_ok s"
  shows "mem_ok (mem_put_channel_message s msg)
    \<and> length (mem_channel_history (mem_put_channel_message s msg) c limit) \<le> min limit (history_max s)"
proof -
  have ok: "mem_ok (mem_put_channel_message s msg)" by (rule mem_put_mem_ok [OF assms])
  have "history_max (mem_put_channel_message s msg) = history_max s"
    using mem_put_channels(3) [of msg s] by (cases "sm_digest msg \<in> ms_digests s") (auto simp: mem_put_channel_message_def)
  then have "length (get_or_default (ms_channels (mem_put_channel_message s msg)) c) \<le> history_max s"
    using ok by (simp add: mem_ok_def channel_ok_def)
  with ok show ?thesis unfolding mem_channel_history_def keep_last_eq length_drop length_sort by linarith
qed

theorem store_keeps_history_ok_witness:
  "mem_ok (mem_put_channel_message (memory_store_new 2 0 0 100)
     \<lparr>sm_digest = [1], sm_channel = [35], sm_sender = [], sm_timestamp_ms = 5, sm_body = [], sm_raw = []\<rparr>)"
proof -
  have "mem_ok (memory_store_new 2 0 0 100)" by (simp add: mem_ok_def channel_ok_def memory_store_new_def)
  from store_keeps_history_ok [OF this] show ?thesis by blast
qed

text \<open>Looking a message up by its digest finds exactly the stored message with that digest, whichever
  order the hash map of channels is iterated in.\<close>

theorem message_by_digest_exact:
  assumes "mem_ok s" "\<And>xs. set (order xs) = set xs"
  shows "mem_message_by_digest order s d = Some m \<longleftrightarrow>
    m \<in> set (get_or_default (ms_channels s) (sm_channel m)) \<and> sm_digest m = d"
  by (rule lookup_by_digest [OF assms])

theorem message_by_digest_exact_witness:
  "mem_message_by_digest rev (mem_put_channel_message (memory_store_new 2 0 0 100)
       \<lparr>sm_digest = [1], sm_channel = [35], sm_sender = [], sm_timestamp_ms = 5, sm_body = [], sm_raw = []\<rparr>) [1] =
     Some \<lparr>sm_digest = [1], sm_channel = [35], sm_sender = [], sm_timestamp_ms = 5, sm_body = [], sm_raw = []\<rparr>"
proof -
  have "mem_ok (memory_store_new 2 0 0 100)" by (simp add: mem_ok_def channel_ok_def memory_store_new_def)
  from message_by_digest_exact [OF mem_put_mem_ok [OF this, of "\<lparr>sm_digest = [1], sm_channel = [35], sm_sender = [], sm_timestamp_ms = 5, sm_body = [], sm_raw = []\<rparr>"], of rev "[1]"
      "\<lparr>sm_digest = [1], sm_channel = [35], sm_sender = [], sm_timestamp_ms = 5, sm_body = [], sm_raw = []\<rparr>"]
  show ?thesis
    by (simp add: memory_store_new_def mem_put_channel_message_def prune_channel_def get_or_default_def Let_def)
qed

text \<open>Envelopes queued for an absent peer come out in the order they were queued, the oldest dropped
  beyond the per-peer cap, exactly once, and without disturbing another peer's queue, as long as none
  outlives the envelope lifetime.\<close>

theorem envelopes_fifo:
  assumes "\<forall>t \<in> snd ` set qs. \<forall>u \<in> snd ` set qs. saturating_sub t u < ms_envelope_ttl_ms s"
    "get_or_default (ms_envelopes s) r = []"
  shows "fst (mem_take_envelopes (queue_all s r qs) r) = keep_last (ms_envelope_max_per_peer s) (map fst qs)
    \<and> fst (mem_take_envelopes (snd (mem_take_envelopes (queue_all s r qs) r)) r) = []
    \<and> (r' \<noteq> r \<longrightarrow> fst (mem_take_envelopes (snd (mem_take_envelopes (queue_all s r qs) r)) r') = fst (mem_take_envelopes s r'))"
proof -
  note q = queue_all_envelopes [OF assms]
  have "map packet_bytes (keep_last n (map (\<lambda>(b, t). \<lparr>packet_bytes = b, queued_ms = t\<rparr>) qs)) = keep_last n (map fst qs)" for n
    by (simp add: keep_last_eq drop_map o_def case_prod_beta)
  then show ?thesis using q [of r] q [of r'] by (auto simp: mem_take_envelopes_def)
qed

theorem envelopes_fifo_witness:
  "fst (mem_take_envelopes (queue_all (memory_store_new 9 0 1000 2) [7] [([1], 0), ([2], 5), ([3], 900)]) [7]) = [[2], [3]]"
  using envelopes_fifo [of "[([1], 0), ([2], 5), ([3], 900)]" "memory_store_new 9 0 1000 2" "[7]" "[8]"]
  by (simp add: memory_store_new_def saturating_sub_def keep_last_eq)

text \<open>C34: a message dropped for its age keeps its digest claimed.  Take any history of stored messages from
  which the store returns a message, and store a new message in the same channel that is later by the length of the history
  or more.  From then on, whatever else is stored, the store reports the old message as held, cannot return it and
  does not show it, and storing it again changes nothing, so no later reconciliation can restore it.\<close>

theorem aged_out_digest_stays_claimed:
  assumes "s = foldl mem_put_channel_message (memory_store_new hmax hms ettl emax) earlier"
    and "mem_message_by_digest order s (sm_digest m) = Some m"
    and "sm_channel msg = sm_channel m" "\<not> mem_has_message s (sm_digest msg)"
    and "0 < hms" "unat (sm_timestamp_ms m) + unat hms \<le> unat (sm_timestamp_ms msg)"
    and "s' = foldl mem_put_channel_message (mem_put_channel_message s msg) later"
    and "\<And>xs. set (order xs) = set xs"
  shows "mem_has_message s' (sm_digest m) \<and> mem_message_by_digest order s' (sm_digest m) = None
    \<and> m \<notin> set (mem_channel_history s' (sm_channel m) limit) \<and> mem_put_channel_message s' m = s'"
proof -
  have ok: "mem_ok s" unfolding assms(1) by (rule puts_ok [OF memory_store_new_ok])
  have "history_ms s = hms" unfolding assms(1) puts_history_ms by (simp add: memory_store_new_def)
  then have "lost_digest (mem_put_channel_message s msg) (sm_digest m)"
    using assms(2-6) lookup_by_digest [OF ok assms(8), of "sm_digest m" m] ages_out [OF ok] by (simp add: mem_has_message_def)
  then have "lost_digest s' (sm_digest m)" unfolding assms(7) by (rule lost_digest_puts)
  note lost = lost_digestD [OF this]
  show ?thesis using lost(1,2,3) lost(4) [of m] by blast
qed

text \<open>Sample messages that differ in time and digest.\<close>

definition dated :: "u64 \<Rightarrow> u8 \<Rightarrow> stored_message" where
  "dated t d = \<lparr>sm_digest = [d], sm_channel = [35], sm_sender = [], sm_timestamp_ms = t, sm_body = [], sm_raw = []\<rparr>"

theorem aged_out_digest_stays_claimed_witness:
  "let s = foldl mem_put_channel_message (memory_store_new 1000 100 0 1) [dated 0 1, dated 200 2, dated 210 3]
   in mem_has_message s [1] \<and> mem_message_by_digest rev s [1] = None
     \<and> dated 0 1 \<notin> set (mem_channel_history s [35] 10) \<and> mem_put_channel_message s (dated 0 1) = s"
proof -
  let ?s = "mem_put_channel_message (memory_store_new 1000 100 0 1) (dated 0 1)"
  have s: "?s = (memory_store_new 1000 100 0 1)\<lparr>ms_channels := [([35], [dated 0 1])], ms_digests := {[1]}\<rparr>"
    by (simp add: dated_def mem_put_channel_message_def prune_channel_def memory_store_new_def saturating_sub_def Let_def)
  have "mem_message_by_digest rev ?s [1] = Some (dated 0 1)" "\<not> mem_has_message ?s [2]"
    unfolding s by (simp_all add: mem_message_by_digest_def mem_has_message_def get_or_default_def dated_def)
  then show ?thesis
    using aged_out_digest_stays_claimed [of ?s 1000 100 0 1 "[dated 0 1]" rev "dated 0 1" "dated 200 2" _ "[dated 210 3]" 10]
    by (simp add: dated_def Let_def)
qed

end
