(* ===== verification/Noise.thy ===== *)
theory Noise
  imports Store
begin

text \<open>
  The end-to-end session, \<open>crates/meshcore/src/noise.rs\<close>.  The Noise state machine is the \<open>snow\<close>
  crate: its calls are the record \<open>snow\<close> of parameters over abstract handshake and transport states
  (a call returns its result and the state it leaves), and what the code relies on is \<open>snow_ok\<close>,
  the documented behaviour of the nonce counters.  A freshly built handshake takes the operating
  system's randomness as a number that is different for every build.
\<close>

section \<open>The snow crate\<close>

record ('hs, 'ts) snow =
  parse_params :: "string \<Rightarrow> bool"
  build_initiator :: "bytes \<Rightarrow> nat \<Rightarrow> string + 'hs"
  build_responder :: "bytes \<Rightarrow> nat \<Rightarrow> string + 'hs"
  hs_write_message :: "'hs \<Rightarrow> bytes \<Rightarrow> nat \<Rightarrow> (string + bytes) \<times> 'hs"
  hs_read_message :: "'hs \<Rightarrow> bytes \<Rightarrow> nat \<Rightarrow> (string + bytes) \<times> 'hs"
  is_handshake_finished :: "'hs \<Rightarrow> bool"
  hs_remote_static :: "'hs \<Rightarrow> bytes option"
  into_transport_mode :: "'hs \<Rightarrow> string + 'ts"
  ts_remote_static :: "'ts \<Rightarrow> bytes option"
  sending_nonce :: "'ts \<Rightarrow> u64"
  receiving_nonce :: "'ts \<Rightarrow> u64"
  set_receiving_nonce :: "'ts \<Rightarrow> u64 \<Rightarrow> 'ts"
  ts_write_message :: "'ts \<Rightarrow> bytes \<Rightarrow> nat \<Rightarrow> (string + bytes) \<times> 'ts"
  ts_read_message :: "'ts \<Rightarrow> bytes \<Rightarrow> nat \<Rightarrow> (string + bytes) \<times> 'ts"

section \<open>Sessions\<close>

definition PATTERN :: string where "PATTERN = ''Noise_XX_25519_ChaChaPoly_SHA256''"

datatype ('hs, 'ts) inner = Handshake 'hs | Transport 'ts | Poisoned

record ('hs, 'ts) noise_session =
  inner :: "('hs, 'ts) inner"
  initiator :: bool

type_synonym 'a result = "mesh_error + 'a"

definition new_initiator :: "('hs, 'ts) snow \<Rightarrow> bytes \<Rightarrow> nat \<Rightarrow> ('hs, 'ts) noise_session result" where
  "new_initiator sn local_private entropy =
     (if \<not> parse_params sn PATTERN then Inl (NoiseErr ''bad noise params'')
      else case build_initiator sn local_private entropy of
             Inl e \<Rightarrow> Inl (NoiseErr e)
           | Inr hs \<Rightarrow> Inr \<lparr>inner = Handshake hs, initiator = True\<rparr>)"

definition new_responder :: "('hs, 'ts) snow \<Rightarrow> bytes \<Rightarrow> nat \<Rightarrow> ('hs, 'ts) noise_session result" where
  "new_responder sn local_private entropy =
     (if \<not> parse_params sn PATTERN then Inl (NoiseErr ''bad noise params'')
      else case build_responder sn local_private entropy of
             Inl e \<Rightarrow> Inl (NoiseErr e)
           | Inr hs \<Rightarrow> Inr \<lparr>inner = Handshake hs, initiator = False\<rparr>)"

definition is_ready :: "('hs, 'ts) noise_session \<Rightarrow> bool" where
  "is_ready s = (case inner s of Transport _ \<Rightarrow> True | _ \<Rightarrow> False)"

definition is_handshaking :: "('hs, 'ts) noise_session \<Rightarrow> bool" where
  "is_handshaking s = (case inner s of Handshake _ \<Rightarrow> True | _ \<Rightarrow> False)"

definition remote_static :: "('hs, 'ts) snow \<Rightarrow> ('hs, 'ts) noise_session \<Rightarrow> bytes option" where
  "remote_static sn s =
     (case (case inner s of
              Handshake hs \<Rightarrow> hs_remote_static sn hs
            | Transport ts \<Rightarrow> ts_remote_static sn ts
            | Poisoned \<Rightarrow> None) of
        None \<Rightarrow> None
      | Some rs \<Rightarrow> if length rs = 32 then Some rs else None)"

definition maybe_transition ::
  "('hs, 'ts) snow \<Rightarrow> ('hs, 'ts) noise_session \<Rightarrow> unit result \<times> ('hs, 'ts) noise_session" where
  "maybe_transition sn s =
     (case inner s of
        Handshake hs \<Rightarrow>
          if is_handshake_finished sn hs
          then (case into_transport_mode sn hs of
                  Inl e \<Rightarrow> (Inl (NoiseErr e), s\<lparr>inner := Poisoned\<rparr>)
                | Inr ts \<Rightarrow> (Inr (), s\<lparr>inner := Transport ts\<rparr>))
          else (Inr (), s)
      | _ \<Rightarrow> (Inr (), s))"

definition write_handshake ::
  "('hs, 'ts) snow \<Rightarrow> ('hs, 'ts) noise_session \<Rightarrow> bytes result \<times> ('hs, 'ts) noise_session" where
  "write_handshake sn s =
     (case inner s of
        Handshake hs \<Rightarrow>
          (case hs_write_message sn hs [] 1024 of
             (Inl e, hs') \<Rightarrow> (Inl (NoiseErr e), s\<lparr>inner := Handshake hs'\<rparr>)
           | (Inr buf, hs') \<Rightarrow>
               (case maybe_transition sn (s\<lparr>inner := Handshake hs'\<rparr>) of
                  (Inl e, s') \<Rightarrow> (Inl e, s')
                | (Inr _, s') \<Rightarrow> (Inr buf, s')))
      | _ \<Rightarrow> (Inl (NoiseErr ''write_handshake after handshake''), s))"

definition read_handshake ::
  "('hs, 'ts) snow \<Rightarrow> ('hs, 'ts) noise_session \<Rightarrow> bytes \<Rightarrow> unit result \<times> ('hs, 'ts) noise_session" where
  "read_handshake sn s msg =
     (case inner s of
        Handshake hs \<Rightarrow>
          (case hs_read_message sn hs msg 1024 of
             (Inl e, hs') \<Rightarrow> (Inl (NoiseErr e), s\<lparr>inner := Handshake hs'\<rparr>)
           | (Inr _, hs') \<Rightarrow> maybe_transition sn (s\<lparr>inner := Handshake hs'\<rparr>))
      | _ \<Rightarrow> (Inl (NoiseErr ''read_handshake after handshake''), s))"

definition encrypt ::
  "('hs, 'ts) snow \<Rightarrow> ('hs, 'ts) noise_session \<Rightarrow> bytes \<Rightarrow> bytes result \<times> ('hs, 'ts) noise_session" where
  "encrypt sn s plaintext =
     (case inner s of
        Transport ts \<Rightarrow>
          (let nonce = sending_nonce sn ts in
           case ts_write_message sn ts plaintext (length plaintext + 64) of
             (Inl e, ts') \<Rightarrow> (Inl (NoiseErr e), s\<lparr>inner := Transport ts'\<rparr>)
           | (Inr c, ts') \<Rightarrow> (Inr (u64_to_be nonce @ c), s\<lparr>inner := Transport ts'\<rparr>))
      | _ \<Rightarrow> (Inl (NoiseErr ''encrypt before handshake complete''), s))"

definition decrypt ::
  "('hs, 'ts) snow \<Rightarrow> ('hs, 'ts) noise_session \<Rightarrow> bytes \<Rightarrow> bytes result \<times> ('hs, 'ts) noise_session" where
  "decrypt sn s payload =
     (case inner s of
        Transport ts \<Rightarrow>
          if length payload < 8 then (Inl (NoiseErr ''dm payload too short''), s)
          else
            let nonce = u64_from_be (take 8 payload);
                expected = receiving_nonce sn ts
            in if nonce < expected then (Inl (NoiseErr ''replayed or out-of-order dm nonce''), s)
               else
                 let ciphertext = drop 8 payload in
                 case ts_read_message sn (set_receiving_nonce sn ts nonce) ciphertext (length ciphertext + 64) of
                   (Inr buf, ts') \<Rightarrow> (Inr buf, s\<lparr>inner := Transport ts'\<rparr>)
                 | (Inl e, ts') \<Rightarrow> (Inl (NoiseErr e), s\<lparr>inner := Transport (set_receiving_nonce sn ts' expected)\<rparr>)
      | _ \<Rightarrow> (Inl (NoiseErr ''decrypt before handshake complete''), s))"

section \<open>What the code relies on\<close>

text \<open>Of the transport state: a successful read or write advances its own counter by one and fails
  rather than wrap, a failed read leaves the state as it was, setting the receive counter changes
  nothing else, and the static key learnt in the handshake is kept.\<close>

definition snow_ok :: "('hs, 'ts) snow \<Rightarrow> bool" where
  "snow_ok sn \<longleftrightarrow>
     (\<forall>ts n. receiving_nonce sn (set_receiving_nonce sn ts n) = n)
     \<and> (\<forall>ts n. sending_nonce sn (set_receiving_nonce sn ts n) = sending_nonce sn ts)
     \<and> (\<forall>ts n. ts_remote_static sn (set_receiving_nonce sn ts n) = ts_remote_static sn ts)
     \<and> (\<forall>ts n m. set_receiving_nonce sn (set_receiving_nonce sn ts n) m = set_receiving_nonce sn ts m)
     \<and> (\<forall>ts. set_receiving_nonce sn ts (receiving_nonce sn ts) = ts)
     \<and> (\<forall>ts c b p ts'. ts_read_message sn ts c b = (Inr p, ts') \<longrightarrow>
          receiving_nonce sn ts < - 1 \<and> receiving_nonce sn ts' = receiving_nonce sn ts + 1
          \<and> sending_nonce sn ts' = sending_nonce sn ts \<and> ts_remote_static sn ts' = ts_remote_static sn ts)
     \<and> (\<forall>ts c b e ts'. ts_read_message sn ts c b = (Inl e, ts') \<longrightarrow> ts' = ts)
     \<and> (\<forall>ts p b c ts'. ts_write_message sn ts p b = (Inr c, ts') \<longrightarrow>
          sending_nonce sn ts' = sending_nonce sn ts + 1 \<and> receiving_nonce sn ts' = receiving_nonce sn ts
          \<and> sending_nonce sn ts < - 1 \<and> ts_remote_static sn ts' = ts_remote_static sn ts)
     \<and> (\<forall>ts p b e ts'. ts_write_message sn ts p b = (Inl e, ts') \<longrightarrow> ts' = ts)
     \<and> (\<forall>hs ts. into_transport_mode sn hs = Inr ts \<longrightarrow> ts_remote_static sn ts = hs_remote_static sn hs)"

text \<open>Of the cipher: what one side writes under a counter the other reads under that counter, whatever
  either side has done since, as long as it is the same session.\<close>

definition cipher_pair :: "('hs, 'ts) snow \<Rightarrow> ('ts \<Rightarrow> bool) \<Rightarrow> ('ts \<Rightarrow> bool) \<Rightarrow> bool" where
  "cipher_pair sn A B \<longleftrightarrow>
     (\<forall>ts p b c ts'. A ts \<longrightarrow> ts_write_message sn ts p b = (Inr c, ts') \<longrightarrow>
        A ts' \<and> (\<forall>us. B us \<longrightarrow> receiving_nonce sn us = sending_nonce sn ts \<longrightarrow>
           (\<exists>us'. ts_read_message sn us c (length c + 64) = (Inr p, us') \<and> B us')))
     \<and> (\<forall>us n. B us \<longrightarrow> B (set_receiving_nonce sn us n))"

section \<open>Lemmas\<close>

lemma snow_okD:
  assumes "snow_ok sn"
  shows "receiving_nonce sn (set_receiving_nonce sn ts n) = n"
    "sending_nonce sn (set_receiving_nonce sn ts n) = sending_nonce sn ts"
    "ts_remote_static sn (set_receiving_nonce sn ts n) = ts_remote_static sn ts"
    "set_receiving_nonce sn (set_receiving_nonce sn ts n) m = set_receiving_nonce sn ts m"
    "set_receiving_nonce sn ts (receiving_nonce sn ts) = ts"
    "into_transport_mode sn hs = Inr ts \<Longrightarrow> ts_remote_static sn ts = hs_remote_static sn hs"
  using assms unfolding snow_ok_def by simp_all

lemma snow_ok_read:
  assumes "snow_ok sn" "ts_read_message sn ts c b = (res, ts')"
  shows "case res of Inl e \<Rightarrow> ts' = ts
    | Inr p \<Rightarrow> receiving_nonce sn ts < - 1 \<and> receiving_nonce sn ts' = receiving_nonce sn ts + 1
        \<and> sending_nonce sn ts' = sending_nonce sn ts \<and> ts_remote_static sn ts' = ts_remote_static sn ts"
  using assms unfolding snow_ok_def by (cases res) simp_all

lemma snow_ok_write:
  assumes "snow_ok sn" "ts_write_message sn ts p b = (res, ts')"
  shows "case res of Inl e \<Rightarrow> ts' = ts
    | Inr c \<Rightarrow> sending_nonce sn ts < - 1 \<and> sending_nonce sn ts' = sending_nonce sn ts + 1
        \<and> receiving_nonce sn ts' = receiving_nonce sn ts \<and> ts_remote_static sn ts' = ts_remote_static sn ts"
  using assms unfolding snow_ok_def by (cases res) simp_all

text \<open>The counter of a payload and the receive window of a session.\<close>

definition payload_nonce :: "bytes \<Rightarrow> u64" where
  "payload_nonce payload = u64_from_be (take 8 payload)"

definition recv_window :: "('hs, 'ts) snow \<Rightarrow> ('hs, 'ts) noise_session \<Rightarrow> u64" where
  "recv_window sn s = (case inner s of Transport ts \<Rightarrow> receiving_nonce sn ts | _ \<Rightarrow> 0)"

lemma decrypt_Inl:
  assumes "snow_ok sn" "decrypt sn s p = (Inl e, s')"
  shows "s' = s"
proof (cases "inner s")
  case (Transport ts)
  show ?thesis
  proof (cases "length p < 8 \<or> payload_nonce p < receiving_nonce sn ts")
    case True
    with Transport assms(2) show ?thesis by (auto simp: decrypt_def payload_nonce_def Let_def split: if_splits)
  next
    case False
    let ?us = "set_receiving_nonce sn ts (payload_nonce p)"
    obtain res ts' where rd: "ts_read_message sn ?us (drop 8 p) (length (drop 8 p) + 64) = (res, ts')" by fastforce
    with False Transport assms(2) obtain e' where "res = Inl e'"
      "s' = s\<lparr>inner := Transport (set_receiving_nonce sn ts' (receiving_nonce sn ts))\<rparr>"
      by (auto simp: decrypt_def payload_nonce_def Let_def split: sum.splits)
    with snow_ok_read [OF assms(1) rd] Transport show ?thesis by (simp add: snow_okD [OF assms(1)])
  qed
qed (use assms(2) in \<open>auto simp: decrypt_def\<close>)

lemma decrypt_Inr:
  assumes "snow_ok sn" "decrypt sn s p = (Inr m, s')"
  shows "is_ready s" "is_ready s'" "recv_window sn s \<le> payload_nonce p" "payload_nonce p < - 1"
    "recv_window sn s' = payload_nonce p + 1" "remote_static sn s' = remote_static sn s"
proof -
  obtain ts where ts: "inner s = Transport ts" using assms(2) by (auto simp: decrypt_def split: inner.splits)
  have g: "\<not> length p < 8" "\<not> payload_nonce p < receiving_nonce sn ts"
    using assms(2) ts by (auto simp: decrypt_def payload_nonce_def Let_def split: if_splits)
  let ?us = "set_receiving_nonce sn ts (payload_nonce p)"
  obtain res ts' where rd: "ts_read_message sn ?us (drop 8 p) (length (drop 8 p) + 64) = (res, ts')" by fastforce
  with g ts assms(2) have r: "res = Inr m" "s' = s\<lparr>inner := Transport ts'\<rparr>"
    by (auto simp: decrypt_def payload_nonce_def Let_def split: sum.splits)
  note f = snow_ok_read [OF assms(1) rd, unfolded r, simplified]
  show "is_ready s" "is_ready s'" using ts r by (simp_all add: is_ready_def)
  show "recv_window sn s \<le> payload_nonce p" using ts g by (simp add: recv_window_def)
  show "payload_nonce p < - 1" "recv_window sn s' = payload_nonce p + 1" "remote_static sn s' = remote_static sn s"
    using f ts r by (simp_all add: recv_window_def remote_static_def snow_okD [OF assms(1)])
qed

lemma word_less_plus_one: "(n :: u64) < - 1 \<Longrightarrow> n < n + 1"
  using unat_bound [of n] by (simp add: word_less_nat_alt unat_word_ariths unsigned_minus_1_eq_mask mask_eq_exp_minus_1)

lemma decrypt_window_mono: "snow_ok sn \<Longrightarrow> recv_window sn s \<le> recv_window sn (snd (decrypt sn s p))"
proof (cases "decrypt sn s p")
  case (Pair res s')
  assume sn: "snow_ok sn"
  show ?thesis
  proof (cases res)
    case (Inl e)
    with decrypt_Inl [OF sn, of s p e s'] Pair show ?thesis by simp
  next
    case (Inr m)
    with decrypt_Inr [OF sn] Pair word_less_plus_one [of "payload_nonce p"] show ?thesis by fastforce
  qed
qed

fun decrypt_all :: "('hs, 'ts) snow \<Rightarrow> ('hs, 'ts) noise_session \<Rightarrow> bytes list \<Rightarrow> bytes result list \<times> ('hs, 'ts) noise_session" where
  "decrypt_all sn s [] = ([], s)"
| "decrypt_all sn s (p # ps) =
     (let (r, s1) = decrypt sn s p; (rs, s2) = decrypt_all sn s1 ps in (r # rs, s2))"

fun encrypt_all :: "('hs, 'ts) snow \<Rightarrow> ('hs, 'ts) noise_session \<Rightarrow> bytes list \<Rightarrow> bytes result list \<times> ('hs, 'ts) noise_session" where
  "encrypt_all sn s [] = ([], s)"
| "encrypt_all sn s (p # ps) =
     (let (r, s1) = encrypt sn s p; (rs, s2) = encrypt_all sn s1 ps in (r # rs, s2))"

lemma decrypt_all_window: "snow_ok sn \<Longrightarrow> recv_window sn s \<le> recv_window sn (snd (decrypt_all sn s ps))"
proof (induction ps arbitrary: s)
  case (Cons p ps)
  from Cons.IH [OF Cons.prems, of "snd (decrypt sn s p)"] decrypt_window_mono [OF Cons.prems, of s p]
  show ?case by (simp add: case_prod_beta)
qed simp

lemma old_nonce_rejected:
  assumes "snow_ok sn" "payload_nonce p < recv_window sn s"
  shows "\<exists>e. decrypt sn s p = (Inl e, s)"
proof -
  obtain res s' where d: "decrypt sn s p = (res, s')" by fastforce
  show ?thesis
  proof (cases res)
    case (Inl e)
    with d decrypt_Inl [OF assms(1)] show ?thesis by blast
  next
    case (Inr m)
    with d decrypt_Inr(3) [OF assms(1)] assms(2) show ?thesis by fastforce
  qed
qed

text \<open>An instance of the parameters: the ciphertext is the counter followed by the plaintext.\<close>

definition counter_snow :: "(unit, u64 \<times> u64) snow" where
  "counter_snow =
     \<lparr>parse_params = (\<lambda>_. True), build_initiator = (\<lambda>_ _. Inr ()), build_responder = (\<lambda>_ _. Inr ()),
      hs_write_message = (\<lambda>hs _ _. (Inr [], hs)), hs_read_message = (\<lambda>hs _ _. (Inr [], hs)),
      is_handshake_finished = (\<lambda>_. True), hs_remote_static = (\<lambda>_. None),
      into_transport_mode = (\<lambda>_. Inr (0, 0)), ts_remote_static = (\<lambda>_. None),
      sending_nonce = fst, receiving_nonce = snd, set_receiving_nonce = (\<lambda>(s, r) n. (s, n)),
      ts_write_message = (\<lambda>(s, r) p _. if s = - 1 then (Inl ''exhausted'', (s, r)) else (Inr (u64_to_be s @ p), (s + 1, r))),
      ts_read_message = (\<lambda>(s, r) c _. if r = - 1 \<or> take 8 c \<noteq> u64_to_be r then (Inl ''decrypt'', (s, r))
                                       else (Inr (drop 8 c), (s, r + 1)))\<rparr>"

lemma less_minus_1_iff: "(n :: u64) < - 1 \<longleftrightarrow> n \<noteq> - 1"
  by (metis word_order.extremum_strict word_order.not_eq_extremum)

lemma counter_snow_ok: "snow_ok counter_snow"
  by (auto simp: snow_ok_def counter_snow_def less_minus_1_iff split: if_splits)

lemma counter_decrypt:
  "r \<le> n \<Longrightarrow> n \<noteq> - 1 \<Longrightarrow> decrypt counter_snow \<lparr>inner = Transport (a, r), initiator = i\<rparr> (u64_to_be n @ u64_to_be n @ p) =
     (Inr p, \<lparr>inner = Transport (a, n + 1), initiator = i\<rparr>)"
  by (simp add: decrypt_def counter_snow_def Let_def not_less)

lemma counter_decrypt_junk:
  "r \<le> n \<Longrightarrow> length c < 8 \<Longrightarrow> decrypt counter_snow \<lparr>inner = Transport (a, r), initiator = i\<rparr> (u64_to_be n @ c) =
     (Inl (NoiseErr ''decrypt''), \<lparr>inner = Transport (a, r), initiator = i\<rparr>)"
proof -
  assume "r \<le> n" "length c < 8"
  then have "c \<noteq> u64_to_be n" by auto
  with \<open>r \<le> n\<close> \<open>length c < 8\<close> show ?thesis by (simp add: decrypt_def counter_snow_def Let_def not_less)
qed

lemma counter_snow_pair: "cipher_pair counter_snow (\<lambda>_. True) (\<lambda>_. True)"
  by (auto simp: cipher_pair_def counter_snow_def split: if_splits)

text \<open>Sender and receiver of the same session: the next payload is readable from any window that has not
  passed its counter.\<close>

lemma encrypt_decrypt:
  assumes "snow_ok sn" "cipher_pair sn A B" "inner s = Transport ts" "A ts" "inner r = Transport us" "B us"
    "receiving_nonce sn us \<le> sending_nonce sn ts" "encrypt sn s p = (Inr c, s')"
  shows "\<exists>ts' us' r'. inner s' = Transport ts' \<and> A ts' \<and> sending_nonce sn ts' = sending_nonce sn ts + 1
    \<and> sending_nonce sn ts < - 1
    \<and> decrypt sn r c = (Inr p, r') \<and> inner r' = Transport us' \<and> B us' \<and> receiving_nonce sn us' = sending_nonce sn ts + 1"
proof -
  obtain c' ts' where w: "ts_write_message sn ts p (length p + 64) = (Inr c', ts')"
    and c: "c = u64_to_be (sending_nonce sn ts) @ c'" "s' = s\<lparr>inner := Transport ts'\<rparr>"
    using assms(3,8) by (auto simp: encrypt_def Let_def split: prod.splits sum.splits)
  note wf = snow_ok_write [OF assms(1) w, simplified]
  let ?us = "set_receiving_nonce sn us (sending_nonce sn ts)"
  have "B ?us" "receiving_nonce sn ?us = sending_nonce sn ts"
    using assms(2,6) snow_okD(1) [OF assms(1)] by (auto simp: cipher_pair_def)
  then obtain us' where rd: "ts_read_message sn ?us c' (length c' + 64) = (Inr p, us')" "B us'" and "A ts'"
    using assms(2,4) w unfolding cipher_pair_def by blast
  note rf = snow_ok_read [OF assms(1) rd(1), simplified]
  have "u64_from_be (u64_to_be (sending_nonce sn ts)) = sending_nonce sn ts" by (rule u64_be_roundtrip)
  then have "decrypt sn r c = (Inr p, r\<lparr>inner := Transport us'\<rparr>)"
    using assms(5,7) rd(1) by (simp add: decrypt_def c(1) Let_def not_less)
  with wf rf c(2) rd(2) \<open>A ts'\<close> show ?thesis by (simp add: snow_okD [OF assms(1)])
qed

lemma lossy_link:
  assumes "snow_ok sn" "cipher_pair sn A B"
    and "inner s = Transport ts" "A ts" "inner r = Transport us" "B us" "receiving_nonce sn us \<le> sending_nonce sn ts"
    and "fst (encrypt_all sn s ps) = map Inr cs"
  shows "fst (decrypt_all sn r (nths cs I)) = map Inr (nths ps I)"
  using assms(3-)
proof (induction ps arbitrary: s r ts us cs I)
  case (Cons p ps)
  obtain x s' where x: "encrypt sn s p = (x, s')" by fastforce
  with Cons.prems(6) obtain c cs' where c: "x = Inr c" "cs = c # cs'" "fst (encrypt_all sn s' ps) = map Inr cs'"
    by (cases cs) (auto simp: case_prod_beta)
  obtain ts' us' r' where d: "inner s' = Transport ts'" "A ts'" "sending_nonce sn ts' = sending_nonce sn ts + 1"
    "sending_nonce sn ts < - 1"
    "decrypt sn r c = (Inr p, r')" "inner r' = Transport us'" "B us'" "receiving_nonce sn us' = sending_nonce sn ts + 1"
    using encrypt_decrypt [OF assms(1,2) Cons.prems(1-5), of p c s'] x c(1) by blast
  have le: "receiving_nonce sn us \<le> sending_nonce sn ts'"
    using Cons.prems(5) d(3) word_less_plus_one [OF d(4)] by simp
  show ?case
  proof (cases "0 \<in> I")
    case True
    have "fst (decrypt_all sn r' (nths cs' {j. Suc j \<in> I})) = map Inr (nths ps {j. Suc j \<in> I})"
      by (rule Cons.IH [OF d(1,2,6,7) _ c(3)]) (use d in simp)
    with True d(5) c(2) show ?thesis by (simp add: nths_Cons case_prod_beta)
  next
    case False
    have "fst (decrypt_all sn r (nths cs' {j. Suc j \<in> I})) = map Inr (nths ps {j. Suc j \<in> I})"
      by (rule Cons.IH [OF d(1,2) Cons.prems(3,4) le c(3)])
    with False c(2) show ?thesis by (simp add: nths_Cons)
  qed
qed simp

section \<open>Properties\<close>

text \<open>C24: a ciphertext is delivered at most once: after a payload has been decrypted, however many other
  payloads (genuine, forged or replayed) come in between, the same payload is refused and the refusal
  changes nothing.\<close>

theorem no_replay:
  assumes "snow_ok sn" "decrypt sn s p = (Inr m, s1)"
  shows "\<exists>e. decrypt sn (snd (decrypt_all sn s1 ps)) p = (Inl e, snd (decrypt_all sn s1 ps))"
proof -
  note d = decrypt_Inr [OF assms]
  have "payload_nonce p < recv_window sn s1" using d(4,5) word_less_plus_one by simp
  also have "\<dots> \<le> recv_window sn (snd (decrypt_all sn s1 ps))" by (rule decrypt_all_window [OF assms(1)])
  finally show ?thesis by (rule old_nonce_rejected [OF assms(1)])
qed

theorem no_replay_witness:
  "\<exists>e. decrypt counter_snow (snd (decrypt_all counter_snow \<lparr>inner = Transport (0, 4), initiator = True\<rparr> [u64_to_be 7 @ []]))
     (u64_to_be 3 @ u64_to_be 3 @ [9]) = (Inl e, \<lparr>inner = Transport (0, 4), initiator = True\<rparr>)"
  using no_replay [OF counter_snow_ok counter_decrypt [of 1 3 0 True "[9]"], of "[u64_to_be 7 @ []]"]
    counter_decrypt_junk [of 4 7 "[]" 0 True] by simp

text \<open>A payload that fails to decrypt (forged, corrupt, too short, too old) leaves the session exactly
  as it was, so junk cannot move the receive window and lock the genuine peer out.\<close>

theorem junk_changes_nothing:
  assumes "snow_ok sn" "fst (decrypt sn s p) = Inl e"
  shows "snd (decrypt sn s p) = s"
  using decrypt_Inl [OF assms(1), of s p e "snd (decrypt sn s p)"] assms(2) by (metis prod.collapse)


theorem junk_changes_nothing_witness:
  "snd (decrypt counter_snow \<lparr>inner = Transport (0, 4), initiator = True\<rparr> (u64_to_be 7 @ [1, 2])) =
     \<lparr>inner = Transport (0, 4), initiator = True\<rparr>"
  using junk_changes_nothing [OF counter_snow_ok, of "\<lparr>inner = Transport (0, 4), initiator = True\<rparr>" "u64_to_be 7 @ [1, 2]"]
    counter_decrypt_junk [of 4 7 "[1, 2]" 0 True] by simp

text \<open>C28: a lost ciphertext is only a gap: whichever of the messages one side encrypts arrive, in order, the
  other side decrypts each of them to what was sent.\<close>

theorem losses_are_gaps:
  assumes "snow_ok sn" "cipher_pair sn A B"
    and "inner s = Transport ts" "A ts" "inner r = Transport us" "B us" "receiving_nonce sn us \<le> sending_nonce sn ts"
    and "fst (encrypt_all sn s ps) = map Inr cs"
  shows "fst (decrypt_all sn r (nths cs I)) = map Inr (nths ps I)"
  by (rule lossy_link [OF assms])

theorem losses_are_gaps_witness:
  "fst (decrypt_all counter_snow \<lparr>inner = Transport (0, 0), initiator = False\<rparr>
     (nths [u64_to_be 0 @ u64_to_be 0 @ [1], u64_to_be 1 @ u64_to_be 1 @ [2], u64_to_be 2 @ u64_to_be 2 @ [3]] {0, 2}))
   = map Inr (nths [[1], [2], [3]] {0, 2})"
proof (rule losses_are_gaps [OF counter_snow_ok counter_snow_pair])
  show "fst (encrypt_all counter_snow \<lparr>inner = Transport (0, 0), initiator = True\<rparr> [[1], [2], [3]]) =
    map Inr [u64_to_be 0 @ u64_to_be 0 @ [1], u64_to_be 1 @ u64_to_be 1 @ [2], u64_to_be 2 @ u64_to_be 2 @ [3]]"
    by (simp add: encrypt_def counter_snow_def Let_def)
  show "receiving_nonce counter_snow (0, 0) \<le> sending_nonce counter_snow (0, 0)" by (simp add: counter_snow_def)
qed simp_all

text \<open>A session becomes ready only by finishing the handshake, and then reports the static key the
  handshake authenticated; a failed transition poisons the session for good.\<close>

theorem transition_keeps_remote_key:
  assumes "snow_ok sn" "\<not> is_ready s" "read_handshake sn s msg = (res, s')"
  shows "(is_ready s' \<longrightarrow> (\<exists>hs buf hs'. inner s = Handshake hs \<and> hs_read_message sn hs msg 1024 = (Inr buf, hs')
             \<and> is_handshake_finished sn hs' \<and> res = Inr ()
             \<and> remote_static sn s' = remote_static sn (s\<lparr>inner := Handshake hs'\<rparr>)))
    \<and> (inner s' = Poisoned \<longrightarrow> (\<exists>e. res = Inl e)
         \<and> (\<forall>m. \<exists>e. read_handshake sn s' m = (Inl e, s') \<and> write_handshake sn s' = (Inl (NoiseErr ''write_handshake after handshake''), s')
              \<and> fst (encrypt sn s' m) = Inl (NoiseErr ''encrypt before handshake complete'')
              \<and> fst (decrypt sn s' m) = Inl (NoiseErr ''decrypt before handshake complete'')))"
  using assms
  by (auto simp: read_handshake_def write_handshake_def maybe_transition_def is_ready_def remote_static_def
      encrypt_def decrypt_def snow_okD(6) [OF assms(1)] split: inner.splits prod.splits sum.splits if_splits)

theorem transition_keeps_remote_key_witness:
  "\<exists>hs buf hs'. inner \<lparr>inner = Handshake (), initiator = True\<rparr> = (Handshake hs :: (unit, u64 \<times> u64) inner)
     \<and> hs_read_message counter_snow hs [] 1024 = (Inr buf, hs')"
  using transition_keeps_remote_key [OF counter_snow_ok, of "\<lparr>inner = Handshake (), initiator = True\<rparr>" "[]"]
  by (simp add: is_ready_def read_handshake_def maybe_transition_def counter_snow_def)

end
