(* ===== verification/Payload.thy ===== *)
theory Payload
  imports Noise
begin

text \<open>
  The payloads of the packets a node exchanges, from the helpers at the end of
  \<open>crates/meshcore/src/node.rs\<close>: announce, channel message and sync request.  The decoders slice
  untrusted bytes, so they return an \<open>outcome\<close>; none of the slices is out of range.
\<close>

section \<open>Encoders and decoders\<close>

definition encode_announce :: "bytes \<Rightarrow> bytes \<Rightarrow> rstring \<Rightarrow> bytes" where
  "encode_announce ed_pub dh_pub nick =
     (let n = min (length nick) 24 in ed_pub @ dh_pub @ [of_nat n] @ take n nick)"

definition decode_announce :: "bytes \<Rightarrow> (bytes \<times> bytes \<times> rstring) option outcome" where
  "decode_announce payload =
     (if length payload < 65 then Ret None
      else
        and_then (bslice payload 0 32) (\<lambda>ed.
        and_then (bslice payload 32 64) (\<lambda>dh.
        and_then (index payload 64) (\<lambda>nb.
          let n = unat nb in
          if 65 + n > length payload then Ret None
          else and_then (bslice payload 65 (65 + n)) (\<lambda>nick. Ret (Some (ed, dh, from_utf8_lossy nick)))))))"

definition encode_channel :: "(bytes \<Rightarrow> bytes) \<Rightarrow> rstring \<Rightarrow> rstring \<Rightarrow> tunables \<Rightarrow> bytes" where
  "encode_channel lz4_compress channel txt cfg =
     (let clen = min (length channel) 255;
          (compressed, body) =
            (case maybe_compress lz4_compress txt cfg of Some c \<Rightarrow> (1, c) | None \<Rightarrow> (0, txt))
      in [compressed, of_nat clen] @ take clen channel @ body)"

definition decode_channel ::
  "(bytes \<Rightarrow> nat \<Rightarrow> string + bytes) \<Rightarrow> bytes \<Rightarrow> tunables \<Rightarrow> (rstring \<times> rstring) option outcome" where
  "decode_channel lz4_decompress payload cfg =
     (if length payload < 2 then Ret None
      else
        and_then (index payload 0) (\<lambda>compressed.
        and_then (index payload 1) (\<lambda>cb.
          let clen = unat cb in
          if 2 + clen > length payload then Ret None
          else
            and_then (bslice payload 2 (2 + clen)) (\<lambda>chan.
            and_then (bslice payload (2 + clen) (length payload)) (\<lambda>body.
              if compressed = 1
              then and_then (decompress lz4_decompress body cfg) (\<lambda>res.
                     Ret (case res of
                            Inl _ \<Rightarrow> None
                          | Inr txt \<Rightarrow> Some (from_utf8_lossy chan, from_utf8_lossy txt)))
              else Ret (Some (from_utf8_lossy chan, from_utf8_lossy body)))))))"

definition encode_sync :: "sync_filter \<Rightarrow> bytes" where
  "encode_sync f =
     (let clen = min (length (sf_channel f)) 255
      in [of_nat clen] @ take clen (sf_channel f) @ concat (sf_digests f))"

definition decode_sync :: "bytes \<Rightarrow> sync_filter option outcome" where
  "decode_sync payload =
     (if payload = [] then Ret None
      else
        and_then (index payload 0) (\<lambda>cb.
          let clen = unat cb in
          if 1 + clen > length payload then Ret None
          else
            and_then (bslice payload 1 (1 + clen)) (\<lambda>chan.
            and_then (bslice payload (1 + clen) (length payload)) (\<lambda>rest.
              Ret (Some (sync_filter_new (from_utf8_lossy chan) (chunks_exact 8 rest)))))))"

section \<open>Lemmas\<close>

lemma decode_announce_total: "\<exists>r. decode_announce payload = Ret r
    \<and> (\<forall>ed dh nick. r = Some (ed, dh, nick) \<longrightarrow> length ed = 32 \<and> length dh = 32)"
  by (auto simp: decode_announce_def Let_def)

lemma decode_channel_total: "\<exists>r. decode_channel dec payload cfg = Ret r"
proof -
  obtain x where "decompress dec (drop (2 + unat (payload ! 1)) payload) cfg = Ret x"
    using decompress_total by blast
  moreover have "index payload 0 = Ret (payload ! 0)" if "\<not> length payload < 2" using that by (intro index_Ret) linarith
  ultimately show ?thesis by (simp add: decode_channel_def Let_def)
qed

lemma decode_sync_total: "\<exists>r. decode_sync payload = Ret r"
  by (auto simp: decode_sync_def Let_def)

lemma unat_u8_of_nat: "n < 256 \<Longrightarrow> unat (of_nat n :: u8) = n"
  by (simp add: unat_of_nat)

lemma decode_encode_announce:
  assumes "length ed = 32" "length dh = 32"
  shows "decode_announce (encode_announce ed dh nick) = Ret (Some (ed, dh, from_utf8_lossy (take 24 nick)))"
proof -
  let ?n = "min (length nick) 24"
  have n: "unat (of_nat ?n :: u8) = ?n" by (rule unat_u8_of_nat) simp
  have "take ?n nick = take 24 nick" by (simp add: min_def)
  then show ?thesis
    using assms n by (simp add: decode_announce_def encode_announce_def Let_def nth_append)
qed

lemma decode_encode_channel:
  assumes "length channel \<le> 255" "lz4_roundtrip lz4_compress lz4_decompress"
    "length txt \<le> decompress_max_bytes cfg'" "length txt < 2 ^ 32"
  shows "decode_channel lz4_decompress (encode_channel lz4_compress channel txt cfg) cfg' =
    Ret (Some (from_utf8_lossy channel, from_utf8_lossy txt))"
proof -
  let ?body = "case maybe_compress lz4_compress txt cfg of Some c \<Rightarrow> c | None \<Rightarrow> txt"
  let ?flag = "(case maybe_compress lz4_compress txt cfg of Some c \<Rightarrow> 1 | None \<Rightarrow> 0) :: u8"
  have n: "unat (of_nat (length channel) :: u8) = length channel" using assms(1) by (simp add: unat_u8_of_nat)
  have e: "encode_channel lz4_compress channel txt cfg = [?flag, of_nat (length channel)] @ channel @ ?body"
    using assms(1) by (simp add: encode_channel_def Let_def min_def split: option.splits)
  show ?thesis
  proof (cases "maybe_compress lz4_compress txt cfg")
    case None
    then show ?thesis unfolding e using n by (simp add: decode_channel_def Let_def)
  next
    case (Some c)
    have "decompress lz4_decompress c cfg' = Ret (Inr txt)"
      using decompress_compressed [OF assms(2) Some assms(4)] assms(3) by simp
    with Some show ?thesis unfolding e using n by (simp add: decode_channel_def Let_def)
  qed
qed

lemma decode_encode_sync:
  assumes "length (sf_channel f) \<le> 255" "\<forall>d \<in> set (sf_digests f). length d = 8"
  shows "decode_sync (encode_sync f) = Ret (Some (sync_filter_new (from_utf8_lossy (sf_channel f)) (sf_digests f)))"
proof -
  have n: "unat (of_nat (length (sf_channel f)) :: u8) = length (sf_channel f)" using assms(1) by (simp add: unat_u8_of_nat)
  have e: "encode_sync f = [of_nat (length (sf_channel f))] @ sf_channel f @ concat (sf_digests f)"
    using assms(1) by (simp add: encode_sync_def Let_def min_def)
  show ?thesis unfolding e using n chunks_exact_concat [OF _ assms(2)] by (simp add: decode_sync_def Let_def)
qed

section \<open>Properties\<close>

text \<open>The payloads a node sends are read back as they were meant: an announce with its two keys and the
  first 24 bytes of the nickname (which may end in a replacement character when the cut splits one), a
  channel message with its channel and text when the text is within the decompression cap, and a sync
  request with its set of digests.\<close>

theorem payload_roundtrips:
  assumes "length ed = 32" "length dh = 32"
    and "length channel \<le> 255" "valid_utf8 channel" "valid_utf8 txt"
    and "lz4_roundtrip lz4_compress lz4_decompress" "length txt \<le> decompress_max_bytes cfg'" "length txt < 2 ^ 32"
    and "\<forall>d \<in> set ds. length d = 8"
  shows "decode_announce (encode_announce ed dh nick) = Ret (Some (ed, dh, from_utf8_lossy (take 24 nick)))
    \<and> decode_channel lz4_decompress (encode_channel lz4_compress channel txt cfg) cfg' = Ret (Some (channel, txt))
    \<and> decode_sync (encode_sync (sync_filter_new channel ds)) = Ret (Some (sync_filter_new channel ds))"
proof -
  let ?f = "sync_filter_new channel ds"
  have "decode_sync (encode_sync ?f) = Ret (Some (sync_filter_new (from_utf8_lossy (sf_channel ?f)) (sf_digests ?f)))"
    by (rule decode_encode_sync) (use assms in \<open>auto simp: sync_filter_new_def\<close>)
  moreover have "sync_filter_new channel (sf_digests ?f) = ?f"
    using dedup_sorted [of "sort ds"]
    by (simp add: sync_filter_new_def dedup_id sorted_sort_id strict_sorted_imp_sorted)
  ultimately show ?thesis
    using decode_encode_announce [OF assms(1,2)] decode_encode_channel [OF assms(3,6-8)]
      from_utf8_lossy_valid [OF assms(4)] from_utf8_lossy_valid [OF assms(5)]
    by (simp add: sync_filter_new_def)
qed

theorem payload_roundtrips_witness:
  "decode_channel sevens_decompress (encode_channel sevens_compress [35, 99] (replicate 200 7) default_tunables) default_tunables =
     Ret (Some ([35, 99], replicate 200 7))"
proof -
  have v: "valid_utf8 [35, 99]" by code_simp
  have "valid_utf8 (replicate n 7)" for n
    by (induction n) (simp_all add: valid_utf8.simps [of "_ # _"] valid_utf8.simps [of "[]"] utf8_step_def utf8_at_def)
  then have w: "valid_utf8 (replicate 200 7)" .
  from payload_roundtrips [of "replicate 32 1" "replicate 32 2", OF _ _ _ v w sevens_roundtrip, where cfg' = default_tunables and cfg = default_tunables and nick = "[]" and ds = "[]"]
  show ?thesis by simp
qed

end
