(* ===== verification/Frag.thy ===== *)
theory Frag
  imports Config
begin

text \<open>
  Link-layer framing, \<open>crates/meshcore/src/frag.rs\<close>: splitting encoded packets into frames for a
  link's MTU and reassembling them.  \<open>ingest\<close> returns an \<open>outcome\<close>: the chunk index, the
  \<open>unwrap\<close> of the finished slot and the \<open>unwrap\<close> of every chunk are possible panics, and the
  invariant \<open>reassembler_ok\<close> shows that none of them happens.
\<close>

definition KIND_COMPLETE :: u8 where "KIND_COMPLETE = 1"
definition KIND_FRAGMENT :: u8 where "KIND_FRAGMENT = 2"
definition FRAG_HEADER :: nat where "FRAG_HEADER = 1 + 8 + 2 + 2"

definition fragment_frame :: "bytes \<Rightarrow> nat \<Rightarrow> nat \<Rightarrow> bytes \<Rightarrow> bytes" where
  "fragment_frame digest tot i chunk =
     KIND_FRAGMENT # digest @ u16_to_be (of_nat i) @ u16_to_be (of_nat tot) @ chunk"

definition frag_split :: "bytes \<Rightarrow> bytes \<Rightarrow> nat \<Rightarrow> frag_error + bytes list" where
  "frag_split packet_bytes digest mtu =
     (if mtu \<le> FRAG_HEADER then Inl (MtuTooSmall mtu)
      else if length packet_bytes < mtu then Inr [KIND_COMPLETE # packet_bytes]
      else
        let chunk_size = mtu - FRAG_HEADER;
            tot = div_ceil (length packet_bytes) chunk_size
        in if tot > 65535 then Inl (TooLarge (chunk_size * 65535))
           else Inr (map (\<lambda>(i, chunk). fragment_frame digest tot i chunk)
                       (enumerate 0 (chunks chunk_size packet_bytes))))"

record partial =
  pt_total :: u16
  pt_received :: nat
  pt_chunks :: "bytes option list"
  pt_bytes :: nat
  pt_first_seen_ms :: millis

record reassembler =
  slots :: "(bytes, partial) bmap"
  r_cfg :: tunables

definition reassembler_new :: "tunables \<Rightarrow> reassembler" where
  "reassembler_new cfg = \<lparr>slots = [], r_cfg = cfg\<rparr>"

definition in_flight :: "reassembler \<Rightarrow> nat" where
  "in_flight r = length (slots r)"

definition evict_oldest_slot :: "(bytes, partial) bmap \<Rightarrow> (bytes, partial) bmap" where
  "evict_oldest_slot m = evict_min pt_first_seen_ms m"

fun join_chunks :: "bytes option list \<Rightarrow> bytes outcome" where
  "join_chunks [] = Ret []"
| "join_chunks (c # cs) =
     and_then (unwrap c) (\<lambda>b. and_then (join_chunks cs) (\<lambda>bs. Ret (b @ bs)))"

definition store_chunk :: "partial \<Rightarrow> nat \<Rightarrow> bytes \<Rightarrow> partial" where
  "store_chunk e i chunk =
     e\<lparr>pt_chunks := (pt_chunks e)[i := Some chunk], pt_received := pt_received e + 1,
       pt_bytes := pt_bytes e + length chunk\<rparr>"

text \<open>The slot table after making room, and the entry the fragment goes to.\<close>

definition make_room :: "reassembler \<Rightarrow> bytes \<Rightarrow> (bytes, partial) bmap" where
  "make_room r d =
     (if \<not> bm_contains (slots r) d \<and> reassembly_slots (r_cfg r) \<le> length (slots r)
      then evict_oldest_slot (slots r) else slots r)"

definition slot_entry :: "(bytes, partial) bmap \<Rightarrow> bytes \<Rightarrow> u16 \<Rightarrow> millis \<Rightarrow> partial" where
  "slot_entry m d tot now_ms =
     (case bm_get m d of
        Some e \<Rightarrow> e
      | None \<Rightarrow> \<lparr>pt_total = tot, pt_received = 0, pt_chunks = replicate (unat tot) None,
                 pt_bytes = 0, pt_first_seen_ms = now_ms\<rparr>)"

text \<open>The body of \<open>ingest_fragment\<close> once the header fields are read.\<close>

definition ingest_chunk ::
  "reassembler \<Rightarrow> bytes \<Rightarrow> u16 \<Rightarrow> u16 \<Rightarrow> bytes \<Rightarrow> millis
    \<Rightarrow> ((frag_error + bytes option) \<times> reassembler) outcome" where
  "ingest_chunk r digest idx tot chunk now_ms =
     (if tot = 0 \<or> tot \<le> idx then Ret (Inl (BadIndex idx tot), r)
      else
        let m = make_room r digest;
            cap = reassembly_max_bytes (r_cfg r);
            entry = slot_entry m digest tot now_ms
        in if pt_total entry \<noteq> tot
           then Ret (Inl (BadIndex idx tot), r\<lparr>slots := bm_remove digest m\<rparr>)
           else and_then (index (pt_chunks entry) (unat idx)) (\<lambda>slot.
             if slot = None \<and> pt_bytes entry + length chunk > cap
             then Ret (Inl (TooLarge cap), r\<lparr>slots := bm_remove digest m\<rparr>)
             else
               let entry = (if slot = None then store_chunk entry (unat idx) chunk else entry);
                   m = bm_insert digest entry m
               in if pt_received entry = unat (pt_total entry)
                  then and_then (unwrap (bm_get m digest)) (\<lambda>fin.
                       and_then (join_chunks (pt_chunks fin)) (\<lambda>out.
                         Ret (Inr (Some out), r\<lparr>slots := bm_remove digest m\<rparr>)))
                  else Ret (Inr None, r\<lparr>slots := m\<rparr>)))"

definition ingest_fragment ::
  "reassembler \<Rightarrow> bytes \<Rightarrow> millis \<Rightarrow> ((frag_error + bytes option) \<times> reassembler) outcome" where
  "ingest_fragment r frame now_ms =
     (if length frame < FRAG_HEADER then Ret (Inr None, r)
      else
        and_then (bslice frame 1 9) (\<lambda>digest.
        and_then (bslice frame 9 11) (\<lambda>ib.
        and_then (bslice frame 11 13) (\<lambda>tb.
        and_then (bslice frame FRAG_HEADER (length frame)) (\<lambda>chunk.
          ingest_chunk r digest (u16_from_be ib) (u16_from_be tb) chunk now_ms)))))"

definition ingest ::
  "reassembler \<Rightarrow> bytes \<Rightarrow> millis \<Rightarrow> ((frag_error + bytes option) \<times> reassembler) outcome" where
  "ingest r frame now_ms =
     (if frame = [] then Ret (Inr None, r)
      else
        and_then (index frame 0) (\<lambda>kind.
          if kind = KIND_COMPLETE
          then and_then (bslice frame 1 (length frame)) (\<lambda>body. Ret (Inr (Some body), r))
          else if kind = KIND_FRAGMENT then ingest_fragment r frame now_ms
          else Ret (Inr None, r)))"

definition evict_expired_slots :: "reassembler \<Rightarrow> millis \<Rightarrow> nat \<times> reassembler" where
  "evict_expired_slots r now_ms =
     (let timeout = reassembly_timeout_ms (r_cfg r);
          m = bm_retain (\<lambda>_ p. saturating_sub now_ms (pt_first_seen_ms p) < timeout) (slots r)
      in (length (slots r) - length m, r\<lparr>slots := m\<rparr>))"

text \<open>Feeding frames one after the other, as the link delivers them.\<close>

fun ingest_all ::
  "reassembler \<Rightarrow> (bytes \<times> millis) list \<Rightarrow> ((frag_error + bytes option) list \<times> reassembler) outcome" where
  "ingest_all r [] = Ret ([], r)"
| "ingest_all r ((f, t) # fs) =
     and_then (ingest r f t) (\<lambda>(res, r'). and_then (ingest_all r' fs) (\<lambda>(rest, r''). Ret (res # rest, r'')))"

section \<open>Invariant and absence of panics\<close>

definition chunks_received :: "bytes option list \<Rightarrow> nat" where
  "chunks_received cs = length (filter (\<lambda>c. c \<noteq> None) cs)"

definition chunks_bytes :: "bytes option list \<Rightarrow> nat" where
  "chunks_bytes cs = sum_list (map (\<lambda>c. case c of None \<Rightarrow> 0 | Some b \<Rightarrow> length b) cs)"

definition partial_ok :: "tunables \<Rightarrow> partial \<Rightarrow> bool" where
  "partial_ok cfg p \<longleftrightarrow>
     length (pt_chunks p) = unat (pt_total p)
     \<and> pt_received p = chunks_received (pt_chunks p) \<and> pt_received p < unat (pt_total p)
     \<and> pt_bytes p = chunks_bytes (pt_chunks p) \<and> pt_bytes p \<le> reassembly_max_bytes cfg"

definition reassembler_ok :: "reassembler \<Rightarrow> bool" where
  "reassembler_ok r \<longleftrightarrow>
     bm_ok (slots r) \<and> length (slots r) \<le> max 1 (reassembly_slots (r_cfg r))
     \<and> (\<forall>p \<in> snd ` set (slots r). partial_ok (r_cfg r) p)"

lemma chunks_received_le: "chunks_received cs \<le> length cs"
  by (simp add: chunks_received_def)

lemma chunks_received_full: "chunks_received cs = length cs \<longleftrightarrow> None \<notin> set cs"
proof -
  have "chunks_received cs = length cs \<longleftrightarrow> (\<forall>c \<in> set cs. c \<noteq> None)"
    unfolding chunks_received_def by (metis (mono_tags, lifting) filter_True length_filter_less less_irrefl)
  then show ?thesis by auto
qed

lemma chunks_received_replicate [simp]: "chunks_received (replicate n None) = 0"
  by (simp add: chunks_received_def)

lemma chunks_bytes_replicate [simp]: "chunks_bytes (replicate n None) = 0"
  by (simp add: chunks_bytes_def)

lemma chunks_received_update:
  "i < length cs \<Longrightarrow> cs ! i = None \<Longrightarrow> chunks_received (cs[i := Some b]) = Suc (chunks_received cs)"
  unfolding chunks_received_def by (induction cs arbitrary: i) (auto split: nat.splits)

lemma chunks_bytes_update:
  "i < length cs \<Longrightarrow> cs ! i = None \<Longrightarrow> chunks_bytes (cs[i := Some b]) = chunks_bytes cs + length b"
  unfolding chunks_bytes_def by (induction cs arbitrary: i) (auto split: nat.splits)

lemma join_chunks_full: "None \<notin> set cs \<Longrightarrow> join_chunks cs = Ret (concat (map the cs))"
proof (induction cs)
  case (Cons c cs)
  then show ?case by (cases c) auto
qed simp

lemma length_join_chunks: "None \<notin> set cs \<Longrightarrow> length (concat (map the cs)) = chunks_bytes cs"
proof (induction cs)
  case (Cons c cs)
  then show ?case by (cases c) (auto simp: chunks_bytes_def)
qed (simp add: chunks_bytes_def)

text \<open>Evicting the oldest slot removes exactly one slot when there is one.\<close>

lemma evict_oldest_slot_facts:
  "set (evict_oldest_slot m) \<subseteq> set m"
  "bm_ok m \<Longrightarrow> bm_ok (evict_oldest_slot m)"
  "bm_ok m \<Longrightarrow> length (evict_oldest_slot m) = length m - 1"
  "bm_get m k = None \<Longrightarrow> bm_get (evict_oldest_slot m) k = None"
  by (simp_all add: evict_oldest_slot_def evict_min_subset evict_min_ok length_evict_min evict_min_get)

lemma make_room_ok:
  assumes "reassembler_ok r"
  shows "bm_ok (make_room r d)" and "\<forall>p \<in> snd ` set (make_room r d). partial_ok (r_cfg r) p"
    and "length (bm_insert d e (make_room r d)) \<le> max 1 (reassembly_slots (r_cfg r))"
proof -
  show ok: "bm_ok (make_room r d)" and "\<forall>p \<in> snd ` set (make_room r d). partial_ok (r_cfg r) p"
    using assms evict_oldest_slot_facts(1) [of "slots r"]
    by (auto simp: make_room_def reassembler_ok_def evict_oldest_slot_facts(2))
  show "length (bm_insert d e (make_room r d)) \<le> max 1 (reassembly_slots (r_cfg r))"
    using assms ok
    by (auto simp: length_bm_insert make_room_def reassembler_ok_def evict_oldest_slot_facts(2,3))
qed

lemma slot_entry_ok:
  assumes "reassembler_ok r" "tot \<noteq> 0"
  shows "partial_ok (r_cfg r) (slot_entry (make_room r d) d tot now_ms)"
proof (cases "bm_get (make_room r d) d")
  case None
  have "0 < unat tot" using assms(2) by (simp add: unat_gt_0)
  then show ?thesis using None by (simp add: slot_entry_def partial_ok_def)
next
  case (Some e)
  then have "e \<in> snd ` set (make_room r d)" by (force dest: map_of_SomeD)
  with make_room_ok(2) [OF assms(1), of d] Some show ?thesis by (auto simp: slot_entry_def)
qed

lemma reassembler_ok_insert:
  assumes "reassembler_ok r" "partial_ok (r_cfg r) e"
  shows "reassembler_ok (r\<lparr>slots := bm_insert d e (make_room r d)\<rparr>)"
  using make_room_ok [OF assms(1), of d] assms(2) bm_insert_values [of d e "make_room r d"]
  unfolding reassembler_ok_def by fastforce

lemma reassembler_ok_remove:
  assumes "reassembler_ok r"
  shows "reassembler_ok (r\<lparr>slots := bm_remove d (make_room r d)\<rparr>)"
proof -
  have "length (bm_remove d m) \<le> length (bm_insert d e m)" if "bm_ok m" for m and e :: partial
    using that by (simp add: length_bm_insert length_bm_remove bm_ok_distinct)
  then have "length (bm_remove d (make_room r d)) \<le> max 1 (reassembly_slots (r_cfg r))"
    using make_room_ok [OF assms, of d] by (meson order_trans)
  then show ?thesis
    using make_room_ok(1,2) [OF assms, of d] by (auto simp: reassembler_ok_def bm_remove_def bm_ok_filter)
qed

lemma bm_remove_insert: "bm_remove d (bm_insert d e m) = bm_remove d m"
  by (induction d e m rule: bm_insert.induct) (auto simp: bm_remove_def)

text \<open>Storing a chunk in an empty position: the counters stay exact.\<close>

lemma store_chunk_counts:
  assumes "partial_ok cfg e" "i < unat (pt_total e)" "pt_chunks e ! i = None"
    and "pt_bytes e + length c \<le> reassembly_max_bytes cfg"
  defines "e' \<equiv> store_chunk e i c"
  shows "pt_total e' = pt_total e" "length (pt_chunks e') = unat (pt_total e')"
    "pt_received e' = chunks_received (pt_chunks e')" "pt_bytes e' = chunks_bytes (pt_chunks e')"
    "pt_bytes e' \<le> reassembly_max_bytes cfg"
    "pt_received e' \<noteq> unat (pt_total e') \<Longrightarrow> partial_ok cfg e'"
  using assms
  by (auto simp: store_chunk_def partial_ok_def chunks_received_update chunks_bytes_update)

text \<open>The result of one fragment, on every branch, from a state that satisfies the invariant.\<close>

lemma ingest_chunk_cases:
  fixes r d idx tot c now_ms
  assumes ok: "reassembler_ok r" and hdr: "tot \<noteq> 0" "idx < tot"
  defines "m \<equiv> make_room r d"
  defines "e \<equiv> slot_entry m d tot now_ms"
  shows "ingest_chunk r d idx tot c now_ms =
    (if pt_total e \<noteq> tot then Ret (Inl (BadIndex idx tot), r\<lparr>slots := bm_remove d m\<rparr>)
     else if pt_chunks e ! unat idx \<noteq> None then Ret (Inr None, r\<lparr>slots := bm_insert d e m\<rparr>)
     else if pt_bytes e + length c > reassembly_max_bytes (r_cfg r)
       then Ret (Inl (TooLarge (reassembly_max_bytes (r_cfg r))), r\<lparr>slots := bm_remove d m\<rparr>)
     else let e' = store_chunk e (unat idx) c in
       if None \<in> set (pt_chunks e') then Ret (Inr None, r\<lparr>slots := bm_insert d e' m\<rparr>)
       else Ret (Inr (Some (concat (map the (pt_chunks e')))), r\<lparr>slots := bm_remove d m\<rparr>))"
proof -
  have pe: "partial_ok (r_cfg r) e" unfolding e_def m_def by (rule slot_entry_ok [OF ok hdr(1)])
  have i: "unat idx < unat tot" using hdr by (simp add: word_less_nat_alt)
  show ?thesis
  proof (cases "pt_total e = tot \<and> pt_chunks e ! unat idx = None
      \<and> pt_bytes e + length c \<le> reassembly_max_bytes (r_cfg r)")
    case False
    have "pt_received e \<noteq> unat (pt_total e)" using pe by (simp add: partial_ok_def)
    moreover have "unat idx < length (pt_chunks e)" if "pt_total e = tot"
      using pe i that by (simp add: partial_ok_def)
    ultimately show ?thesis
      using False hdr by (auto simp: ingest_chunk_def Let_def m_def [symmetric] e_def [symmetric] not_le)
  next
    case True
    then have i': "unat idx < unat (pt_total e)" using i by simp
    note st = store_chunk_counts [OF pe i', of c]
    have "pt_received (store_chunk e (unat idx) c) = unat tot
        \<longleftrightarrow> None \<notin> set (pt_chunks (store_chunk e (unat idx) c))"
      using True st(1-3) chunks_received_full [of "pt_chunks (store_chunk e (unat idx) c)"] by simp
    moreover have "unat idx < length (pt_chunks e)" using pe i' by (simp add: partial_ok_def)
    moreover have "pt_total (store_chunk e (unat idx) c) = pt_total e" by (simp add: store_chunk_def)
    ultimately show ?thesis
      using True hdr
      by (simp add: ingest_chunk_def Let_def m_def [symmetric] e_def [symmetric] not_le not_less
          join_chunks_full bm_remove_insert)
  qed
qed

lemma ingest_fragment_eq:
  assumes "FRAG_HEADER \<le> length f"
  shows "ingest_fragment r f now_ms =
    ingest_chunk r (take 8 (drop 1 f)) (u16_from_be (take 2 (drop 9 f))) (u16_from_be (take 2 (drop 11 f)))
      (drop FRAG_HEADER f) now_ms"
  using assms by (simp add: ingest_fragment_def FRAG_HEADER_def)

lemma ingest_eq:
  "ingest r f now_ms =
    (case f of [] \<Rightarrow> Ret (Inr None, r)
     | k # body \<Rightarrow>
         if k = KIND_COMPLETE then Ret (Inr (Some body), r)
         else if k = KIND_FRAGMENT then ingest_fragment r f now_ms else Ret (Inr None, r))"
  by (auto simp: ingest_def split: list.splits)

text \<open>One fragment: no panic, the invariant is kept, and what it returns is bounded.\<close>

lemma ingest_chunk_ok:
  assumes ok: "reassembler_ok r"
  shows "\<exists>res r'. ingest_chunk r d idx tot c now_ms = Ret (res, r') \<and> reassembler_ok r' \<and> r_cfg r' = r_cfg r
    \<and> (\<forall>out. res = Inr (Some out) \<longrightarrow> length out \<le> reassembly_max_bytes (r_cfg r))"
proof (cases "tot = 0 \<or> tot \<le> idx")
  case True
  with ok show ?thesis by (auto simp: ingest_chunk_def)
next
  case False
  then have hdr: "tot \<noteq> 0" "idx < tot" by auto
  define e where "e = slot_entry (make_room r d) d tot now_ms"
  have pe: "partial_ok (r_cfg r) e" unfolding e_def by (rule slot_entry_ok [OF ok hdr(1)])
  note rm = reassembler_ok_remove [OF ok, of d] and ins = reassembler_ok_insert [OF ok, of _ d]
  show ?thesis
  proof (cases "pt_total e = tot \<and> pt_chunks e ! unat idx = None
      \<and> pt_bytes e + length c \<le> reassembly_max_bytes (r_cfg r)")
    case False
    then show ?thesis
      using rm ins [OF pe] by (auto simp: ingest_chunk_cases [OF ok hdr] e_def [symmetric])
  next
    case True
    have "unat idx < unat (pt_total e)" using True hdr by (simp add: word_less_nat_alt)
    note st = store_chunk_counts [OF pe this, of c]
    let ?e = "store_chunk e (unat idx) c"
    have "partial_ok (r_cfg r) ?e" if "None \<in> set (pt_chunks ?e)"
      using that True st chunks_received_full [of "pt_chunks ?e"] by simp
    moreover have "length (concat (map the (pt_chunks ?e))) \<le> reassembly_max_bytes (r_cfg r)"
      if "None \<notin> set (pt_chunks ?e)"
      using that True st(4,5) by (simp add: length_join_chunks)
    ultimately show ?thesis
      using True rm ins [of ?e] by (simp add: ingest_chunk_cases [OF ok hdr] e_def [symmetric] Let_def)
  qed
qed

lemma ingest_ok:
  assumes "reassembler_ok r"
  shows "\<exists>res r'. ingest r f now_ms = Ret (res, r') \<and> reassembler_ok r' \<and> r_cfg r' = r_cfg r
    \<and> (\<forall>out. res = Inr (Some out) \<longrightarrow> f = KIND_COMPLETE # out \<or> length out \<le> reassembly_max_bytes (r_cfg r))"
proof (cases "\<exists>body. f = KIND_FRAGMENT # body \<and> FRAG_HEADER \<le> length f")
  case True
  then have "ingest r f now_ms = ingest_fragment r f now_ms"
    by (auto simp: ingest_eq KIND_FRAGMENT_def KIND_COMPLETE_def)
  moreover have "FRAG_HEADER \<le> length f" using True by auto
  note fr = ingest_fragment_eq [OF this, of r now_ms]
  ultimately show ?thesis
    using ingest_chunk_ok [OF assms, of "take 8 (drop 1 f)" "u16_from_be (take 2 (drop 9 f))"
        "u16_from_be (take 2 (drop 11 f))" "drop FRAG_HEADER f" now_ms]
    by fastforce
next
  case False
  then show ?thesis
    using assms by (auto simp: ingest_eq ingest_fragment_def split: list.splits)
qed

lemma reassembler_new_ok: "reassembler_ok (reassembler_new cfg)"
  by (simp add: reassembler_new_def reassembler_ok_def)

lemma evict_expired_slots_ok:
  assumes "reassembler_ok r"
  shows "reassembler_ok (snd (evict_expired_slots r now_ms))"
    and "r_cfg (snd (evict_expired_slots r now_ms)) = r_cfg r"
  using assms
  by (auto simp: evict_expired_slots_def Let_def reassembler_ok_def bm_retain_def bm_ok_filter
      intro: order_trans [OF length_filter_le])

lemma ingest_all_ok:
  "reassembler_ok r \<Longrightarrow> \<exists>res r'. ingest_all r fs = Ret (res, r') \<and> reassembler_ok r' \<and> r_cfg r' = r_cfg r
    \<and> length res = length fs"
proof (induction fs arbitrary: r)
  case (Cons ft fs)
  obtain f t where "ft = (f, t)" by (cases ft)
  with ingest_ok [OF Cons.prems, of f t] Cons.IH show ?case by fastforce
qed simp

section \<open>Splitting and reassembling\<close>

text \<open>The slot of a packet of which the chunks with index in \<open>S\<close> have arrived.\<close>

definition chunk_mask :: "bytes list \<Rightarrow> nat set \<Rightarrow> bytes option list" where
  "chunk_mask cs S = map (\<lambda>i. if i \<in> S then Some (cs ! i) else None) [0..<length cs]"

definition holds_chunks :: "reassembler \<Rightarrow> bytes \<Rightarrow> bytes list \<Rightarrow> nat set \<Rightarrow> bool" where
  "holds_chunks r d cs S \<longleftrightarrow>
     (if S = {} then bm_get (slots r) d = None
      else \<exists>e. bm_get (slots r) d = Some e \<and> unat (pt_total e) = length cs \<and> pt_chunks e = chunk_mask cs S)"

lemma length_chunk_mask [simp]: "length (chunk_mask cs S) = length cs"
  by (simp add: chunk_mask_def)

lemma chunk_mask_nth: "i < length cs \<Longrightarrow> chunk_mask cs S ! i = (if i \<in> S then Some (cs ! i) else None)"
  by (simp add: chunk_mask_def)

lemma chunk_mask_update:
  "i < length cs \<Longrightarrow> (chunk_mask cs S)[i := Some (cs ! i)] = chunk_mask cs (insert i S)"
  by (rule nth_equalityI) (auto simp: chunk_mask_nth nth_list_update)

lemma chunk_mask_empty: "chunk_mask cs {} = replicate (length cs) None"
  by (rule nth_equalityI) (auto simp: chunk_mask_nth)

lemma chunk_mask_full: "{..<length cs} \<subseteq> S \<Longrightarrow> map the (chunk_mask cs S) = cs"
  by (rule nth_equalityI) (auto simp: chunk_mask_nth)

lemma chunk_mask_None: "None \<in> set (chunk_mask cs S) \<longleftrightarrow> \<not> {..<length cs} \<subseteq> S"
  by (auto simp: chunk_mask_def)

lemma chunks_bytes_mask: "chunks_bytes (chunk_mask cs S) \<le> length (concat cs)"
proof -
  have "chunks_bytes (chunk_mask cs S) \<le> sum_list (map (\<lambda>i. length (cs ! i)) [0..<length cs])"
    unfolding chunks_bytes_def chunk_mask_def map_map by (rule sum_list_mono) simp
  also have "map (\<lambda>i. length (cs ! i)) [0..<length cs] = map length cs"
    by (rule nth_equalityI) auto
  finally show ?thesis by (simp add: length_concat)
qed

lemma ingest_fragment_frame:
  assumes "length d = 8" "length cs \<le> 65535" "i < length cs"
  shows "ingest r (fragment_frame d (length cs) i c) now_ms =
    ingest_chunk r d (of_nat i) (of_nat (length cs)) c now_ms"
proof -
  let ?f = "fragment_frame d (length cs) i c"
  have "ingest r ?f now_ms = ingest_fragment r ?f now_ms"
    by (simp add: ingest_eq fragment_frame_def KIND_COMPLETE_def KIND_FRAGMENT_def)
  then show ?thesis
    using assms(1)
    by (simp add: ingest_fragment_eq fragment_frame_def FRAG_HEADER_def drop_Cons' take_Cons')
qed

text \<open>One chunk of the packet arrives at a reassembler that already holds the chunks in \<open>S\<close>.\<close>

lemma ingest_next_chunk:
  assumes ok: "reassembler_ok r" and d: "length d = 8" and n: "length cs \<le> 65535" and i: "i < length cs"
    and cap: "length (concat cs) \<le> reassembly_max_bytes (r_cfg r)"
    and h: "holds_chunks r d cs S" and S: "\<not> {..<length cs} \<subseteq> S"
  shows "\<exists>r'. ingest r (fragment_frame d (length cs) i (cs ! i)) now_ms =
      Ret (Inr (if {..<length cs} \<subseteq> insert i S then Some (concat cs) else None), r')
    \<and> holds_chunks r' d cs (if {..<length cs} \<subseteq> insert i S then {} else insert i S)"
proof -
  define tot :: u16 where "tot = of_nat (length cs)"
  define idx :: u16 where "idx = of_nat i"
  have un: "unat tot = length cs" "unat idx = i"
    using n i by (simp_all add: tot_def idx_def unat_of_nat)
  have hdr: "tot \<noteq> 0" "idx < tot"
    using un i by (auto simp: word_less_nat_alt simp flip: unat_eq_0)
  define m where "m = make_room r d"
  define e where "e = slot_entry m d tot now_ms"
  have e: "pt_total e = tot" "pt_chunks e = chunk_mask cs S"
  proof -
    have "bm_get m d = bm_get (slots r) d"
      using h evict_oldest_slot_facts(4) [of "slots r" d] by (auto simp: m_def make_room_def holds_chunks_def bm_contains_def)
    then show "pt_total e = tot" "pt_chunks e = chunk_mask cs S"
      using h un by (auto simp: e_def slot_entry_def holds_chunks_def chunk_mask_empty word_unat_eq_iff split: if_splits)
  qed
  have pe: "partial_ok (r_cfg r) e" unfolding e_def m_def by (rule slot_entry_ok [OF ok hdr(1)])
  note ev = ingest_chunk_cases [OF ok hdr, where d = d and now_ms = now_ms and c = "cs ! i", folded m_def, folded e_def]
  have fr: "ingest r (fragment_frame d (length cs) i (cs ! i)) now_ms = ingest_chunk r d idx tot (cs ! i) now_ms"
    by (simp add: ingest_fragment_frame [OF d n i] idx_def tot_def)
  show ?thesis
  proof (cases "i \<in> S")
    case True
    then have "insert i S = S" "S \<noteq> {}" by auto
    with True S show ?thesis
      using ev e un i by (simp add: fr chunk_mask_nth holds_chunks_def)
  next
    case False
    have "pt_bytes e + length (cs ! i) = chunks_bytes (chunk_mask cs (insert i S))"
      using pe e un i False chunks_bytes_update [of i "pt_chunks e" "cs ! i"]
      by (simp add: partial_ok_def chunk_mask_nth chunk_mask_update)
    also have "\<dots> \<le> reassembly_max_bytes (r_cfg r)"
      using chunks_bytes_mask cap by (rule order_trans)
    finally have fits: "\<not> reassembly_max_bytes (r_cfg r) < pt_bytes e + length (cs ! i)" by simp
    have st: "pt_chunks (store_chunk e i (cs ! i)) = chunk_mask cs (insert i S)"
      using e i by (simp add: store_chunk_def chunk_mask_update)
    show ?thesis
      using ev e un i False fits st
      by (auto simp: fr chunk_mask_nth chunk_mask_None chunk_mask_full holds_chunks_def Let_def store_chunk_def)
  qed
qed

lemma ingest_chunks_any_order:
  assumes "reassembler_ok r" "length d = 8" "length cs \<le> 65535"
    "length (concat cs) \<le> reassembly_max_bytes (r_cfg r)"
    and "holds_chunks r d cs S" "S \<subseteq> {..<length cs}" "fst ` set its \<subseteq> {..<length cs}"
    and "j < length cs" "j \<notin> S \<union> fst ` set its" "insert j (S \<union> fst ` set its) = {..<length cs}"
  shows "\<exists>r'. ingest_all r (map (\<lambda>(i, t). (fragment_frame d (length cs) i (cs ! i), t)) (its @ [(j, t)])) =
      Ret (replicate (length its) (Inr None) @ [Inr (Some (concat cs))], r') \<and> bm_get (slots r') d = None"
  using assms
proof (induction its arbitrary: r S)
  case Nil
  have "\<not> {..<length cs} \<subseteq> S" using Nil.prems(8,9) by auto
  then show ?case
    using ingest_next_chunk [OF Nil.prems(1-3,8,4,5), of t] Nil.prems(10) by (auto simp: holds_chunks_def)
next
  case (Cons it its)
  obtain i u where it: "it = (i, u)" by (cases it)
  have i: "i < length cs" using Cons.prems(7) it by auto
  have nf: "\<not> {..<length cs} \<subseteq> S" "\<not> {..<length cs} \<subseteq> insert i S" using Cons.prems(8,9) it by auto
  obtain r' where r': "ingest r (fragment_frame d (length cs) i (cs ! i)) u = Ret (Inr None, r')"
    "holds_chunks r' d cs (insert i S)"
    using ingest_next_chunk [OF Cons.prems(1-3) i Cons.prems(4,5) nf(1), of u] nf(2) by auto
  obtain r'': "reassembler_ok r'" "r_cfg r' = r_cfg r"
    using ingest_ok [OF Cons.prems(1), of "fragment_frame d (length cs) i (cs ! i)" u] r'(1) by auto
  have "\<exists>q. ingest_all r' (map (\<lambda>(i, t). (fragment_frame d (length cs) i (cs ! i), t)) (its @ [(j, t)])) =
      Ret (replicate (length its) (Inr None) @ [Inr (Some (concat cs))], q) \<and> bm_get (slots q) d = None"
    by (rule Cons.IH [OF r''(1) Cons.prems(2,3) _ r'(2)]) (use Cons.prems r'' it i in auto)
  then show ?case using r'(1) by (auto simp: it)
qed

lemma frag_split_fragments:
  assumes "frag_split bs d mtu = Inr frames" "\<not> length bs < mtu"
  defines "cs \<equiv> chunks (mtu - FRAG_HEADER) bs"
  shows "frames = map (\<lambda>i. fragment_frame d (length cs) i (cs ! i)) [0..<length cs]"
    and "concat cs = bs" and "length cs \<le> 65535" and "FRAG_HEADER < mtu"
proof -
  show mtu: "FRAG_HEADER < mtu" using assms(1) by (simp add: frag_split_def split: if_splits)
  then show "concat cs = bs" by (simp add: cs_def concat_chunks)
  have n: "length cs = div_ceil (length bs) (mtu - FRAG_HEADER)"
    using mtu by (simp add: cs_def length_chunks)
  show "length cs \<le> 65535"
    using assms(1,2) mtu n by (simp add: frag_split_def Let_def split: if_splits)
  have "frames = map (\<lambda>(i, chunk). fragment_frame d (length cs) i chunk) (enumerate 0 cs)"
    using assms(1,2) mtu n by (simp add: frag_split_def Let_def cs_def split: if_splits)
  then show "frames = map (\<lambda>i. fragment_frame d (length cs) i (cs ! i)) [0..<length cs]"
    by (auto intro!: nth_equalityI simp: nth_enumerate_eq)
qed

lemma reassembles:
  assumes "frag_split bs d mtu = Inr frames" "length d = 8"
    and "reassembler_ok r" "bm_get (slots r) d = None" "length bs \<le> reassembly_max_bytes (r_cfg r)"
    and "insert j (fst ` set its) = {..<length frames}" "j \<notin> fst ` set its"
  shows "\<exists>r'. ingest_all r (map (\<lambda>(i, t). (frames ! i, t)) (its @ [(j, t)])) =
      Ret (replicate (length its) (Inr None) @ [Inr (Some bs)], r') \<and> bm_get (slots r') d = None"
proof (cases "length bs < mtu")
  case True
  then have f: "frames = [KIND_COMPLETE # bs]" using assms(1) by (auto simp: frag_split_def split: if_splits)
  with assms(6) have "insert j (fst ` set its) = {0}" by auto
  then have "j = 0" "fst ` set its \<subseteq> {0}" by auto
  with assms(7) have "its = []" by (cases its) auto
  with f assms(4) \<open>j = 0\<close> show ?thesis by (simp add: ingest_eq)
next
  case False
  note fr = frag_split_fragments [OF assms(1) False]
  define cs where "cs = chunks (mtu - FRAG_HEADER) bs"
  have len: "length frames = length cs" by (simp add: fr(1) cs_def)
  have "\<exists>r'. ingest_all r (map (\<lambda>(i, t). (fragment_frame d (length cs) i (cs ! i), t)) (its @ [(j, t)])) =
      Ret (replicate (length its) (Inr None) @ [Inr (Some (concat cs))], r') \<and> bm_get (slots r') d = None"
    by (rule ingest_chunks_any_order [where S = "{}", OF assms(3,2)])
      (use fr(2,3) assms(4-7) len in \<open>auto simp: cs_def holds_chunks_def\<close>)
  moreover have "map (\<lambda>(i, t). (fragment_frame d (length cs) i (cs ! i), t)) (its @ [(j, t)]) =
      map (\<lambda>(i, t). (frames ! i, t)) (its @ [(j, t)])"
  proof (rule map_cong [OF refl])
    fix p assume "p \<in> set (its @ [(j, t)])"
    then have "fst p \<in> insert j (fst ` set its)" by auto
    then have "fst p < length cs" unfolding assms(6) len by simp
    then show "(case p of (i, t) \<Rightarrow> (fragment_frame d (length cs) i (cs ! i), t)) = (case p of (i, t) \<Rightarrow> (frames ! i, t))"
      by (auto simp: fr(1) cs_def split: prod.splits)
  qed
  ultimately show ?thesis using fr(2) by (simp only: cs_def)
qed

text \<open>C22: any packet that fits the reassembly budget, split for any MTU, is put together again from
  its frames in any order and with any duplicates: every frame before the last missing one yields
  nothing, that one yields exactly the original bytes, and the slot is freed.\<close>

theorem reassemble_any_order:
  assumes "frag_split bs d mtu = Inr frames" "length d = 8"
    and "reassembler_ok r" "bm_get (slots r) d = None" "length bs \<le> reassembly_max_bytes (r_cfg r)"
    and "insert j (fst ` set its) = {..<length frames}" "j \<notin> fst ` set its"
  shows "\<exists>r'. ingest_all r (map (\<lambda>(i, t). (frames ! i, t)) (its @ [(j, t)])) =
      Ret (replicate (length its) (Inr None) @ [Inr (Some bs)], r') \<and> bm_get (slots r') d = None"
  by (rule reassembles [OF assms])

theorem reassemble_any_order_witness:
  "\<exists>r'. ingest_all (reassembler_new default_tunables)
     (map (\<lambda>(i, t). (projr (frag_split (replicate 20 7) [1, 2, 3, 4, 5, 6, 7, 8] 20) ! i, t))
        ([(2, 5), (0, 6), (2, 7)] @ [(1, 8)])) =
      Ret (replicate (length [(2 :: nat, 5 :: u64), (0, 6), (2, 7)]) (Inr None) @ [Inr (Some (replicate 20 7))], r')
      \<and> bm_get (slots r') [1, 2, 3, 4, 5, 6, 7, 8] = None"
proof -
  let ?d = "[1, 2, 3, 4, 5, 6, 7, 8] :: bytes"
  have s: "frag_split (replicate 20 7) ?d 20 = Inr (projr (frag_split (replicate 20 7) ?d 20))"
    "length (projr (frag_split (replicate 20 7) ?d 20)) = 3" 
    by (simp_all add: frag_split_def FRAG_HEADER_def div_ceil_def length_chunks)
  show ?thesis
  proof (rule reassemble_any_order [OF s(1)])
    show "insert 1 (fst ` set [(2, 5 :: u64), (0, 6), (2, 7)]) = {..<length (projr (frag_split (replicate 20 7) ?d 20))}"
      unfolding s(2) by auto
  qed (simp_all add: reassembler_new_ok, simp_all add: reassembler_new_def)
qed

text \<open>C23: whatever bytes a peer sends, feeding them to the reassembler never panics, keeps the slot
  table within its budget and its counters exact, and every packet it hands on is at most as large as the byte cap,
  except the body of a frame marked complete, which is handed on as it is.\<close>

theorem reassembler_safe:
  assumes "reassembler_ok r"
  shows "\<exists>res r'. ingest_all r frames = Ret (res, r') \<and> reassembler_ok r' \<and> length res = length frames
    \<and> in_flight r' \<le> max 1 (reassembly_slots (r_cfg r))
    \<and> (\<forall>i < length frames. \<forall>out. res ! i = Inr (Some out) \<longrightarrow>
         fst (frames ! i) = KIND_COMPLETE # out \<or> length out \<le> reassembly_max_bytes (r_cfg r))"
  using assms
proof (induction frames arbitrary: r)
  case (Cons ft fs)
  obtain f t where ft: "ft = (f, t)" by (cases ft)
  obtain x q where x: "ingest r f t = Ret (x, q)" "reassembler_ok q" "r_cfg q = r_cfg r"
    "\<forall>out. x = Inr (Some out) \<longrightarrow> f = KIND_COMPLETE # out \<or> length out \<le> reassembly_max_bytes (r_cfg r)"
    using ingest_ok [OF Cons.prems, of f t] by blast
  from Cons.IH [OF x(2)] x ft show ?case by (auto simp: nth_Cons split: nat.splits)
qed (simp add: in_flight_def reassembler_ok_def)

text \<open>One fragment of one, above a cap of four bytes: refused.\<close>

theorem reassembler_safe_witness:
  "\<exists>res r'. ingest_all (reassembler_new (default_tunables\<lparr>reassembly_max_bytes := 4\<rparr>))
      [([2, 1, 1], 0), ([1, 9, 9], 1), ([], 2), (fragment_frame [1, 2, 3, 4, 5, 6, 7, 8] 1 0 [1, 2, 3, 4, 5], 3)] = Ret (res, r')
    \<and> reassembler_ok r' \<and> length res = 4 \<and> in_flight r' \<le> 128 \<and> res ! 3 \<noteq> Inr (Some [1, 2, 3, 4, 5])"
proof -
  let ?fs = "[([2, 1, 1], 0), ([1, 9, 9], 1), ([], 2), (fragment_frame [1, 2, 3, 4, 5, 6, 7, 8] 1 0 [1, 2, 3, 4, 5], 3 :: u64)]"
  obtain res r' where r: "ingest_all (reassembler_new (default_tunables\<lparr>reassembly_max_bytes := 4\<rparr>)) ?fs = Ret (res, r')"
    "reassembler_ok r'" "length res = 4" "in_flight r' \<le> 128"
    "\<forall>i < length ?fs. \<forall>out. res ! i = Inr (Some out) \<longrightarrow> fst (?fs ! i) = KIND_COMPLETE # out \<or> length out \<le> 4"
    using reassembler_safe [OF reassembler_new_ok, of "default_tunables\<lparr>reassembly_max_bytes := 4\<rparr>" ?fs]
    by (auto simp del: ingest_all.simps simp: reassembler_new_def)
  have "res ! 3 \<noteq> Inr (Some [1, 2, 3, 4, 5])"
    using r(5) [rule_format, of 3 "[1, 2, 3, 4, 5]"] by (auto simp: fragment_frame_def KIND_FRAGMENT_def KIND_COMPLETE_def)
  with r(1-4) show ?thesis by blast
qed
text \<open>C27: every frame \<open>split\<close> produces fits the MTU, and it fails only on an MTU that cannot hold the
  fragment header or a packet that needs more fragments than the 16-bit counter can number.\<close>

theorem frag_split_bounds:
  "(frag_split bs d mtu = Inl (MtuTooSmall mtu) \<longleftrightarrow> mtu \<le> FRAG_HEADER)
   \<and> (FRAG_HEADER < mtu \<longrightarrow>
        (case frag_split bs d mtu of
           Inl e \<Rightarrow> e = TooLarge ((mtu - FRAG_HEADER) * 65535) \<and> length bs > (mtu - FRAG_HEADER) * 65535
         | Inr frames \<Rightarrow> frames \<noteq> [] \<and> length frames \<le> 65535
             \<and> (length d = 8 \<longrightarrow> (\<forall>f \<in> set frames. length f \<le> mtu))))"
proof (cases "length bs < mtu \<or> mtu \<le> FRAG_HEADER")
  case True
  then show ?thesis by (auto simp: frag_split_def FRAG_HEADER_def)
next
  case False
  let ?c = "mtu - FRAG_HEADER" and ?cs = "chunks (mtu - FRAG_HEADER) bs"
  have n: "length ?cs = div_ceil (length bs) ?c" using False by (simp add: length_chunks)
  show ?thesis
  proof (cases "65535 < length ?cs")
    case True
    then have "65536 \<le> (length bs + ?c - 1) div ?c" by (simp add: n div_ceil_def)
    then have "65536 * ?c \<le> length bs + ?c - 1"
      using False by (subst (asm) less_eq_div_iff_mult_less_eq) auto
    then have "?c * 65535 < length bs" using False by linarith
    with True False n show ?thesis by (simp add: frag_split_def)
  next
    case le: False
    then obtain frames where f: "frag_split bs d mtu = Inr frames" using False n by (auto simp: frag_split_def Let_def)
    note fr = frag_split_fragments [OF f]
    have "length (fragment_frame d (length ?cs) i (?cs ! i)) \<le> mtu" if "i < length ?cs" "length d = 8" for i
    proof -
      have "length (?cs ! i) \<le> ?c" using chunks_bounds [OF nth_mem [OF that(1)]] by simp
      then show ?thesis using False that(2) by (simp add: fragment_frame_def FRAG_HEADER_def le_diff_conv2)
    qed
    then have "\<forall>f \<in> set frames. length f \<le> mtu" if "length d = 8" using False fr(1) that by auto
    moreover have "?cs \<noteq> []" using False by (auto simp: chunks.simps)
    then have "frames \<noteq> []" "length frames \<le> 65535" using False fr(1,3) by auto
    ultimately show ?thesis using False f by simp
  qed
qed

theorem frag_split_bounds_witness:
  "\<exists>frames. frag_split (replicate 20 7) (replicate 8 1) 20 = Inr frames \<and> length frames \<le> 65535
     \<and> list_all (\<lambda>f. length f \<le> 20) frames"
proof (cases "frag_split (replicate 20 7) (replicate 8 1) 20")
  case (Inl e)
  then show ?thesis
    using frag_split_bounds [of "replicate 20 7" "replicate 8 1" 20]
    by (simp only: Inl sum.case) (simp add: FRAG_HEADER_def)
next
  case (Inr frames)
  then show ?thesis
    using frag_split_bounds [of "replicate 20 7" "replicate 8 1" 20]
    by (simp only: Inr sum.case) (simp add: FRAG_HEADER_def list_all_iff)
qed

end
