(* ===== verification/Node.thy ===== *)
theory Node
  imports Payload Frag
begin

text \<open>
  The orchestrator, \<open>crates/meshcore/src/node.rs\<close>: \<open>MeshNode\<close> with every one of its commands and
  handlers.  The record \<open>node\<close> has the fields of the struct; three of them stand for the injected
  parts: \<open>clock\<close> is what \<open>now_ms\<close> reads (it does not change during one call), \<open>outbox\<close> is the list
  of the calls made to the transport, in order, and \<open>entropy\<close> counts the Noise handshakes built,
  each of which draws fresh randomness.  The record \<open>env\<close> holds what is not in the repository: hash,
  signatures, compression, case tables, the random generator, the Noise crate, the iteration order
  of hash maps, and the operations of the store the node is used with.
\<close>

section \<open>Parameters and state\<close>

record ('hs, 'ts, 's) env =
  sha256 :: "bytes \<Rightarrow> bytes"
  ed_public :: "bytes \<Rightarrow> bytes"
  x_public :: "bytes \<Rightarrow> bytes"
  ed_sign :: "bytes \<Rightarrow> bytes \<Rightarrow> bytes"
  vk_valid :: "bytes \<Rightarrow> bool"
  ed_verify :: "bytes \<Rightarrow> bytes \<Rightarrow> bytes \<Rightarrow> bool"
  lz4_compress :: "bytes \<Rightarrow> bytes"
  lz4_decompress :: "bytes \<Rightarrow> nat \<Rightarrow> string + bytes"
  uni_lower :: "rstring \<Rightarrow> rstring"
  hash_order :: "bytes list \<Rightarrow> bytes list"
  rngs :: rng_ops
  snow :: "('hs, 'ts) snow"
  store :: "'s store_ops"

datatype mesh_event =
    MessageReceived rstring eph_id rstring u64 bool
  | PeerAppeared bytes eph_id "rstring option"
  | DmReceived bytes eph_id rstring u8
  | DmSession bytes bool
  | PeerKeyChanged bytes
  | PeerLost link_id
  | Stats nat nat nat

record link_state =
  mtu :: nat
  peer_eph :: "eph_id option"
  peer_fp :: "bytes option"

type_synonym bset = "(bytes, unit) bmap"

record ('hs, 'ts, 's) node =
  identity :: local_identity
  n_cfg :: tunables
  clock :: millis
  n_store :: 's
  seen :: seen_cache
  rate :: rate_limiter
  scheduler :: relay_scheduler
  n_reassembler :: reassembler
  n_rng :: rng
  links :: "(link_id, link_state) bmap"
  eph_keys :: "(eph_id, bytes) bmap"
  subscribed :: bset
  events :: "mesh_event list"
  nickname :: rstring
  relays_fired :: u64
  noise_sessions :: "(bytes, ('hs, 'ts) noise_session) bmap"
  pending_dms :: "(bytes, rstring list) bmap"
  fp_to_eph :: "(bytes, eph_id) bmap"
  peer_static_dh :: "(bytes, bytes) bmap"
  pending_inbound_dms :: "(bytes, bytes list) bmap"
  handshake_last_ms :: "(bytes, millis) bmap"
  handshake_attempts :: "(bytes, u32) bmap"
  resync_pending :: "(bytes, u8) bmap"
  notice_pending :: bset
  outbox :: "transport_call list"
  entropy :: nat

definition DM_HANDSHAKE_RETRY_MS :: millis where "DM_HANDSHAKE_RETRY_MS = 2000"
definition DM_HANDSHAKE_MAX_ATTEMPTS :: u32 where "DM_HANDSHAKE_MAX_ATTEMPTS = 12"
definition DM_KIND_TEXT :: u8 where "DM_KIND_TEXT = 0"
definition DM_KIND_VERIFY_NOTICE :: u8 where "DM_KIND_VERIFY_NOTICE = 1"
definition DM_KIND_VERIFY_ACK :: u8 where "DM_KIND_VERIFY_ACK = 2"
definition DM_KIND_KEY_CHANGED :: u8 where "DM_KIND_KEY_CHANGED = 3"
definition RESYNC_HANDSHAKE_THRESHOLD :: u8 where "RESYNC_HANDSHAKE_THRESHOLD = 2"
definition XX_MSG1_LEN :: nat where "XX_MSG1_LEN = 32"

definition node_new ::
  "local_identity \<Rightarrow> tunables \<Rightarrow> millis \<Rightarrow> 's \<Rightarrow> rstring \<Rightarrow> ('hs, 'ts, 's) node" where
  "node_new li cfg now st nick =
     \<lparr>identity = li, n_cfg = cfg, clock = now, n_store = st,
      seen = seen_cache_new cfg, rate = rate_limiter_new cfg, scheduler = relay_scheduler_new cfg,
      n_reassembler = reassembler_new cfg, n_rng = [], links = [], eph_keys = [],
      subscribed = bm_insert DEFAULT_CHANNEL () [], events = [], nickname = nick, relays_fired = 0,
      noise_sessions = [], pending_dms = [], fp_to_eph = [], peer_static_dh = [],
      pending_inbound_dms = [], handshake_last_ms = [], handshake_attempts = [],
      resync_pending = [], notice_pending = [], outbox = [], entropy = 0\<rparr>"

section \<open>Introspection\<close>

definition node_eph_id :: "('hs, 'ts, 's) node \<Rightarrow> eph_id" where
  "node_eph_id n = li_eph_id (identity n)"

definition node_fingerprint :: "('hs, 'ts, 's) env \<Rightarrow> ('hs, 'ts, 's) node \<Rightarrow> bytes" where
  "node_fingerprint E n = fingerprint (sha256 E) (ed_public E) (identity n)"

definition link_count :: "('hs, 'ts, 's) node \<Rightarrow> nat" where
  "link_count n = length (links n)"

definition reset_relays_fired :: "('hs, 'ts, 's) node \<Rightarrow> ('hs, 'ts, 's) node" where
  "reset_relays_fired n = n\<lparr>relays_fired := 0\<rparr>"

definition take_events :: "('hs, 'ts, 's) node \<Rightarrow> mesh_event list \<times> ('hs, 'ts, 's) node" where
  "take_events n = (events n, n\<lparr>events := []\<rparr>)"

definition push_event :: "mesh_event \<Rightarrow> ('hs, 'ts, 's) node \<Rightarrow> ('hs, 'ts, 's) node" where
  "push_event ev n = n\<lparr>events := events n @ [ev]\<rparr>"

section \<open>Outbound fanout\<close>

definition send_bytes :: "('hs, 'ts, 's) node \<Rightarrow> link_id \<Rightarrow> bytes \<Rightarrow> bytes \<Rightarrow> nat \<Rightarrow> ('hs, 'ts, 's) node" where
  "send_bytes n link bs d m =
     (case frag_split bs d m of
        Inr frames \<Rightarrow> n\<lparr>outbox := outbox n @ map (Send link) frames\<rparr>
      | Inl _ \<Rightarrow> n)"

definition broadcast ::
  "('hs, 'ts, 's) env \<Rightarrow> ('hs, 'ts, 's) node \<Rightarrow> packet \<Rightarrow> link_id option \<Rightarrow> ('hs, 'ts, 's) node" where
  "broadcast E n pkt exclude =
     (let bs = encode pkt;
          d = packet_digest (sha256 E) pkt;
          targets = map (\<lambda>(l, st). (l, mtu st)) (filter (\<lambda>(l, st). Some l \<noteq> exclude) (links n))
      in foldl (\<lambda>n (link, m). send_bytes n link bs d m) n targets)"

definition link_mtu :: "('hs, 'ts, 's) node \<Rightarrow> link_id \<Rightarrow> nat" where
  "link_mtu n link = (case bm_get (links n) link of Some l \<Rightarrow> mtu l | None \<Rightarrow> default_mtu (n_cfg n))"

definition send_on_link ::
  "('hs, 'ts, 's) env \<Rightarrow> ('hs, 'ts, 's) node \<Rightarrow> link_id \<Rightarrow> packet \<Rightarrow> ('hs, 'ts, 's) node" where
  "send_on_link E n link pkt = send_bytes n link (encode pkt) (packet_digest (sha256 E) pkt) (link_mtu n link)"

definition signed_packet ::
  "('hs, 'ts, 's) env \<Rightarrow> ('hs, 'ts, 's) node \<Rightarrow> msg_type \<Rightarrow> u8 \<Rightarrow> eph_id option \<Rightarrow> bytes \<Rightarrow> packet" where
  "signed_packet E n t ttl recipient payload =
     packet_sign (ed_sign E) (new_packet t ttl (clock n) (node_eph_id n) recipient payload) (signing (identity n))"

definition observe_own :: "('hs, 'ts, 's) env \<Rightarrow> packet \<Rightarrow> ('hs, 'ts, 's) node \<Rightarrow> ('hs, 'ts, 's) node" where
  "observe_own E pkt n = n\<lparr>seen := snd (observe (seen n) (packet_digest (sha256 E) pkt) (clock n))\<rparr>"

definition send_directed ::
  "('hs, 'ts, 's) env \<Rightarrow> ('hs, 'ts, 's) node \<Rightarrow> msg_type \<Rightarrow> bytes \<Rightarrow> bytes \<Rightarrow> ('hs, 'ts, 's) node" where
  "send_directed E n t fp payload =
     (case bm_get (fp_to_eph n) fp of
        None \<Rightarrow> n
      | Some recipient \<Rightarrow>
          let ttl = origin_ttl (n_cfg n) t (length (links n));
              pkt = signed_packet E n t ttl (Some recipient) payload
          in broadcast E (observe_own E pkt n) pkt None)"

section \<open>Channel commands\<close>

definition join_channel :: "('hs, 'ts, 's) env \<Rightarrow> ('hs, 'ts, 's) node \<Rightarrow> rstring \<Rightarrow> ('hs, 'ts, 's) node" where
  "join_channel E n name = n\<lparr>subscribed := bm_insert (normalize (uni_lower E) name) () (subscribed n)\<rparr>"

definition send_channel_message ::
  "('hs, 'ts, 's) env \<Rightarrow> ('hs, 'ts, 's) node \<Rightarrow> rstring \<Rightarrow> rstring \<Rightarrow> bytes \<times> ('hs, 'ts, 's) node" where
  "send_channel_message E n name txt =
     (let channel = normalize (uni_lower E) name;
          n = n\<lparr>subscribed := bm_insert channel () (subscribed n)\<rparr>;
          ttl = origin_ttl (n_cfg n) ChannelMessage (length (links n));
          payload = encode_channel (lz4_compress E) channel txt (n_cfg n);
          pkt = signed_packet E n ChannelMessage ttl None payload;
          d = packet_digest (sha256 E) pkt;
          n = n\<lparr>n_store := put_channel_message (store E) (n_store n)
                 \<lparr>sm_digest = d, sm_channel = channel, sm_sender = node_eph_id n, sm_timestamp_ms = clock n,
                  sm_body = txt, sm_raw = encode pkt\<rparr>\<rparr>
      in (d, broadcast E (observe_own E pkt n) pkt None))"

definition announce :: "('hs, 'ts, 's) env \<Rightarrow> ('hs, 'ts, 's) node \<Rightarrow> ('hs, 'ts, 's) node" where
  "announce E n =
     (let payload = encode_announce (verifying_key (ed_public E) (identity n))
                      (dh_public (x_public E) (identity n)) (nickname n);
          pkt = signed_packet E n Announce (origin_ttl (n_cfg n) Announce (length (links n))) None payload
      in broadcast E (observe_own E pkt n) pkt None)"

section \<open>Direct messages\<close>

definition session_ready :: "('hs, 'ts, 's) node \<Rightarrow> bytes \<Rightarrow> bool" where
  "session_ready n fp = (case bm_get (noise_sessions n) fp of Some s \<Rightarrow> is_ready s | None \<Rightarrow> False)"

definition begin_handshake :: "('hs, 'ts, 's) env \<Rightarrow> ('hs, 'ts, 's) node \<Rightarrow> bytes \<Rightarrow> ('hs, 'ts, 's) node" where
  "begin_handshake E n fp =
     (case new_initiator (snow E) (dh_secret (identity n)) (entropy n) of
        Inl _ \<Rightarrow> n\<lparr>entropy := Suc (entropy n)\<rparr>
      | Inr session \<Rightarrow>
          (case write_handshake (snow E) session of
             (Inl _, _) \<Rightarrow> n\<lparr>entropy := Suc (entropy n)\<rparr>
           | (Inr msg, session) \<Rightarrow>
               let n = n\<lparr>entropy := Suc (entropy n), noise_sessions := bm_insert fp session (noise_sessions n)\<rparr>;
                   n = send_directed E n NoiseHandshake fp msg;
                   attempts = (case bm_get (handshake_attempts n) fp of Some k \<Rightarrow> k | None \<Rightarrow> 0)
               in n\<lparr>handshake_last_ms := bm_insert fp (clock n) (handshake_last_ms n),
                    handshake_attempts := bm_insert fp (attempts + 1) (handshake_attempts n)\<rparr>))"

definition encrypt_and_send_dm ::
  "('hs, 'ts, 's) env \<Rightarrow> ('hs, 'ts, 's) node \<Rightarrow> bytes \<Rightarrow> u8 \<Rightarrow> bytes \<Rightarrow> ('hs, 'ts, 's) node" where
  "encrypt_and_send_dm E n fp kind body =
     (case bm_get (noise_sessions n) fp of
        None \<Rightarrow> n
      | Some session \<Rightarrow>
          (case encrypt (snow E) session (kind # body) of
             (res, session) \<Rightarrow>
               let n = n\<lparr>noise_sessions := bm_insert fp session (noise_sessions n)\<rparr>
               in (case res of
                     Inl _ \<Rightarrow> n
                   | Inr ciphertext \<Rightarrow> send_directed E n DirectMessage fp ciphertext)))"

definition store_dm ::
  "('hs, 'ts, 's) env \<Rightarrow> ('hs, 'ts, 's) node \<Rightarrow> bytes \<Rightarrow> bool \<Rightarrow> bytes \<Rightarrow> ('hs, 'ts, 's) node" where
  "store_dm E n fp mine body =
     n\<lparr>n_store := put_dm (store E) (n_store n)
         \<lparr>dm_peer = fp, dm_mine = mine, dm_timestamp_ms = clock n, dm_body = body\<rparr>\<rparr>"

definition send_dm :: "('hs, 'ts, 's) env \<Rightarrow> ('hs, 'ts, 's) node \<Rightarrow> bytes \<Rightarrow> rstring \<Rightarrow> ('hs, 'ts, 's) node" where
  "send_dm E n fp txt =
     (let n = store_dm E n fp True txt in
      if session_ready n fp then encrypt_and_send_dm E n fp DM_KIND_TEXT txt
      else if \<not> bm_contains (fp_to_eph n) fp
      then n\<lparr>n_store := queue_envelope (store E) (n_store n) fp txt (clock n)\<rparr>
      else
        let n = n\<lparr>pending_dms := bm_insert fp (get_or_default (pending_dms n) fp @ [txt]) (pending_dms n)\<rparr>
        in if \<not> bm_contains (noise_sessions n) fp then begin_handshake E n fp
           else n\<lparr>handshake_attempts := bm_remove fp (handshake_attempts n),
                  handshake_last_ms := bm_remove fp (handshake_last_ms n)\<rparr>)"

definition send_control_dm ::
  "('hs, 'ts, 's) env \<Rightarrow> ('hs, 'ts, 's) node \<Rightarrow> bytes \<Rightarrow> u8 \<Rightarrow> ('hs, 'ts, 's) node" where
  "send_control_dm E n fp kind = encrypt_and_send_dm E (store_dm E n fp True [kind]) fp kind []"

definition try_send_verify_notice ::
  "('hs, 'ts, 's) env \<Rightarrow> ('hs, 'ts, 's) node \<Rightarrow> bytes \<Rightarrow> ('hs, 'ts, 's) node" where
  "try_send_verify_notice E n fp =
     (if session_ready n fp \<and> bm_contains (notice_pending n) fp
      then send_control_dm E (n\<lparr>notice_pending := bm_remove fp (notice_pending n)\<rparr>) fp DM_KIND_VERIFY_NOTICE
      else n)"

definition peer_or_new :: "('hs, 'ts, 's) env \<Rightarrow> ('hs, 'ts, 's) node \<Rightarrow> bytes \<Rightarrow> peer_record" where
  "peer_or_new E n fp =
     (case get_peer (store E) (n_store n) fp of
        Some p \<Rightarrow> p
      | None \<Rightarrow> \<lparr>pr_fingerprint = fp, petname = None, verified = False, last_eph = replicate 8 0,
                 last_seen_ms = clock n\<rparr>)"

definition verify_peer :: "('hs, 'ts, 's) env \<Rightarrow> ('hs, 'ts, 's) node \<Rightarrow> bytes \<Rightarrow> ('hs, 'ts, 's) node" where
  "verify_peer E n fp =
     (let p = (peer_or_new E n fp)\<lparr>verified := True\<rparr>;
          st = delete_dms (store E) (upsert_peer (store E) (n_store n) p) fp True;
          n = n\<lparr>n_store := st, notice_pending := bm_insert fp () (notice_pending n)\<rparr>
      in try_send_verify_notice E n fp)"

definition drop_peer_session_state :: "('hs, 'ts, 's) node \<Rightarrow> bytes \<Rightarrow> ('hs, 'ts, 's) node" where
  "drop_peer_session_state n fp =
     n\<lparr>noise_sessions := bm_remove fp (noise_sessions n),
       pending_dms := bm_remove fp (pending_dms n),
       pending_inbound_dms := bm_remove fp (pending_inbound_dms n),
       handshake_last_ms := bm_remove fp (handshake_last_ms n),
       handshake_attempts := bm_remove fp (handshake_attempts n),
       resync_pending := bm_remove fp (resync_pending n),
       notice_pending := bm_remove fp (notice_pending n)\<rparr>"

definition unverify_peer :: "('hs, 'ts, 's) env \<Rightarrow> ('hs, 'ts, 's) node \<Rightarrow> bytes \<Rightarrow> ('hs, 'ts, 's) node" where
  "unverify_peer E n fp =
     (let st = (case get_peer (store E) (n_store n) fp of
                  Some p \<Rightarrow> upsert_peer (store E) (n_store n) (p\<lparr>verified := False\<rparr>)
                | None \<Rightarrow> n_store n)
      in drop_peer_session_state (n\<lparr>n_store := delete_dms (store E) st fp True\<rparr>) fp)"

definition forget_peer :: "('hs, 'ts, 's) env \<Rightarrow> ('hs, 'ts, 's) node \<Rightarrow> bytes \<Rightarrow> ('hs, 'ts, 's) node" where
  "forget_peer E n fp =
     (let st = delete_peer (store E) (delete_dms (store E) (n_store n) fp False) fp;
          n = drop_peer_session_state (n\<lparr>n_store := st\<rparr>) fp
      in n\<lparr>fp_to_eph := bm_remove fp (fp_to_eph n)\<rparr>)"

definition start_dm_session :: "('hs, 'ts, 's) env \<Rightarrow> ('hs, 'ts, 's) node \<Rightarrow> bytes \<Rightarrow> ('hs, 'ts, 's) node" where
  "start_dm_session E n fp =
     (if session_ready n fp then push_event (DmSession fp True) n
      else if \<not> bm_contains (fp_to_eph n) fp then n
      else if \<not> bm_contains (noise_sessions n) fp then begin_handshake E n fp
      else n)"

definition set_petname :: "('hs, 'ts, 's) env \<Rightarrow> ('hs, 'ts, 's) node \<Rightarrow> bytes \<Rightarrow> rstring \<Rightarrow> ('hs, 'ts, 's) node" where
  "set_petname E n fp name =
     (let p = (peer_or_new E n fp)\<lparr>petname := (if name = [] then None else Some name)\<rparr>
      in n\<lparr>n_store := upsert_peer (store E) (n_store n) p\<rparr>)"

definition peer_verified :: "('hs, 'ts, 's) env \<Rightarrow> ('hs, 'ts, 's) node \<Rightarrow> bytes \<Rightarrow> bool" where
  "peer_verified E n fp = (case get_peer (store E) (n_store n) fp of Some p \<Rightarrow> verified p | None \<Rightarrow> False)"

definition peer_petname :: "('hs, 'ts, 's) env \<Rightarrow> ('hs, 'ts, 's) node \<Rightarrow> bytes \<Rightarrow> rstring option" where
  "peer_petname E n fp = (case get_peer (store E) (n_store n) fp of Some p \<Rightarrow> petname p | None \<Rightarrow> None)"

definition panic_wipe :: "('hs, 'ts, 's) env \<Rightarrow> ('hs, 'ts, 's) node \<Rightarrow> ('hs, 'ts, 's) node" where
  "panic_wipe E n =
     n\<lparr>n_store := store_wipe (store E) (n_store n), eph_keys := [], noise_sessions := [], pending_dms := [],
       fp_to_eph := [], peer_static_dh := [], pending_inbound_dms := [], handshake_last_ms := [],
       handshake_attempts := [], resync_pending := [], notice_pending := [], events := []\<rparr>"

end
