(* ===== verification/Handlers.thy ===== *)
theory Handlers
  imports Node
begin

text \<open>
  What a node does when something arrives: the handlers of \<open>crates/meshcore/src/node.rs\<close> from a frame on
  a link to the events, the packets sent in answer and the scheduled relay, and the timer.  The
  handlers are \<open>outcome\<close>s because the code unwraps options on the way (the session just inserted, a
  link's ephemeral id, a queued relay) and slices untrusted bytes.
\<close>

section \<open>Sessions\<close>

definition eph_to_fp :: "('hs, 'ts, 's) env \<Rightarrow> ('hs, 'ts, 's) node \<Rightarrow> eph_id \<Rightarrow> bytes option" where
  "eph_to_fp E n eph = map_option (sha256 E) (bm_get (eph_keys n) eph)"

definition split_kind :: "bytes \<Rightarrow> u8 \<times> bytes" where
  "split_kind plaintext =
     (case plaintext of
        k # rest \<Rightarrow> if k \<le> DM_KIND_VERIFY_ACK then (k, rest) else (DM_KIND_TEXT, plaintext)
      | [] \<Rightarrow> (DM_KIND_TEXT, plaintext))"

definition decrypt_and_emit ::
  "('hs, 'ts, 's) env \<Rightarrow> ('hs, 'ts, 's) node \<Rightarrow> bytes \<Rightarrow> bytes \<Rightarrow> ('hs, 'ts, 's) node" where
  "decrypt_and_emit E n fp ciphertext =
     (case bm_get (noise_sessions n) fp of
        None \<Rightarrow> n
      | Some session \<Rightarrow>
          (case decrypt (snow E) session ciphertext of
             (Inl _, session) \<Rightarrow> n\<lparr>noise_sessions := bm_insert fp session (noise_sessions n)\<rparr>
           | (Inr plaintext, session) \<Rightarrow>
               let n = n\<lparr>noise_sessions := bm_insert fp session (noise_sessions n),
                         resync_pending := bm_remove fp (resync_pending n)\<rparr>;
                   (kind, body) = split_kind plaintext;
                   n = store_dm E n fp False (if kind = DM_KIND_TEXT then body else [kind]);
                   from_eph = (case bm_get (fp_to_eph n) fp of Some e \<Rightarrow> e | None \<Rightarrow> replicate 8 0);
                   txt = (if kind = DM_KIND_TEXT then from_utf8_lossy body else []);
                   n = push_event (DmReceived fp from_eph txt kind) n
               in if kind = DM_KIND_VERIFY_NOTICE then send_control_dm E n fp DM_KIND_VERIFY_ACK else n))"

definition session_bound :: "('hs, 'ts, 's) env \<Rightarrow> ('hs, 'ts, 's) node \<Rightarrow> bytes \<Rightarrow> bool" where
  "session_bound E n fp =
     (case (case bm_get (noise_sessions n) fp of Some s \<Rightarrow> remote_static (snow E) s | None \<Rightarrow> None,
            bm_get (peer_static_dh n) fp) of
        (Some remote, Some known) \<Rightarrow> remote = known
      | _ \<Rightarrow> False)"

definition finish_session :: "('hs, 'ts, 's) env \<Rightarrow> ('hs, 'ts, 's) node \<Rightarrow> bytes \<Rightarrow> ('hs, 'ts, 's) node" where
  "finish_session E n fp =
     (if \<not> session_bound E n fp
      then push_event (DmSession fp False)
             (n\<lparr>noise_sessions := bm_remove fp (noise_sessions n), pending_dms := bm_remove fp (pending_dms n),
                handshake_last_ms := bm_remove fp (handshake_last_ms n),
                handshake_attempts := bm_remove fp (handshake_attempts n)\<rparr>)
      else
        let n = n\<lparr>handshake_last_ms := bm_remove fp (handshake_last_ms n),
                  handshake_attempts := bm_remove fp (handshake_attempts n),
                  resync_pending := bm_remove fp (resync_pending n)\<rparr>;
            n = push_event (DmSession fp True) n;
            n = try_send_verify_notice E n fp;
            pending = get_or_default (pending_dms n) fp;
            n = n\<lparr>pending_dms := bm_remove fp (pending_dms n)\<rparr>;
            n = foldl (\<lambda>n txt. encrypt_and_send_dm E n fp DM_KIND_TEXT txt) n pending;
            inbound = get_or_default (pending_inbound_dms n) fp;
            n = n\<lparr>pending_inbound_dms := bm_remove fp (pending_inbound_dms n)\<rparr>
        in foldl (\<lambda>n ct. decrypt_and_emit E n fp ct) n inbound)"

definition advance_handshake ::
  "('hs, 'ts, 's) env \<Rightarrow> ('hs, 'ts, 's) node \<Rightarrow> bytes \<Rightarrow> ('hs, 'ts, 's) node outcome" where
  "advance_handshake E n fp =
     and_then (unwrap (bm_get (noise_sessions n) fp)) (\<lambda>session.
       let finish = (\<lambda>n. if session_ready n fp then finish_session E n fp else n)
       in if is_ready session then Ret (finish n)
          else (case write_handshake (snow E) session of
                  (Inl _, _) \<Rightarrow> Ret (n\<lparr>noise_sessions := bm_remove fp (noise_sessions n)\<rparr>)
                | (Inr msg, session) \<Rightarrow>
                    let n = n\<lparr>noise_sessions := bm_insert fp session (noise_sessions n)\<rparr>
                    in Ret (finish (send_directed E n NoiseHandshake fp msg))))"

text \<open>Feeding the packet to the session just looked up or created; any successful read is progress.\<close>

definition read_and_advance ::
  "('hs, 'ts, 's) env \<Rightarrow> ('hs, 'ts, 's) node \<Rightarrow> bytes \<Rightarrow> bytes \<Rightarrow> ('hs, 'ts, 's) node outcome" where
  "read_and_advance E n fp payload =
     and_then (unwrap (bm_get (noise_sessions n) fp)) (\<lambda>session.
       case read_handshake (snow E) session payload of
         (Inl _, _) \<Rightarrow> Ret (n\<lparr>noise_sessions := bm_remove fp (noise_sessions n)\<rparr>)
       | (Inr _, session) \<Rightarrow>
           advance_handshake E
             (n\<lparr>noise_sessions := bm_insert fp session (noise_sessions n),
                handshake_last_ms := bm_insert fp (clock n) (handshake_last_ms n)\<rparr>) fp)"

definition add_responder ::
  "('hs, 'ts, 's) node \<Rightarrow> bytes \<Rightarrow> ('hs, 'ts) noise_session \<Rightarrow> ('hs, 'ts, 's) node" where
  "add_responder n fp s =
     n\<lparr>entropy := Suc (entropy n),
       noise_sessions := bm_insert fp s (noise_sessions n),
       handshake_last_ms := bm_insert fp (clock n) (handshake_last_ms n),
       handshake_attempts :=
         (if bm_contains (handshake_attempts n) fp then handshake_attempts n
          else bm_insert fp 0 (handshake_attempts n))\<rparr>"

text \<open>Whatever stood in the packet's way is gone: answer it.\<close>

definition answer_handshake ::
  "('hs, 'ts, 's) env \<Rightarrow> ('hs, 'ts, 's) node \<Rightarrow> bytes \<Rightarrow> bytes \<Rightarrow> ('hs, 'ts, 's) node outcome" where
  "answer_handshake E n fp payload =
     (if bm_contains (noise_sessions n) fp then read_and_advance E n fp payload
      else case new_responder (snow E) (dh_secret (identity n)) (entropy n) of
             Inl _ \<Rightarrow> Ret (n\<lparr>entropy := Suc (entropy n)\<rparr>)
           | Inr s \<Rightarrow> read_and_advance E (add_responder n fp s) fp payload)"

text \<open>Whether both sides are initiating: a first message met by our own initiator handshake.\<close>

definition glare :: "('hs, 'ts, 's) node \<Rightarrow> bytes \<Rightarrow> bytes \<Rightarrow> bool" where
  "glare n fp payload \<longleftrightarrow>
     length payload = XX_MSG1_LEN
     \<and> (case bm_get (noise_sessions n) fp of Some s \<Rightarrow> is_handshaking s \<and> initiator s | None \<Rightarrow> False)"

definition handle_noise_handshake ::
  "('hs, 'ts, 's) env \<Rightarrow> ('hs, 'ts, 's) node \<Rightarrow> packet \<Rightarrow> ('hs, 'ts, 's) node outcome" where
  "handle_noise_handshake E n pkt =
     (if p_recipient pkt \<noteq> Some (node_eph_id n) then Ret n
      else case eph_to_fp E n (p_sender pkt) of
             None \<Rightarrow> Ret n
           | Some fp \<Rightarrow>
               let ready = session_ready n fp;
                   tries = (case bm_get (resync_pending n) fp of Some k \<Rightarrow> k | None \<Rightarrow> 0) + 1
               in if ready \<and> tries < RESYNC_HANDSHAKE_THRESHOLD
                  then Ret (n\<lparr>resync_pending := bm_insert fp tries (resync_pending n)\<rparr>)
                  else
                    let n = (if ready
                             then n\<lparr>resync_pending := bm_remove fp (resync_pending n),
                                    noise_sessions := bm_remove fp (noise_sessions n)\<rparr>
                             else n)
                    in if glare n fp (p_payload pkt)
                       then (if node_fingerprint E n < fp then Ret n
                             else answer_handshake E
                                    (n\<lparr>noise_sessions := bm_remove fp (noise_sessions n)\<rparr>) fp (p_payload pkt))
                       else answer_handshake E n fp (p_payload pkt))"

definition handle_direct_message ::
  "('hs, 'ts, 's) env \<Rightarrow> ('hs, 'ts, 's) node \<Rightarrow> packet \<Rightarrow> ('hs, 'ts, 's) node" where
  "handle_direct_message E n pkt =
     (if p_recipient pkt \<noteq> Some (node_eph_id n) then n
      else case eph_to_fp E n (p_sender pkt) of
             None \<Rightarrow> n
           | Some fp \<Rightarrow>
               if session_ready n fp then decrypt_and_emit E n fp (p_payload pkt)
               else
                 let buf = get_or_default (pending_inbound_dms n) fp;
                     buf = (if length buf < 32 then buf @ [p_payload pkt] else buf);
                     n = n\<lparr>pending_inbound_dms := bm_insert fp buf (pending_inbound_dms n)\<rparr>
                 in if \<not> bm_contains (noise_sessions n) fp then begin_handshake E n fp else n)"

section \<open>Links\<close>

fun unwrap_snd :: "('a \<times> 'b option) list \<Rightarrow> ('a \<times> 'b) list outcome" where
  "unwrap_snd [] = Ret []"
| "unwrap_snd ((a, b) # xs) =
     and_then (unwrap b) (\<lambda>v. and_then (unwrap_snd xs) (\<lambda>vs. Ret ((a, v) # vs)))"

definition resolve_link :: "('hs, 'ts, 's) env \<Rightarrow> ('hs, 'ts, 's) node \<Rightarrow> link_id \<times> eph_id \<Rightarrow> ('hs, 'ts, 's) node" where
  "resolve_link E n = (\<lambda>(l, eph).
     case eph_to_fp E n eph of
       None \<Rightarrow> n
     | Some fp \<Rightarrow>
         (case bm_get (links n) l of
            None \<Rightarrow> n
          | Some st \<Rightarrow> n\<lparr>links := bm_insert l (st\<lparr>peer_fp := Some fp\<rparr>) (links n)\<rparr>))"

definition links_by_fp :: "(link_id, link_state) bmap \<Rightarrow> (bytes, link_id list) bmap" where
  "links_by_fp ls =
     foldl (\<lambda>m (l, st). case peer_fp st of
              None \<Rightarrow> m
            | Some fp \<Rightarrow> bm_insert fp (get_or_default m fp @ [l]) m) [] ls"

definition close_link :: "('hs, 'ts, 's) node \<Rightarrow> link_id \<Rightarrow> ('hs, 'ts, 's) node" where
  "close_link n l = n\<lparr>links := bm_remove l (links n), outbox := outbox n @ [Close l]\<rparr>"

definition dedup_links :: "('hs, 'ts, 's) env \<Rightarrow> ('hs, 'ts, 's) node \<Rightarrow> ('hs, 'ts, 's) node outcome" where
  "dedup_links E n =
     and_then (unwrap_snd (map (\<lambda>(l, st). (l, peer_eph st))
                 (filter (\<lambda>(l, st). peer_fp st = None \<and> peer_eph st \<noteq> None) (links n)))) (\<lambda>pending.
       let n = foldl (resolve_link E) n pending;
           redundant = concat (map (\<lambda>(fp, ids). drop 1 ids) (links_by_fp (links n)))
       in Ret (foldl close_link n redundant))"

definition note_link_identity ::
  "('hs, 'ts, 's) env \<Rightarrow> ('hs, 'ts, 's) node \<Rightarrow> link_id \<Rightarrow> eph_id \<Rightarrow> ('hs, 'ts, 's) node outcome" where
  "note_link_identity E n link eph =
     dedup_links E
       (case bm_get (links n) link of
          None \<Rightarrow> n
        | Some l \<Rightarrow>
            if peer_eph l \<noteq> Some eph
            then n\<lparr>links := bm_insert link (l\<lparr>peer_eph := Some eph, peer_fp := None\<rparr>) (links n)\<rparr>
            else n)"

section \<open>Packets\<close>

definition accept_announce ::
  "('hs, 'ts, 's) env \<Rightarrow> ('hs, 'ts, 's) node \<Rightarrow> packet \<Rightarrow> bytes \<Rightarrow> bytes \<Rightarrow> rstring \<Rightarrow> ('hs, 'ts, 's) node outcome" where
  "accept_announce E n pkt pubkey dh_pub nick =
     (let fp = sha256 E pubkey;
          prev = bm_get (peer_static_dh n) fp;
          n = n\<lparr>eph_keys := bm_insert (p_sender pkt) pubkey (eph_keys n),
                fp_to_eph := bm_insert fp (p_sender pkt) (fp_to_eph n),
                peer_static_dh := bm_insert fp dh_pub (peer_static_dh n)\<rparr>;
          n = (case prev of
                 Some old \<Rightarrow>
                   if old \<noteq> dh_pub \<and> get_peer (store E) (n_store n) fp \<noteq> None
                   then push_event (PeerKeyChanged fp) (store_dm E n fp False [DM_KIND_KEY_CHANGED])
                   else n
               | None \<Rightarrow> n);
          existing = get_peer (store E) (n_store n) fp;
          n = n\<lparr>n_store := upsert_peer (store E) (n_store n)
                  \<lparr>pr_fingerprint = fp,
                   petname = (case existing of Some p \<Rightarrow> petname p | None \<Rightarrow> None),
                   verified = (case existing of Some p \<Rightarrow> verified p | None \<Rightarrow> False),
                   last_eph = p_sender pkt, last_seen_ms = p_timestamp_ms pkt\<rparr>\<rparr>;
          n = push_event (PeerAppeared fp (p_sender pkt) (if nick = [] then None else Some nick)) n
      in and_then (dedup_links E n) (\<lambda>n.
           let (held, st) = take_envelopes (store E) (n_store n) fp
           in Ret (foldl (\<lambda>n bs. send_dm E n fp (from_utf8_lossy bs)) (n\<lparr>n_store := st\<rparr>) held)))"

definition handle_announce ::
  "('hs, 'ts, 's) env \<Rightarrow> ('hs, 'ts, 's) node \<Rightarrow> packet \<Rightarrow> ('hs, 'ts, 's) node outcome" where
  "handle_announce E n pkt =
     and_then (decode_announce (p_payload pkt)) (\<lambda>d.
       case d of
         None \<Rightarrow> Ret n
       | Some (pubkey, dh_pub, nick) \<Rightarrow>
           if \<not> vk_valid E pubkey then Ret n
           else if packet_verify (ed_verify E) pkt pubkey \<noteq> Inr () then Ret n
           else accept_announce E n pkt pubkey dh_pub nick)"

definition handle_channel ::
  "('hs, 'ts, 's) env \<Rightarrow> ('hs, 'ts, 's) node \<Rightarrow> packet \<Rightarrow> ('hs, 'ts, 's) node outcome" where
  "handle_channel E n pkt =
     and_then (decode_channel (lz4_decompress E) (p_payload pkt) (n_cfg n)) (\<lambda>d.
       case d of
         None \<Rightarrow> Ret n
       | Some (channel, txt) \<Rightarrow>
           let key = (case bm_get (eph_keys n) (p_sender pkt) of
                        Some pk \<Rightarrow> if vk_valid E pk then Some pk else None
                      | None \<Rightarrow> None);
               forged = (case key of Some vk \<Rightarrow> packet_verify (ed_verify E) pkt vk \<noteq> Inr () | None \<Rightarrow> False)
           in if forged then Ret n
              else
                let n = n\<lparr>n_store := put_channel_message (store E) (n_store n)
                            \<lparr>sm_digest = packet_digest (sha256 E) pkt, sm_channel = channel,
                             sm_sender = p_sender pkt, sm_timestamp_ms = p_timestamp_ms pkt,
                             sm_body = txt, sm_raw = encode pkt\<rparr>\<rparr>
                in Ret (if bm_contains (subscribed n) channel
                        then push_event (MessageReceived channel (p_sender pkt) txt (p_timestamp_ms pkt) (key \<noteq> None)) n
                        else n))"

definition handle_sync_request ::
  "('hs, 'ts, 's) env \<Rightarrow> ('hs, 'ts, 's) node \<Rightarrow> link_id \<Rightarrow> packet \<Rightarrow> ('hs, 'ts, 's) node outcome" where
  "handle_sync_request E n link pkt =
     and_then (decode_sync (p_payload pkt)) (\<lambda>d.
       case d of
         None \<Rightarrow> Ret n
       | Some remote \<Rightarrow>
           let mine = sync_filter_new (sf_channel remote) (channel_digests (store E) (n_store n) (sf_channel remote));
               missing = missing_from mine remote
           in Ret (foldl (\<lambda>n d.
                case message_by_digest (store E) (n_store n) d of
                  Some m \<Rightarrow> if sm_raw m \<noteq> [] then send_bytes n link (sm_raw m) d (link_mtu n link) else n
                | None \<Rightarrow> n) n missing))"

definition send_sync_requests ::
  "('hs, 'ts, 's) env \<Rightarrow> ('hs, 'ts, 's) node \<Rightarrow> link_id \<Rightarrow> ('hs, 'ts, 's) node" where
  "send_sync_requests E n link =
     foldl (\<lambda>n channel.
       let filt = sync_filter_new channel (channel_digests (store E) (n_store n) channel);
           pkt = signed_packet E n SyncRequest 1 None (encode_sync filt)
       in send_on_link E n link pkt) n (map fst (subscribed n))"

definition maybe_relay ::
  "('hs, 'ts, 's) env \<Rightarrow> ('hs, 'ts, 's) node \<Rightarrow> link_id \<Rightarrow> packet \<Rightarrow> ('hs, 'ts, 's) node" where
  "maybe_relay E n arrived_link pkt =
     (if p_ttl pkt \<le> 1 then n
      else
        let (go, r) = should_relay (rngs E) (length (links n)) (n_cfg n) (n_rng n);
            n = n\<lparr>n_rng := r\<rparr>
        in if \<not> go then n
           else
             let pkt = pkt\<lparr>p_ttl := p_ttl pkt - 1\<rparr>;
                 (delay, r) = relay_delay (rngs E) (n_cfg n) (n_rng n)
             in n\<lparr>n_rng := r,
                  scheduler := schedule (scheduler n) (packet_digest (sha256 E) pkt) pkt arrived_link delay (clock n)\<rparr>)"

definition dispatch ::
  "('hs, 'ts, 's) env \<Rightarrow> ('hs, 'ts, 's) node \<Rightarrow> link_id \<Rightarrow> packet \<Rightarrow> ('hs, 'ts, 's) node outcome" where
  "dispatch E n link pkt =
     (case p_type pkt of
        Announce \<Rightarrow> handle_announce E n pkt
      | ChannelMessage \<Rightarrow> handle_channel E n pkt
      | SyncRequest \<Rightarrow> handle_sync_request E n link pkt
      | NoiseHandshake \<Rightarrow> handle_noise_handshake E n pkt
      | DirectMessage \<Rightarrow> Ret (handle_direct_message E n pkt)
      | _ \<Rightarrow> Ret n)"

text \<open>What happens to a decoded packet.\<close>

definition on_packet ::
  "('hs, 'ts, 's) env \<Rightarrow> ('hs, 'ts, 's) node \<Rightarrow> link_id \<Rightarrow> packet \<Rightarrow> ('hs, 'ts, 's) node outcome" where
  "on_packet E n link pkt =
     and_then (if p_type pkt = SyncRequest then note_link_identity E n link (p_sender pkt) else Ret n) (\<lambda>n.
       let (obs, sc) = observe (seen n) (packet_digest (sha256 E) pkt) (clock n);
           n = n\<lparr>seen := sc\<rparr>
       in if \<not> is_new obs then Ret n
          else
            let (ok, rl) = allow (rate n) (p_sender pkt) (clock n);
                n = n\<lparr>rate := rl\<rparr>
            in if \<not> ok then Ret n
               else and_then (dispatch E n link pkt) (\<lambda>n. Ret (maybe_relay E n link pkt)))"

definition on_frame ::
  "('hs, 'ts, 's) env \<Rightarrow> ('hs, 'ts, 's) node \<Rightarrow> link_id \<Rightarrow> bytes \<Rightarrow> ('hs, 'ts, 's) node outcome" where
  "on_frame E n link frame =
     and_then (ingest (n_reassembler n) frame (clock n)) (\<lambda>(res, ra).
       let n = n\<lparr>n_reassembler := ra\<rparr> in
       case res of
         Inl _ \<Rightarrow> Ret n
       | Inr None \<Rightarrow> Ret n
       | Inr (Some bs) \<Rightarrow>
           and_then (decode bs) (\<lambda>d.
             case d of
               Inl _ \<Rightarrow> Ret n
             | Inr pkt \<Rightarrow> on_packet E n link pkt))"

section \<open>Transport events and timers\<close>

definition on_transport_event ::
  "('hs, 'ts, 's) env \<Rightarrow> ('hs, 'ts, 's) node \<Rightarrow> transport_event \<Rightarrow> ('hs, 'ts, 's) node outcome" where
  "on_transport_event E n ev =
     (case ev of
        LinkUp link m _ \<Rightarrow>
          Ret (send_sync_requests E
                 (announce E (n\<lparr>links := bm_insert link \<lparr>mtu = m, peer_eph = None, peer_fp = None\<rparr> (links n)\<rparr>)) link)
      | MtuChanged link m \<Rightarrow>
          Ret (case bm_get (links n) link of
                 Some l \<Rightarrow> n\<lparr>links := bm_insert link (l\<lparr>mtu := m\<rparr>) (links n)\<rparr>
               | None \<Rightarrow> n)
      | LinkDown link \<Rightarrow> Ret (push_event (PeerLost link) (n\<lparr>links := bm_remove link (links n)\<rparr>))
      | FrameReceived link frame \<Rightarrow> on_frame E n link frame)"

definition stalled :: "('hs, 'ts, 's) node \<Rightarrow> millis \<Rightarrow> bytes \<Rightarrow> bool" where
  "stalled n now fp \<longleftrightarrow>
     \<not> (session_ready n fp \<or> \<not> bm_contains (fp_to_eph n) fp)
     \<and> \<not> DM_HANDSHAKE_MAX_ATTEMPTS \<le> (case bm_get (handshake_attempts n) fp of Some k \<Rightarrow> k | None \<Rightarrow> 0)
     \<and> DM_HANDSHAKE_RETRY_MS \<le> saturating_sub now (case bm_get (handshake_last_ms n) fp of Some t \<Rightarrow> t | None \<Rightarrow> 0)"

definition retry_handshake :: "('hs, 'ts, 's) env \<Rightarrow> ('hs, 'ts, 's) node \<Rightarrow> bytes \<Rightarrow> ('hs, 'ts, 's) node" where
  "retry_handshake E n fp = begin_handshake E (n\<lparr>noise_sessions := bm_remove fp (noise_sessions n)\<rparr>) fp"

definition retry_stalled_handshakes ::
  "('hs, 'ts, 's) env \<Rightarrow> ('hs, 'ts, 's) node \<Rightarrow> millis \<Rightarrow> ('hs, 'ts, 's) node" where
  "retry_stalled_handshakes E n now =
     foldl (retry_handshake E) n (filter (stalled n now) (hash_order E (map fst (handshake_attempts n))))"

definition fire_relay :: "('hs, 'ts, 's) env \<Rightarrow> ('hs, 'ts, 's) node \<Rightarrow> due_relay \<Rightarrow> ('hs, 'ts, 's) node" where
  "fire_relay E n d =
     broadcast E (n\<lparr>relays_fired := relays_fired n + 1\<rparr>) (dr_packet d) (Some (dr_exclude_link d))"

definition tick :: "('hs, 'ts, 's) env \<Rightarrow> ('hs, 'ts, 's) node \<Rightarrow> (millis \<times> ('hs, 'ts, 's) node) outcome" where
  "tick E n =
     and_then (due (scheduler n) (clock n) (seen n)) (\<lambda>(out, sch).
       let n = foldl (fire_relay E) (n\<lparr>scheduler := sch\<rparr>) out;
           n = n\<lparr>seen := snd (evict_expired_seen (seen n) (clock n)),
                 n_reassembler := snd (evict_expired_slots (n_reassembler n) (clock n))\<rparr>
       in Ret (250, retry_stalled_handshakes E n (clock n)))"

end
