(* ===== verification/Relations.thy ===== *)
theory Relations
  imports Handlers
begin

text \<open>
  How the operations of a node are composed.  Most facts about a node relate its state before and after
  an operation (a part is untouched, a bound is kept, no session changes its key), and they hold of
  the large operations because they hold of the few elementary updates these are made of.  The
  locales state this once: \<open>message_relation\<close> for what sending and receiving messages does, extended by
  \<open>handshake_relation\<close> for the handlers of handshake and message packets.  Each relation of the later
  theories is an interpretation.
\<close>

section \<open>What the sending operations change\<close>

text \<open>The calls one packet makes on one link, and a broadcast as one update of the outbox.\<close>

definition frames_of :: "link_id \<Rightarrow> bytes \<Rightarrow> bytes \<Rightarrow> nat \<Rightarrow> transport_call list" where
  "frames_of l bs d m = (case frag_split bs d m of Inr fs \<Rightarrow> map (Send l) fs | Inl _ \<Rightarrow> [])"

definition broadcast_calls ::
  "('hs, 'ts, 's) env \<Rightarrow> ('hs, 'ts, 's) node \<Rightarrow> packet \<Rightarrow> link_id option \<Rightarrow> transport_call list" where
  "broadcast_calls E n pkt ex =
     concat (map (\<lambda>(l, st). frames_of l (encode pkt) (packet_digest (sha256 E) pkt) (mtu st))
               (filter (\<lambda>(l, st). Some l \<noteq> ex) (links n)))"

lemma send_bytes_eq: "send_bytes n l bs d m = n\<lparr>outbox := outbox n @ frames_of l bs d m\<rparr>"
  by (simp add: send_bytes_def frames_of_def split: sum.splits)

lemma foldl_send_bytes:
  "foldl (\<lambda>n (l, m). send_bytes n l bs d m) n ts =
     n\<lparr>outbox := outbox n @ concat (map (\<lambda>(l, m). frames_of l bs d m) ts)\<rparr>"
  by (induction ts arbitrary: n) (auto simp: send_bytes_eq)

lemma broadcast_eq: "broadcast E n pkt ex = n\<lparr>outbox := outbox n @ broadcast_calls E n pkt ex\<rparr>"
proof -
  have eq: "map (\<lambda>(l, m). frames_of l b d m) (map (\<lambda>(l, st). (l, mtu st)) ls) = map (\<lambda>(l, st). frames_of l b d (mtu st)) ls"
    for b d ls by (induction ls) auto
  show ?thesis by (simp only: broadcast_def Let_def foldl_send_bytes broadcast_calls_def eq)
qed

lemma broadcast_calls_update [simp]:
  "broadcast_calls E (n\<lparr>relays_fired := k\<rparr>) = broadcast_calls E n"
  "broadcast_calls E (n\<lparr>outbox := xs\<rparr>) = broadcast_calls E n"
  "broadcast_calls E (n\<lparr>scheduler := sch\<rparr>) = broadcast_calls E n"
  "broadcast_calls E (n\<lparr>seen := sc\<rparr>) = broadcast_calls E n"
  by (simp_all add: broadcast_calls_def fun_eq_iff)

lemma send_on_link_eq:
  "send_on_link E n l pkt = n\<lparr>outbox := outbox n @ frames_of l (encode pkt) (packet_digest (sha256 E) pkt) (link_mtu n l)\<rparr>"
  by (simp add: send_on_link_def send_bytes_eq)

text \<open>The link of a call, and calls that are all on links of the node.\<close>

fun call_link :: "transport_call \<Rightarrow> link_id" where
  "call_link (Send l _) = l"
| "call_link (Close l) = l"

definition on_links :: "('hs, 'ts, 's) node \<Rightarrow> transport_call list \<Rightarrow> bool" where
  "on_links n xs \<longleftrightarrow> call_link ` set xs \<subseteq> fst ` set (links n)"

lemma frames_of_link: "c \<in> set (frames_of l bs d m) \<Longrightarrow> call_link c = l"
  by (auto simp: frames_of_def split: sum.splits)

lemma broadcast_on_links: "on_links n (broadcast_calls E n pkt ex)"
  by (force simp: on_links_def broadcast_calls_def dest: frames_of_link)

lemma send_directed_eq:
  "\<exists>d xs. on_links n xs \<and> (send_directed E n t fp payload = n \<or>
     send_directed E n t fp payload = n\<lparr>seen := snd (observe (seen n) d (clock n)), outbox := outbox n @ xs\<rparr>)"
proof (cases "bm_get (fp_to_eph n) fp")
  case None
  then have "on_links n [] \<and> send_directed E n t fp payload = n" by (simp add: send_directed_def on_links_def)
  then show ?thesis by blast
next
  case (Some r)
  let ?pkt = "signed_packet E n t (origin_ttl (n_cfg n) t (length (links n))) (Some r) payload"
  have "send_directed E n t fp payload = n\<lparr>seen := snd (observe (seen n) (packet_digest (sha256 E) ?pkt) (clock n)),
      outbox := outbox n @ broadcast_calls E n ?pkt None\<rparr>"
    using Some by (simp add: send_directed_def broadcast_eq observe_own_def Let_def)
  with broadcast_on_links show ?thesis by blast
qed

lemma announce_eq:
  "\<exists>d xs. announce E n = n\<lparr>seen := snd (observe (seen n) d (clock n)), outbox := xs\<rparr>"
  by (auto simp: announce_def broadcast_eq observe_own_def Let_def)

section \<open>Messages\<close>

locale message_relation =
  fixes E :: "('hs, 'ts, 's) env" and R :: "('hs, 'ts, 's) node \<Rightarrow> ('hs, 'ts, 's) node \<Rightarrow> bool"
  assumes r_refl: "R n n"
    and r_trans: "R n m \<Longrightarrow> R m n' \<Longrightarrow> R n n'"
    and r_sent: "on_links n xs \<Longrightarrow> R n (n\<lparr>seen := snd (observe (seen n) d (clock n)), outbox := outbox n @ xs\<rparr>)"
    and r_put_dm: "R n (n\<lparr>n_store := put_dm (store E) (n_store n) dm\<rparr>)"
    and r_queued: "R n (n\<lparr>n_store := queue_envelope (store E) (n_store n) fp b t\<rparr>)"
    and r_pending: "R n (n\<lparr>pending_dms := pd\<rparr>)"
    and r_timers: "R n (n\<lparr>handshake_last_ms := c, handshake_attempts := g\<rparr>)"
    and r_notice: "R n (n\<lparr>notice_pending := np\<rparr>)"
    and r_event: "R n (push_event ev n)"
    and r_resynced: "R n (n\<lparr>resync_pending := bm_remove fp (resync_pending n)\<rparr>)"
    and r_inbound: "R n (n\<lparr>pending_inbound_dms := bm_remove fp (pending_inbound_dms n)\<rparr>)"
    and r_entropy: "R n (n\<lparr>entropy := e\<rparr>)"
    and r_dropped: "R n (n\<lparr>noise_sessions := bm_remove fp (noise_sessions n)\<rparr>)"
    and r_encrypted: "bm_get (noise_sessions n) fp = Some s \<Longrightarrow> encrypt (snow E) s p = (res, s') \<Longrightarrow>
      R n (n\<lparr>noise_sessions := bm_insert fp s' (noise_sessions n)\<rparr>)"
    and r_decrypted: "bm_get (noise_sessions n) fp = Some s \<Longrightarrow> decrypt (snow E) s p = (res', s') \<Longrightarrow>
      R n (n\<lparr>noise_sessions := bm_insert fp s' (noise_sessions n)\<rparr>)"
    and r_initiated: "new_initiator (snow E) k e = Inr s \<Longrightarrow> write_handshake (snow E) s = (Inr msg, s') \<Longrightarrow>
      R n (n\<lparr>noise_sessions := bm_insert fp s' (noise_sessions n)\<rparr>)"
begin

lemma r_foldl: "(\<And>n x. R n (f n x)) \<Longrightarrow> R n (foldl f n xs)"
  by (induction xs arbitrary: n) (auto intro: r_refl r_trans)

lemma r_send_directed: "R n (send_directed E n t fp p)"
proof -
  obtain d xs where "on_links n xs" "send_directed E n t fp p = n \<or>
     send_directed E n t fp p = n\<lparr>seen := snd (observe (seen n) d (clock n)), outbox := outbox n @ xs\<rparr>"
    using send_directed_eq by blast
  then show ?thesis using r_refl r_sent by auto
qed

lemma r_store_dm: "R n (store_dm E n fp mine body)"
  unfolding store_dm_def by (rule r_put_dm)

lemma r_encrypt_and_send_dm: "R n (encrypt_and_send_dm E n fp kind body)"
proof (cases "bm_get (noise_sessions n) fp")
  case (Some s)
  obtain res s' where e: "encrypt (snow E) s (kind # body) = (res, s')" by fastforce
  have "R n (n\<lparr>noise_sessions := bm_insert fp s' (noise_sessions n)\<rparr>)" by (rule r_encrypted [OF Some e])
  with Some e show ?thesis
    by (auto simp: encrypt_and_send_dm_def Let_def split: sum.splits intro: r_trans [OF _ r_send_directed])
qed (simp add: encrypt_and_send_dm_def r_refl)

lemma r_send_control_dm: "R n (send_control_dm E n fp kind)"
  unfolding send_control_dm_def by (rule r_trans [OF r_store_dm r_encrypt_and_send_dm])

lemma r_try_send_verify_notice: "R n (try_send_verify_notice E n fp)"
  unfolding try_send_verify_notice_def by (auto intro: r_refl r_trans [OF r_notice r_send_control_dm])

lemma r_begin_handshake: "R n (begin_handshake E n fp)"
proof (cases "new_initiator (snow E) (dh_secret (identity n)) (entropy n)")
  case (Inr s)
  obtain res s' where w: "write_handshake (snow E) s = (res, s')" by fastforce
  show ?thesis
  proof (cases res)
    case msg: (Inr msg)
    let ?n = "n\<lparr>entropy := Suc (entropy n), noise_sessions := bm_insert fp s' (noise_sessions n)\<rparr>"
    have "R (n\<lparr>entropy := Suc (entropy n)\<rparr>) ((n\<lparr>entropy := Suc (entropy n)\<rparr>)\<lparr>noise_sessions := bm_insert fp s'
        (noise_sessions (n\<lparr>entropy := Suc (entropy n)\<rparr>))\<rparr>)"
      using Inr w msg by (intro r_initiated) auto
    then have "R n ?n" using r_trans [OF r_entropy] by simp
    then have "R n (send_directed E ?n NoiseHandshake fp msg)" by (rule r_trans [OF _ r_send_directed])
    from r_trans [OF this r_timers] show ?thesis
      using Inr w msg by (simp add: begin_handshake_def Let_def)
  qed (use Inr w r_entropy in \<open>simp add: begin_handshake_def\<close>)
qed (simp add: begin_handshake_def r_entropy)

lemma r_send_dm: "R n (send_dm E n fp txt)"
proof -
  let ?n = "store_dm E n fp True txt"
  have "R ?n (send_dm E n fp txt)"
  proof (cases "session_ready ?n fp \<or> \<not> bm_contains (fp_to_eph ?n) fp")
    case True
    then show ?thesis using r_encrypt_and_send_dm r_queued by (auto simp: send_dm_def Let_def)
  next
    case False
    let ?m = "?n\<lparr>pending_dms := bm_insert fp (get_or_default (pending_dms ?n) fp @ [txt]) (pending_dms ?n)\<rparr>"
    have "send_dm E n fp txt =
        (if \<not> bm_contains (noise_sessions ?m) fp then begin_handshake E ?m fp
         else ?m\<lparr>handshake_last_ms := bm_remove fp (handshake_last_ms ?m),
                 handshake_attempts := bm_remove fp (handshake_attempts ?m)\<rparr>)"
      using False by (simp add: send_dm_def Let_def)
    then show ?thesis using r_trans [OF r_pending r_begin_handshake] r_trans [OF r_pending r_timers] by presburger
  qed
  then show ?thesis by (rule r_trans [OF r_store_dm])
qed

lemma r_decrypt_and_emit: "R n (decrypt_and_emit E n fp ct)"
proof (cases "bm_get (noise_sessions n) fp")
  case (Some s)
  obtain res s' where d: "decrypt (snow E) s ct = (res, s')" by fastforce
  let ?n = "n\<lparr>noise_sessions := bm_insert fp s' (noise_sessions n)\<rparr>"
  have k: "R n ?n" by (rule r_decrypted [OF Some d])
  show ?thesis
  proof (cases res)
    case (Inr pt)
    obtain kind body where kb: "split_kind pt = (kind, body)" by fastforce
    have "R n (?n\<lparr>resync_pending := bm_remove fp (resync_pending ?n)\<rparr>)" (is "R n ?m")
      using k by (rule r_trans [OF _ r_resynced])
    then have "R n (push_event ev (store_dm E ?m fp mine b))" for ev mine b
      by (rule r_trans [OF r_trans [OF _ r_store_dm] r_event])
    with Some d Inr kb show ?thesis
      by (auto simp: decrypt_and_emit_def Let_def intro: r_trans [OF _ r_send_control_dm])
  qed (use Some d k in \<open>auto simp: decrypt_and_emit_def\<close>)
qed (simp add: decrypt_and_emit_def r_refl)

lemma r_finish_session: "R n (finish_session E n fp)"
proof (cases "session_bound E n fp")
  case True
  let ?t = "n\<lparr>handshake_last_ms := bm_remove fp (handshake_last_ms n), handshake_attempts := bm_remove fp (handshake_attempts n)\<rparr>"
  define n1 where "n1 = try_send_verify_notice E (push_event (DmSession fp True)
      (?t\<lparr>resync_pending := bm_remove fp (resync_pending ?t)\<rparr>)) fp"
  define n2 where "n2 = foldl (\<lambda>n txt. encrypt_and_send_dm E n fp DM_KIND_TEXT txt)
      (n1\<lparr>pending_dms := bm_remove fp (pending_dms n1)\<rparr>) (get_or_default (pending_dms n1) fp)"
  have "R n n1" unfolding n1_def
    by (rule r_trans [OF r_trans [OF r_trans [OF r_timers r_resynced] r_event] r_try_send_verify_notice])
  have "R n1 n2" unfolding n2_def
    by (rule r_trans [OF r_pending r_foldl]) (rule r_encrypt_and_send_dm)
  have "R n2 (foldl (\<lambda>n ct. decrypt_and_emit E n fp ct)
      (n2\<lparr>pending_inbound_dms := bm_remove fp (pending_inbound_dms n2)\<rparr>) (get_or_default (pending_inbound_dms n2) fp))"
    by (rule r_trans [OF r_inbound r_foldl]) (rule r_decrypt_and_emit)
  from r_trans [OF r_trans [OF \<open>R n n1\<close> \<open>R n1 n2\<close>] this] show ?thesis
    using True by (simp add: finish_session_def Let_def n1_def n2_def)
next
  case False
  let ?n = "n\<lparr>noise_sessions := bm_remove fp (noise_sessions n)\<rparr>\<lparr>pending_dms := bm_remove fp (pending_dms n)\<rparr>
      \<lparr>handshake_last_ms := bm_remove fp (handshake_last_ms n), handshake_attempts := bm_remove fp (handshake_attempts n)\<rparr>"
  have "R n (push_event (DmSession fp False) ?n)"
    by (rule r_trans [OF r_trans [OF r_trans [OF r_dropped r_pending] r_timers] r_event])
  with False show ?thesis by (simp add: finish_session_def)
qed

lemma r_retry_stalled: "R n (retry_stalled_handshakes E n now)"
  unfolding retry_stalled_handshakes_def retry_handshake_def
  by (rule r_foldl) (rule r_trans [OF r_dropped r_begin_handshake])

end

section \<open>Packets for this node\<close>

text \<open>A handshake packet for this node: counted while a session is ready, otherwise answered.\<close>

definition resync_tries :: "('hs, 'ts, 's) node \<Rightarrow> bytes \<Rightarrow> u8" where
  "resync_tries n fp = (case bm_get (resync_pending n) fp of Some k \<Rightarrow> k | None \<Rightarrow> 0) + 1"

definition torn_down :: "('hs, 'ts, 's) node \<Rightarrow> bytes \<Rightarrow> ('hs, 'ts, 's) node" where
  "torn_down n fp = (if session_ready n fp
     then n\<lparr>resync_pending := bm_remove fp (resync_pending n), noise_sessions := bm_remove fp (noise_sessions n)\<rparr>
     else n)"

lemma handle_noise_handshake_stray:
  assumes "p_recipient pkt = Some (node_eph_id n)" "eph_to_fp E n (p_sender pkt) = Some fp"
    "session_ready n fp \<and> resync_tries n fp < RESYNC_HANDSHAKE_THRESHOLD"
  shows "handle_noise_handshake E n pkt = Ret (n\<lparr>resync_pending := bm_insert fp (resync_tries n fp) (resync_pending n)\<rparr>)"
  using assms by (simp add: handle_noise_handshake_def Let_def resync_tries_def)

lemma handle_noise_handshake_answer:
  assumes "p_recipient pkt = Some (node_eph_id n)" "eph_to_fp E n (p_sender pkt) = Some fp"
    "\<not> (session_ready n fp \<and> resync_tries n fp < RESYNC_HANDSHAKE_THRESHOLD)"
  shows "handle_noise_handshake E n pkt =
    (if glare (torn_down n fp) fp (p_payload pkt)
     then (if node_fingerprint E (torn_down n fp) < fp then Ret (torn_down n fp)
           else answer_handshake E ((torn_down n fp)\<lparr>noise_sessions := bm_remove fp (noise_sessions (torn_down n fp))\<rparr>) fp (p_payload pkt))
     else answer_handshake E (torn_down n fp) fp (p_payload pkt))"
  using assms unfolding handle_noise_handshake_def Let_def torn_down_def resync_tries_def by simp

locale handshake_relation = message_relation +
  assumes r_session: "R n (n\<lparr>noise_sessions := bm_insert fp s (noise_sessions n)\<rparr>)"
    and r_resync: "k < RESYNC_HANDSHAKE_THRESHOLD \<Longrightarrow> R n (n\<lparr>resync_pending := bm_insert fp k (resync_pending n)\<rparr>)"
    and r_buffered: "R n (n\<lparr>pending_inbound_dms := bm_insert fp
      (let buf = get_or_default (pending_inbound_dms n) fp in if length buf < 32 then buf @ [ct] else buf) (pending_inbound_dms n)\<rparr>)"
begin

text \<open>The handshake handlers never panic: the session they unwrap has just been looked up or inserted.\<close>

lemma r_finish_if: "R n (if session_ready n fp then finish_session E n fp else n)"
  using r_finish_session r_refl by simp

lemma r_advance_handshake:
  assumes "bm_get (noise_sessions n) fp = Some s"
  shows "\<exists>n'. advance_handshake E n fp = Ret n' \<and> R n n'"
proof -
  obtain res s' where w: "write_handshake (snow E) s = (res, s')" by fastforce
  show ?thesis
  proof (cases "is_ready s")
    case True
    with assms r_finish_if [of n fp] show ?thesis by (auto simp: advance_handshake_def)
  next
    case False
    let ?m = "\<lambda>msg. send_directed E (n\<lparr>noise_sessions := bm_insert fp s' (noise_sessions n)\<rparr>) NoiseHandshake fp msg"
    have "advance_handshake E n fp = Ret (case res of Inl _ \<Rightarrow> n\<lparr>noise_sessions := bm_remove fp (noise_sessions n)\<rparr>
        | Inr msg \<Rightarrow> if session_ready (?m msg) fp then finish_session E (?m msg) fp else ?m msg)"
      using False assms w by (simp add: advance_handshake_def Let_def split: sum.splits)
    moreover have "R n (if session_ready (?m msg) fp then finish_session E (?m msg) fp else ?m msg)" for msg
      by (rule r_trans [OF r_trans [OF r_session r_send_directed] r_finish_if])
    ultimately show ?thesis using r_dropped by (cases res) auto
  qed
qed

lemma r_read_and_advance:
  assumes "bm_get (noise_sessions n) fp = Some s"
  shows "\<exists>n'. read_and_advance E n fp payload = Ret n' \<and> R n n'"
proof -
  obtain res s' where r: "read_handshake (snow E) s payload = (res, s')" by fastforce
  let ?s = "n\<lparr>noise_sessions := bm_insert fp s' (noise_sessions n)\<rparr>"
  let ?n = "?s\<lparr>handshake_last_ms := bm_insert fp (clock ?s) (handshake_last_ms ?s), handshake_attempts := handshake_attempts ?s\<rparr>"
  have k: "R n ?n" by (rule r_trans [OF r_session r_timers])
  obtain n' where n': "advance_handshake E ?n fp = Ret n'" "R ?n n'"
    using r_advance_handshake [of ?n fp s'] by auto
  have "read_and_advance E n fp payload = (case res of Inl _ \<Rightarrow> Ret (n\<lparr>noise_sessions := bm_remove fp (noise_sessions n)\<rparr>)
      | Inr _ \<Rightarrow> advance_handshake E ?n fp)"
    using assms r by (simp add: read_and_advance_def split: sum.splits)
  then show ?thesis using n' r_trans [OF k] r_dropped by (cases res) auto
qed

lemma r_add_responder: "R n (add_responder n fp s)"
proof -
  let ?e = "n\<lparr>entropy := Suc (entropy n)\<rparr>"
  let ?s = "?e\<lparr>noise_sessions := bm_insert fp s (noise_sessions ?e)\<rparr>"
  have "R n (?s\<lparr>handshake_last_ms := c, handshake_attempts := g\<rparr>)" for c g
    by (rule r_trans [OF r_trans [OF r_entropy r_session] r_timers])
  then show ?thesis by (simp add: add_responder_def)
qed

lemma r_answer_handshake: "\<exists>n'. answer_handshake E n fp payload = Ret n' \<and> R n n'"
proof (cases "bm_get (noise_sessions n) fp")
  case None
  have "\<exists>n'. read_and_advance E (add_responder n fp s) fp payload = Ret n' \<and> R n n'" for s
  proof -
    have "bm_get (noise_sessions (add_responder n fp s)) fp = Some s" by (simp add: add_responder_def)
    from r_read_and_advance [OF this, of payload] show ?thesis using r_trans [OF r_add_responder] by blast
  qed
  with None r_entropy show ?thesis by (auto simp: answer_handshake_def bm_contains_def split: sum.splits)
next
  case (Some s)
  with r_read_and_advance [OF Some, of payload] show ?thesis by (simp add: answer_handshake_def bm_contains_def)
qed

lemma r_handle_noise_handshake: "\<exists>n'. handle_noise_handshake E n pkt = Ret n' \<and> R n n'"
proof (cases "p_recipient pkt = Some (node_eph_id n) \<and> eph_to_fp E n (p_sender pkt) \<noteq> None")
  case True
  then obtain fp where fp: "eph_to_fp E n (p_sender pkt) = Some fp" by blast
  note to_us = True [THEN conjunct1] fp
  show ?thesis
  proof (cases "session_ready n fp \<and> resync_tries n fp < RESYNC_HANDSHAKE_THRESHOLD")
    case stray: True
    then have "R n (n\<lparr>resync_pending := bm_insert fp (resync_tries n fp) (resync_pending n)\<rparr>)" by (intro r_resync) simp
    with handle_noise_handshake_stray [OF to_us stray] show ?thesis by simp
  next
    case False
    let ?m = "torn_down n fp"
    have "R (n\<lparr>resync_pending := bm_remove fp (resync_pending n)\<rparr>) (n\<lparr>resync_pending := bm_remove fp (resync_pending n)\<rparr>
        \<lparr>noise_sessions := bm_remove fp (noise_sessions (n\<lparr>resync_pending := bm_remove fp (resync_pending n)\<rparr>))\<rparr>)"
      by (rule r_dropped)
    from r_trans [OF r_resynced this] have m: "R n ?m" by (simp add: torn_down_def r_refl)
    have "\<exists>n'. answer_handshake E (?m\<lparr>noise_sessions := bm_remove fp (noise_sessions ?m)\<rparr>) fp (p_payload pkt) = Ret n' \<and> R n n'"
      using r_answer_handshake r_trans [OF r_trans [OF m r_dropped]] by blast
    moreover have "\<exists>n'. answer_handshake E ?m fp (p_payload pkt) = Ret n' \<and> R n n'"
      using r_answer_handshake r_trans [OF m] by blast
    ultimately show ?thesis using m unfolding handle_noise_handshake_answer [OF to_us False] by simp
  qed
next
  case False
  then have "handle_noise_handshake E n pkt = Ret n" by (auto simp: handle_noise_handshake_def)
  with r_refl show ?thesis by simp
qed

lemma r_handle_direct_message: "R n (handle_direct_message E n pkt)"
proof (cases "p_recipient pkt = Some (node_eph_id n) \<and> eph_to_fp E n (p_sender pkt) \<noteq> None")
  case True
  then obtain fp where fp: "eph_to_fp E n (p_sender pkt) = Some fp" by blast
  let ?buf = "let buf = get_or_default (pending_inbound_dms n) fp in if length buf < 32 then buf @ [p_payload pkt] else buf"
  let ?m = "n\<lparr>pending_inbound_dms := bm_insert fp ?buf (pending_inbound_dms n)\<rparr>"
  have "handle_direct_message E n pkt =
      (if session_ready n fp then decrypt_and_emit E n fp (p_payload pkt)
       else if \<not> bm_contains (noise_sessions ?m) fp then begin_handshake E ?m fp else ?m)"
    using True fp by (simp add: handle_direct_message_def Let_def)
  then show ?thesis using r_decrypt_and_emit r_buffered r_trans [OF r_buffered r_begin_handshake] by presburger
next
  case False
  then have "handle_direct_message E n pkt = n" by (auto simp: handle_direct_message_def)
  with r_refl show ?thesis by simp
qed

end

end
