(* ===== verification/Invariants.thy ===== *)
theory Invariants
  imports Relations
begin

text \<open>
  What every command, handler and timer of the node keeps: the relation \<open>keeps\<close> (the parts of the
  state that sessions and messages do not touch, and the bounds of the parts they do), the invariant
  \<open>node_ok\<close> of the whole node, and that no event and no timer panics from a state that satisfies it.
\<close>

section \<open>The part of the state that sessions and messages do not touch\<close>

definition parts_ok :: "('hs, 'ts, 's) node \<Rightarrow> bool" where
  "parts_ok n \<longleftrightarrow> seen_ok (seen n) \<and> bm_ok (links n)
     \<and> (\<forall>fp. length (get_or_default (pending_inbound_dms n) fp) \<le> 32)
     \<and> (\<forall>fp k. bm_get (resync_pending n) fp = Some k \<longrightarrow> k < RESYNC_HANDSHAKE_THRESHOLD)"

definition keeps :: "('hs, 'ts, 's) node \<Rightarrow> ('hs, 'ts, 's) node \<Rightarrow> bool" where
  "keeps n n' \<longleftrightarrow>
     identity n' = identity n \<and> n_cfg n' = n_cfg n \<and> clock n' = clock n \<and> n_reassembler n' = n_reassembler n
     \<and> rate n' = rate n \<and> scheduler n' = scheduler n \<and> n_rng n' = n_rng n \<and> nickname n' = nickname n
     \<and> relays_fired n' = relays_fired n \<and> subscribed n' = subscribed n \<and> (parts_ok n \<longrightarrow> parts_ok n')"

lemma keeps_refl [simp, intro]: "keeps n n"
  by (simp add: keeps_def)

lemma keeps_trans [trans]: "keeps n m \<Longrightarrow> keeps m k \<Longrightarrow> keeps n k"
  by (simp add: keeps_def)

lemma keeps_foldl: "(\<And>n x. keeps n (f n x)) \<Longrightarrow> keeps n (foldl f n xs)"
  by (induction xs arbitrary: n) (auto intro: keeps_trans)

lemma keeps_update [intro]:
  "keeps n (n\<lparr>noise_sessions := a\<rparr>)" "keeps n (n\<lparr>n_store := st\<rparr>)" "keeps n (n\<lparr>pending_dms := b\<rparr>)"
  "keeps n (n\<lparr>entropy := e\<rparr>)" "keeps n (n\<lparr>handshake_last_ms := c\<rparr>)" "keeps n (n\<lparr>handshake_attempts := g\<rparr>)"
  "keeps n (n\<lparr>notice_pending := h\<rparr>)" "keeps n (push_event ev n)" "keeps n (n\<lparr>outbox := ob\<rparr>)"
  "keeps n (n\<lparr>resync_pending := bm_remove fp (resync_pending n)\<rparr>)"
  "keeps n (n\<lparr>pending_inbound_dms := bm_remove fp (pending_inbound_dms n)\<rparr>)"
  "keeps n (n\<lparr>fp_to_eph := i\<rparr>)" "keeps n (n\<lparr>eph_keys := j\<rparr>)" "keeps n (n\<lparr>peer_static_dh := l\<rparr>)"
  by (auto simp: keeps_def parts_ok_def push_event_def)

text \<open>So messages and handshakes keep it too, and the handshake handlers never panic.\<close>

interpretation kp: handshake_relation E keeps for E
proof unfold_locales
  show "keeps n m \<Longrightarrow> keeps m n' \<Longrightarrow> keeps n n'" for n m n' :: "('a, 'b, 'c) node" by (rule keeps_trans)
qed (auto simp: keeps_def parts_ok_def push_event_def observe_ok Let_def)

lemmas keeps_send_dm [intro] = kp.r_send_dm
lemmas keeps_store_dm [intro] = kp.r_store_dm
lemmas keeps_notice [intro] = kp.r_try_send_verify_notice
lemmas keeps_begin_handshake [intro] = kp.r_begin_handshake
lemmas keeps_direct_message [intro] = kp.r_handle_direct_message
lemmas handle_noise_handshake_keeps = kp.r_handle_noise_handshake

section \<open>Links\<close>

lemma unwrap_snd_total: "(\<forall>(a, b) \<in> set xs. b \<noteq> None) \<Longrightarrow> unwrap_snd xs = Ret (map (\<lambda>(a, b). (a, the b)) xs)"
  by (induction xs rule: unwrap_snd.induct) auto

lemma resolve_link_eq: "\<exists>ls. resolve_link E n p = n\<lparr>links := ls\<rparr> \<and> (bm_ok (links n) \<longrightarrow> bm_ok ls)"
proof -
  obtain l eph where p: "p = (l, eph)" by (cases p)
  show ?thesis
  proof (cases "\<exists>fp st. eph_to_fp E n eph = Some fp \<and> bm_get (links n) l = Some st")
    case True
    then obtain fp st where "eph_to_fp E n eph = Some fp" "bm_get (links n) l = Some st" by blast
    then have "resolve_link E n p = n\<lparr>links := bm_insert l (st\<lparr>peer_fp := Some fp\<rparr>) (links n)\<rparr>"
      by (simp add: resolve_link_def p)
    then show ?thesis by (metis bm_ok_insert)
  next
    case False
    then have "resolve_link E n p = n" by (auto simp: resolve_link_def p split: option.splits)
    then have "resolve_link E n p = n\<lparr>links := links n\<rparr>" by simp
    then show ?thesis by metis
  qed
qed

lemma keeps_resolve [intro]: "keeps n (resolve_link E n p)"
proof -
  obtain ls where "resolve_link E n p = n\<lparr>links := ls\<rparr>" "bm_ok (links n) \<longrightarrow> bm_ok ls" using resolve_link_eq by blast
  then show ?thesis by (auto simp: keeps_def parts_ok_def)
qed

lemma keeps_close [intro]: "keeps n (close_link n l)"
  by (simp add: close_link_def keeps_def parts_ok_def)

text \<open>The links left after resolving identities, and the ones closed.\<close>

definition resolved :: "('hs, 'ts, 's) env \<Rightarrow> ('hs, 'ts, 's) node \<Rightarrow> ('hs, 'ts, 's) node" where
  "resolved E n = foldl (resolve_link E) n
     (map (\<lambda>(l, st). (l, the (peer_eph st))) (filter (\<lambda>(l, st). peer_fp st = None \<and> peer_eph st \<noteq> None) (links n)))"

definition redundant_links :: "('hs, 'ts, 's) node \<Rightarrow> link_id list" where
  "redundant_links n = concat (map (\<lambda>(fp, ids). drop 1 ids) (links_by_fp (links n)))"

lemma dedup_links_eq: "dedup_links E n = Ret (foldl close_link (resolved E n) (redundant_links (resolved E n)))"
proof -
  let ?xs = "filter (\<lambda>(l, st). peer_fp st = None \<and> peer_eph st \<noteq> None) (links n)"
  have "unwrap_snd (map (\<lambda>(l, st). (l, peer_eph st)) ?xs) = Ret (map (\<lambda>(a, b). (a, the b)) (map (\<lambda>(l, st). (l, peer_eph st)) ?xs))"
    by (rule unwrap_snd_total) auto
  moreover have eq: "map (\<lambda>(a, b). (a, the b)) (map (\<lambda>(l, st). (l, peer_eph st)) ys) = map (\<lambda>(l, st). (l, the (peer_eph st))) ys" for ys
    by (induction ys) auto
  ultimately show ?thesis by (simp only: dedup_links_def and_then.simps Let_def resolved_def redundant_links_def eq)
qed

lemma dedup_links_keeps: "\<exists>n'. dedup_links E n = Ret n' \<and> keeps n n'"
proof -
  have "keeps n (resolved E n)" unfolding resolved_def by (rule keeps_foldl) auto
  also have "keeps (resolved E n) (foldl close_link (resolved E n) (redundant_links (resolved E n)))"
    by (rule keeps_foldl) auto
  finally show ?thesis by (simp add: dedup_links_eq)
qed

lemma foldl_resolve_eq: "\<exists>ls. foldl (resolve_link E) n ps = n\<lparr>links := ls\<rparr>"
proof (induction ps arbitrary: n)
  case Nil
  have "n = n\<lparr>links := links n\<rparr>" by simp
  then show ?case by (metis foldl_Nil)
next
  case (Cons p ps)
  obtain ls where "resolve_link E n p = n\<lparr>links := ls\<rparr>" using resolve_link_eq by blast
  moreover obtain ls' where "foldl (resolve_link E) (n\<lparr>links := ls\<rparr>) ps = n\<lparr>links := ls\<rparr>\<lparr>links := ls'\<rparr>"
    using Cons.IH by blast
  ultimately have "foldl (resolve_link E) n (p # ps) = n\<lparr>links := ls'\<rparr>" by simp
  then show ?case by blast
qed

lemma foldl_close_eq: "\<exists>ls xs. foldl close_link n ids = n\<lparr>links := ls, outbox := xs\<rparr>"
proof (induction ids arbitrary: n)
  case Nil
  have "n = n\<lparr>links := links n, outbox := outbox n\<rparr>" by simp
  then show ?case by (metis foldl_Nil)
next
  case (Cons l ids)
  obtain ls xs where "foldl close_link (close_link n l) ids = (close_link n l)\<lparr>links := ls, outbox := xs\<rparr>"
    using Cons.IH by blast
  then have "foldl close_link n (l # ids) = n\<lparr>links := ls, outbox := xs\<rparr>" by (simp add: close_link_def)
  then show ?case by blast
qed

lemma dedup_links_frame:
  assumes "dedup_links E n = Ret n'"
  obtains ls xs where "n' = n\<lparr>links := ls, outbox := xs\<rparr>"
proof -
  obtain ls where r: "resolved E n = n\<lparr>links := ls\<rparr>" unfolding resolved_def using foldl_resolve_eq by blast
  obtain ls' xs where "foldl close_link (n\<lparr>links := ls\<rparr>) (redundant_links (n\<lparr>links := ls\<rparr>)) = n\<lparr>links := ls\<rparr>\<lparr>links := ls', outbox := xs\<rparr>"
    using foldl_close_eq by blast
  then have "n' = n\<lparr>links := ls', outbox := xs\<rparr>" using assms r by (simp add: dedup_links_eq)
  then show ?thesis by (rule that)
qed

lemma note_link_identity_keeps: "\<exists>n'. note_link_identity E n l eph = Ret n' \<and> keeps n n'"
proof -
  let ?n = "case bm_get (links n) l of None \<Rightarrow> n
        | Some s \<Rightarrow> if peer_eph s \<noteq> Some eph
            then n\<lparr>links := bm_insert l (s\<lparr>peer_eph := Some eph, peer_fp := None\<rparr>) (links n)\<rparr> else n"
  have "keeps n ?n" by (auto simp: keeps_def parts_ok_def split: option.splits)
  with dedup_links_keeps [of E ?n] show ?thesis unfolding note_link_identity_def using keeps_trans by blast
qed

section \<open>Packets\<close>

text \<open>An accepted announce: the state once the peer is recorded, and then what was held for it is sent.\<close>

definition announced ::
  "('hs, 'ts, 's) env \<Rightarrow> ('hs, 'ts, 's) node \<Rightarrow> packet \<Rightarrow> bytes \<Rightarrow> bytes \<Rightarrow> rstring \<Rightarrow> ('hs, 'ts, 's) node" where
  "announced E n pkt pk dh nick =
     (let fp = sha256 E pk;
          n1 = n\<lparr>eph_keys := bm_insert (p_sender pkt) pk (eph_keys n),
                 fp_to_eph := bm_insert fp (p_sender pkt) (fp_to_eph n), peer_static_dh := bm_insert fp dh (peer_static_dh n)\<rparr>;
          n2 = (case bm_get (peer_static_dh n) fp of
                  Some old \<Rightarrow> if old \<noteq> dh \<and> get_peer (store E) (n_store n1) fp \<noteq> None
                    then push_event (PeerKeyChanged fp) (store_dm E n1 fp False [DM_KIND_KEY_CHANGED]) else n1
                | None \<Rightarrow> n1);
          existing = get_peer (store E) (n_store n2) fp
      in push_event (PeerAppeared fp (p_sender pkt) (if nick = [] then None else Some nick))
           (n2\<lparr>n_store := upsert_peer (store E) (n_store n2)
              \<lparr>pr_fingerprint = fp,
               petname = (case existing of Some p \<Rightarrow> petname p | None \<Rightarrow> None),
               verified = (case existing of Some p \<Rightarrow> verified p | None \<Rightarrow> False),
               last_eph = p_sender pkt, last_seen_ms = p_timestamp_ms pkt\<rparr>\<rparr>))"

lemma announced_fields [simp]:
  "eph_keys (announced E n pkt pk dh nick) = bm_insert (p_sender pkt) pk (eph_keys n)"
  "fp_to_eph (announced E n pkt pk dh nick) = bm_insert (sha256 E pk) (p_sender pkt) (fp_to_eph n)"
  "peer_static_dh (announced E n pkt pk dh nick) = bm_insert (sha256 E pk) dh (peer_static_dh n)"
  "noise_sessions (announced E n pkt pk dh nick) = noise_sessions n"
  "links (announced E n pkt pk dh nick) = links n"
  by (simp_all add: announced_def Let_def push_event_def store_dm_def split: option.splits)

lemma announced_event:
  "PeerAppeared (sha256 E pk) (p_sender pkt) (if nick = [] then None else Some nick) \<in> set (events (announced E n pkt pk dh nick))"
  by (simp add: announced_def Let_def push_event_def)

lemma keeps_announced: "keeps n (announced E n pkt pk dh nick)"
  by (simp add: announced_def Let_def push_event_def store_dm_def keeps_def parts_ok_def split: option.splits)

lemma accept_announce_eq:
  "\<exists>ls xs held st. accept_announce E n pkt pk dh nick =
      Ret (foldl (\<lambda>n bs. send_dm E n (sha256 E pk) (from_utf8_lossy bs))
             ((announced E n pkt pk dh nick)\<lparr>links := ls, outbox := xs, n_store := st\<rparr>) held)
    \<and> take_envelopes (store E) (n_store (announced E n pkt pk dh nick)) (sha256 E pk) = (held, st)
    \<and> dedup_links E (announced E n pkt pk dh nick) = Ret ((announced E n pkt pk dh nick)\<lparr>links := ls, outbox := xs\<rparr>)"
proof -
  let ?a = "announced E n pkt pk dh nick"
  obtain n4 where n4: "dedup_links E ?a = Ret n4" using dedup_links_keeps by blast
  then obtain ls xs where f: "n4 = ?a\<lparr>links := ls, outbox := xs\<rparr>" by (rule dedup_links_frame)
  obtain held st where t: "take_envelopes (store E) (n_store ?a) (sha256 E pk) = (held, st)" by fastforce
  have "accept_announce E n pkt pk dh nick = and_then (dedup_links E ?a) (\<lambda>n.
      let (held, st) = take_envelopes (store E) (n_store n) (sha256 E pk)
      in Ret (foldl (\<lambda>n bs. send_dm E n (sha256 E pk) (from_utf8_lossy bs)) (n\<lparr>n_store := st\<rparr>) held))"
    unfolding accept_announce_def announced_def Let_def ..
  then have "accept_announce E n pkt pk dh nick =
      Ret (foldl (\<lambda>n bs. send_dm E n (sha256 E pk) (from_utf8_lossy bs)) (?a\<lparr>links := ls, outbox := xs, n_store := st\<rparr>) held)"
    by (simp add: n4 f t)
  with t n4 f show ?thesis by blast
qed

lemma accept_announce_keeps: "\<exists>n'. accept_announce E n pkt pk dh nick = Ret n' \<and> keeps n n'"
proof -
  let ?a = "announced E n pkt pk dh nick"
  obtain ls xs held st where
    eq: "accept_announce E n pkt pk dh nick = Ret (foldl (\<lambda>n bs. send_dm E n (sha256 E pk) (from_utf8_lossy bs))
           (?a\<lparr>links := ls, outbox := xs, n_store := st\<rparr>) held)"
    and d: "dedup_links E ?a = Ret (?a\<lparr>links := ls, outbox := xs\<rparr>)"
    using accept_announce_eq [of E n pkt pk dh nick] by blast
  have "keeps ?a (?a\<lparr>links := ls, outbox := xs\<rparr>)" using dedup_links_keeps [of E ?a] d by auto
  from keeps_trans [OF keeps_trans [OF keeps_announced this] keeps_update(2)]
  have "keeps n (foldl (\<lambda>n bs. send_dm E n (sha256 E pk) (from_utf8_lossy bs)) (?a\<lparr>links := ls, outbox := xs, n_store := st\<rparr>) held)"
    by (rule keeps_trans) (rule kp.r_foldl, rule keeps_send_dm)
  with eq show ?thesis by blast
qed

lemma handle_announce_keeps: "\<exists>n'. handle_announce E n pkt = Ret n' \<and> keeps n n'"
proof -
  obtain d where "decode_announce (p_payload pkt) = Ret d" using decode_announce_total by blast
  then show ?thesis
    using accept_announce_keeps by (cases d) (auto simp: handle_announce_def split: prod.splits)
qed

lemma handle_channel_keeps: "\<exists>n'. handle_channel E n pkt = Ret n' \<and> keeps n n'"
proof -
  obtain d where "decode_channel (lz4_decompress E) (p_payload pkt) (n_cfg n) = Ret d"
    using decode_channel_total by blast
  then show ?thesis
    by (auto simp: handle_channel_def Let_def split: option.splits prod.splits
        intro: keeps_trans [OF keeps_update(2,8)])
qed

lemma handle_sync_request_keeps: "\<exists>n'. handle_sync_request E n l pkt = Ret n' \<and> keeps n n'"
proof -
  obtain d where "decode_sync (p_payload pkt) = Ret d" using decode_sync_total by blast
  moreover have "keeps n (foldl (\<lambda>n d. case message_by_digest (store E) (n_store n) d of
                  Some m \<Rightarrow> if sm_raw m \<noteq> [] then send_bytes n l (sm_raw m) d (link_mtu n l) else n
                | None \<Rightarrow> n) n ds)" for ds
    by (rule keeps_foldl) (auto simp: send_bytes_eq split: option.splits)
  ultimately show ?thesis by (auto simp: handle_sync_request_def Let_def split: option.splits)
qed

lemma dispatch_keeps: "\<exists>n'. dispatch E n l pkt = Ret n' \<and> keeps n n'"
  using handle_announce_keeps handle_channel_keeps handle_sync_request_keeps handle_noise_handshake_keeps
  by (cases "p_type pkt") (auto simp: dispatch_def)

section \<open>The invariant of the node\<close>

definition node_ok :: "('hs, 'ts, 's) node \<Rightarrow> bool" where
  "node_ok n \<longleftrightarrow> reassembler_ok (n_reassembler n) \<and> limiter_ok (rate n) \<and> bm_ok (rs_pending (scheduler n)) \<and> parts_ok n"

lemma keeps_node_ok: "keeps n n' \<Longrightarrow> node_ok n \<Longrightarrow> node_ok n'"
  by (simp add: keeps_def node_ok_def)

lemma node_new_ok: "node_ok (node_new li cfg now st nick)"
  by (simp add: node_ok_def parts_ok_def node_new_def reassembler_new_ok limiter_ok_def rate_limiter_new_def
      relay_scheduler_new_def seen_cache_new_ok)

lemma maybe_relay_ok: "node_ok n \<Longrightarrow> node_ok (maybe_relay E n l pkt)"
  by (auto simp: maybe_relay_def node_ok_def parts_ok_def schedule_ok Let_def split: prod.splits)

lemma on_packet_ok:
  assumes "node_ok n"
  shows "\<exists>n'. on_packet E n l pkt = Ret n' \<and> node_ok n'"
proof -
  obtain m where m: "(if p_type pkt = SyncRequest then note_link_identity E n l (p_sender pkt) else Ret n) = Ret m"
    "node_ok m"
  proof (cases "p_type pkt = SyncRequest")
    case True
    with note_link_identity_keeps [of E n l "p_sender pkt"] keeps_node_ok assms that show ?thesis by auto
  qed (use assms that in auto)
  obtain obs sc where o1: "observe (seen m) (packet_digest (sha256 E) pkt) (clock m) = (obs, sc)" by fastforce
  have sc: "seen_ok sc" using m(2) observe_ok(1) [of "seen m"] o1 by (metis node_ok_def parts_ok_def snd_conv)
  let ?m = "m\<lparr>seen := sc\<rparr>"
  have ok1: "node_ok ?m" using m(2) sc by (simp add: node_ok_def parts_ok_def)
  obtain ok rl where a: "allow (rate ?m) (p_sender pkt) (clock ?m) = (ok, rl)" by fastforce
  have "limiter_ok rl" using m(2) allow_ok(1) [of "rate m" "p_sender pkt" "clock m"] a by (simp add: node_ok_def)
  then have ok2: "node_ok (?m\<lparr>rate := rl\<rparr>)" using ok1 by (simp add: node_ok_def parts_ok_def)
  obtain k where k: "dispatch E (?m\<lparr>rate := rl\<rparr>) l pkt = Ret k" "node_ok k"
    using dispatch_keeps [of E "?m\<lparr>rate := rl\<rparr>" l pkt] keeps_node_ok ok2 by blast
  show ?thesis
    unfolding on_packet_def m(1) and_then.simps o1 prod.case Let_def a k
    using ok1 ok2 maybe_relay_ok [OF k(2)] by auto
qed


lemma on_frame_ok:
  assumes "node_ok n"
  shows "\<exists>n'. on_frame E n l frame = Ret n' \<and> node_ok n'"
proof -
  obtain res ra where i: "ingest (n_reassembler n) frame (clock n) = Ret (res, ra)" "reassembler_ok ra"
    using ingest_ok [of "n_reassembler n" frame "clock n"] assms by (auto simp: node_ok_def)
  let ?n = "n\<lparr>n_reassembler := ra\<rparr>"
  have ok: "node_ok ?n" using assms i(2) by (simp add: node_ok_def parts_ok_def)
  obtain d where d: "res = Inr (Some bs) \<Longrightarrow> decode bs = Ret (d bs)" for bs using decode_total by metis
  show ?thesis
  proof (cases "\<exists>bs pkt. res = Inr (Some bs) \<and> d bs = Inr pkt")
    case True
    then obtain bs pkt where "res = Inr (Some bs)" "d bs = Inr pkt" by blast
    with on_packet_ok [OF ok, of E l pkt] i d show ?thesis by (simp add: on_frame_def)
  next
    case False
    then show ?thesis
    proof (cases "\<exists>bs. res = Inr (Some bs)")
      case True
      then obtain bs where bs: "res = Inr (Some bs)" by blast
      with False obtain e where "d bs = Inl e" by (cases "d bs") auto
      with i d [OF bs] bs ok show ?thesis by (simp add: on_frame_def)
    next
      case False
      then show ?thesis
      proof (cases res)
        case (Inr x)
        with False have "x = None" by (cases x) auto
        with i Inr ok show ?thesis by (simp add: on_frame_def)
      qed (use i ok in \<open>simp add: on_frame_def\<close>)
    qed
  qed
qed

lemma keeps_announce: "keeps n (announce E n)"
proof -
  obtain d xs where "announce E n = n\<lparr>seen := snd (observe (seen n) d (clock n)), outbox := xs\<rparr>"
    using announce_eq by blast
  then show ?thesis by (simp add: keeps_def parts_ok_def observe_ok)
qed

lemma keeps_sync_requests: "keeps n (send_sync_requests E n l)"
  unfolding send_sync_requests_def by (rule keeps_foldl) (auto simp: Let_def send_on_link_eq)

lemma on_transport_event_ok:
  assumes "node_ok n"
  shows "\<exists>n'. on_transport_event E n ev = Ret n' \<and> node_ok n'"
proof (cases ev)
  case (LinkUp l m h)
  let ?n = "n\<lparr>links := bm_insert l \<lparr>mtu = m, peer_eph = None, peer_fp = None\<rparr> (links n)\<rparr>"
  have "node_ok ?n" using assms by (simp add: node_ok_def parts_ok_def)
  then have "node_ok (send_sync_requests E (announce E ?n) l)"
    by (rule keeps_node_ok [OF keeps_trans [OF keeps_announce keeps_sync_requests]])
  with LinkUp show ?thesis by (simp add: on_transport_event_def)
next
  case (FrameReceived l f)
  with on_frame_ok [OF assms] show ?thesis by (simp add: on_transport_event_def)
qed (use assms in \<open>auto simp: on_transport_event_def node_ok_def parts_ok_def push_event_def split: option.splits\<close>)

lemmas keeps_retry = kp.r_retry_stalled

lemma fire_relay_eq:
  "fire_relay E n d = n\<lparr>relays_fired := relays_fired n + 1, outbox := outbox n @ broadcast_calls E n (dr_packet d) (Some (dr_exclude_link d))\<rparr>"
  by (simp add: fire_relay_def broadcast_eq broadcast_calls_def)

lemma fire_all_eq:
  "foldl (fire_relay E) n ds = n\<lparr>relays_fired := relays_fired n + of_nat (length ds),
     outbox := outbox n @ concat (map (\<lambda>d. broadcast_calls E n (dr_packet d) (Some (dr_exclude_link d))) ds)\<rparr>"
  by (induction ds arbitrary: n) (simp_all add: fire_relay_eq add.assoc)

lemma tick_ok:
  assumes "node_ok n"
  shows "\<exists>d n'. tick E n = Ret (d, n') \<and> node_ok n'"
proof -
  have p: "bm_ok (rs_pending (scheduler n))" using assms by (simp add: node_ok_def)
  obtain out sch where du: "due (scheduler n) (clock n) (seen n) = Ret (out, sch)" "bm_ok (rs_pending sch)"
    using due_eq [OF p, of "clock n" "seen n"] p by (auto simp: bm_ok_filter)
  obtain k xs where f: "foldl (fire_relay E) (n\<lparr>scheduler := sch\<rparr>) out = n\<lparr>scheduler := sch, relays_fired := k, outbox := xs\<rparr>"
    using fire_all_eq [of E "n\<lparr>scheduler := sch\<rparr>" out] by simp
  let ?n = "n\<lparr>scheduler := sch, relays_fired := k, outbox := xs, seen := snd (evict_expired_seen (seen n) (clock n)),
     n_reassembler := snd (evict_expired_slots (n_reassembler n) (clock n))\<rparr>"
  have "node_ok ?n"
    using assms du(2) evict_expired_seen_ok(1) evict_expired_slots_ok(1) by (auto simp: node_ok_def parts_ok_def)
  then have "node_ok (retry_stalled_handshakes E ?n (clock n))" by (rule keeps_node_ok [OF keeps_retry])
  with du(1) f show ?thesis by (simp add: tick_def Let_def)
qed

end
