(* ===== verification/Runs.thy ===== *)
theory Runs
  imports Invariants
begin

text \<open>
  Runs of a node: the inductive relation \<open>node_step\<close> has one rule for every public operation of
  \<open>MeshNode\<close>, and \<open>node_run\<close> is its closure with the list of the states passed through.  The
  invariant of theory Invariants holds along every run.  The theory also fixes one concrete instance
  of the parameters, used by the witnesses.
\<close>

section \<open>Commands and runs\<close>

text \<open>Everything that can happen to a node: transport events, the timer, the user's commands, the passing
  of time, and the platform draining what the node produced.\<close>

inductive node_step :: "('hs, 'ts, 's) env \<Rightarrow> ('hs, 'ts, 's) node \<Rightarrow> ('hs, 'ts, 's) node \<Rightarrow> bool"
  for E :: "('hs, 'ts, 's) env" where
  Event: "on_transport_event E n ev = Ret n' \<Longrightarrow> node_step E n n'"
| Tick: "tick E n = Ret (d, n') \<Longrightarrow> node_step E n n'"
| Clock: "node_step E n (n\<lparr>clock := t\<rparr>)"
| Drain: "node_step E n (n\<lparr>outbox := []\<rparr>)"
| TakeEvents: "node_step E n (snd (take_events n))"
| ResetRelays: "node_step E n (reset_relays_fired n)"
| JoinChannel: "node_step E n (join_channel E n name)"
| SendChannel: "node_step E n (snd (send_channel_message E n name txt))"
| Announce: "node_step E n (announce E n)"
| SendDm: "node_step E n (send_dm E n fp txt)"
| VerifyPeer: "node_step E n (verify_peer E n fp)"
| UnverifyPeer: "node_step E n (unverify_peer E n fp)"
| ForgetPeer: "node_step E n (forget_peer E n fp)"
| StartDm: "node_step E n (start_dm_session E n fp)"
| SetPetname: "node_step E n (set_petname E n fp name)"
| PanicWipe: "node_step E n (panic_wipe E n)"

inductive node_run :: "('hs, 'ts, 's) env \<Rightarrow> ('hs, 'ts, 's) node \<Rightarrow> ('hs, 'ts, 's) node list \<Rightarrow> ('hs, 'ts, 's) node \<Rightarrow> bool"
  for E :: "('hs, 'ts, 's) env" where
  run_refl: "node_run E n [n] n"
| run_step: "node_run E n hist m \<Longrightarrow> node_step E m k \<Longrightarrow> node_run E n (hist @ [k]) k"

lemma keeps_drop_session [intro]: "keeps n (drop_peer_session_state n fp)"
  by (auto simp: drop_peer_session_state_def keeps_def parts_ok_def)

lemma keeps_verify [intro]: "keeps n (verify_peer E n fp)"
  unfolding verify_peer_def Let_def by (rule keeps_trans [OF _ keeps_notice]) (simp add: keeps_def parts_ok_def)

lemma keeps_unverify [intro]: "keeps n (unverify_peer E n fp)"
  unfolding unverify_peer_def Let_def by (rule keeps_trans [OF keeps_update(2) keeps_drop_session])

lemma keeps_forget [intro]: "keeps n (forget_peer E n fp)"
  unfolding forget_peer_def Let_def
  by (rule keeps_trans [OF keeps_trans [OF keeps_update(2) keeps_drop_session] keeps_update(12)])

lemma keeps_start_dm [intro]: "keeps n (start_dm_session E n fp)"
  by (auto simp: start_dm_session_def)

lemma keeps_petname [intro]: "keeps n (set_petname E n fp name)"
  unfolding set_petname_def Let_def by (rule keeps_update(2))

lemma keeps_wipe [intro]: "keeps n (panic_wipe E n)"
  by (auto simp: panic_wipe_def keeps_def parts_ok_def get_or_default_def)

lemma send_channel_message_ok: "node_ok n \<Longrightarrow> node_ok (snd (send_channel_message E n name txt))"
  by (simp add: send_channel_message_def Let_def broadcast_eq observe_own_def node_ok_def parts_ok_def observe_ok)

lemmas keeps_commands =
  keeps_announce keeps_send_dm keeps_verify keeps_unverify keeps_forget keeps_start_dm keeps_petname keeps_wipe

lemma bookkeeping_ok:
  assumes "node_ok n"
  shows "node_ok (n\<lparr>clock := t\<rparr>)" "node_ok (n\<lparr>outbox := []\<rparr>)" "node_ok (snd (take_events n))"
    "node_ok (reset_relays_fired n)" "node_ok (join_channel E n name)"
  using assms by (simp_all add: take_events_def reset_relays_fired_def join_channel_def node_ok_def parts_ok_def)

lemma node_step_ok: "node_step E n n' \<Longrightarrow> node_ok n \<Longrightarrow> node_ok n'"
proof (induction rule: node_step.induct)
  case (Event n ev n')
  with on_transport_event_ok [OF Event.prems, of E ev] show ?case by auto
next
  case (Tick n d n')
  with tick_ok [OF Tick.prems, of E] show ?case by auto
qed (auto intro: send_channel_message_ok bookkeeping_ok keeps_commands [THEN keeps_node_ok])

lemma node_run_ok: "node_run E n hist m \<Longrightarrow> node_ok n \<Longrightarrow> node_ok m"
  by (induction rule: node_run.induct) (auto intro: node_step_ok)

section \<open>An instance of the parameters\<close>

text \<open>Concrete parameters for the witnesses: a handshake of three messages that carries both static keys
  in the clear, the counter cipher, and hashes, keys and signatures that pad their input to the right length.\<close>

definition pad32 :: "bytes \<Rightarrow> bytes" where
  "pad32 bs = take 32 (bs @ replicate 32 0)"

type_synonym xx_hs = "bool \<times> nat \<times> bytes \<times> bytes option"
type_synonym xx_ts = "bytes option \<times> u64 \<times> u64"

definition xx_snow :: "(xx_hs, xx_ts) snow" where
  "xx_snow =
     \<lparr>parse_params = (\<lambda>_. True),
      build_initiator = (\<lambda>k _. Inr (True, 0, k, None)), build_responder = (\<lambda>k _. Inr (False, 0, k, None)),
      hs_write_message = (\<lambda>(i, m, k, r) _ _.
        if m < 3 \<and> even m = i then (Inr (if m = 0 then replicate 32 0 else 1 # k), (i, Suc m, k, r))
        else (Inl ''state'', (i, m, k, r))),
      hs_read_message = (\<lambda>(i, m, k, r) msg _.
        if m < 3 \<and> even m \<noteq> i \<and> length msg = (if m = 0 then 32 else 33)
        then (Inr [], (i, Suc m, k, if m = 0 then r else Some (tl msg)))
        else (Inl ''state'', (i, m, k, r))),
      is_handshake_finished = (\<lambda>(i, m, k, r). m = 3), hs_remote_static = (\<lambda>(i, m, k, r). r),
      into_transport_mode = (\<lambda>(i, m, k, r). if m = 3 then Inr (r, 0, 0) else Inl ''state''),
      ts_remote_static = fst,
      sending_nonce = (\<lambda>(k, s, r). s), receiving_nonce = (\<lambda>(k, s, r). r),
      set_receiving_nonce = (\<lambda>(k, s, r) n. (k, s, n)),
      ts_write_message = (\<lambda>(k, s, r) p _. if s = - 1 then (Inl ''exhausted'', (k, s, r)) else (Inr (u64_to_be s @ p), (k, s + 1, r))),
      ts_read_message = (\<lambda>(k, s, r) c _. if r = - 1 \<or> take 8 c \<noteq> u64_to_be r then (Inl ''decrypt'', (k, s, r))
                                       else (Inr (drop 8 c), (k, s, r + 1)))\<rparr>"

definition sample_env :: "(xx_hs, xx_ts, memory_store) env" where
  "sample_env =
     \<lparr>sha256 = pad32, ed_public = pad32, x_public = pad32,
      ed_sign = (\<lambda>k m. pad32 (rev m) @ pad32 k), vk_valid = (\<lambda>k. length k = 32),
      ed_verify = (\<lambda>k m s. s = pad32 (rev m) @ k),
      lz4_compress = id, lz4_decompress = (\<lambda>b n. Inr (take n b)), uni_lower = id, hash_order = id,
      rngs = \<lparr>gen_f64 = (\<lambda>_. 0), gen_range = (\<lambda>_ a _. a), fill_bytes = (\<lambda>_ n. replicate n 0)\<rparr>,
      snow = xx_snow, store = memory_ops id\<rparr>"

definition sample_node :: "u8 \<Rightarrow> (xx_hs, xx_ts, memory_store) node" where
  "sample_node k = node_new \<lparr>signing = replicate 32 k, dh_secret = replicate 32 k, li_eph_id = replicate 8 k\<rparr>
     default_tunables 1000 (memory_store_new 1000 21600000 86400000 100) []"

lemma xx_snow_ok: "snow_ok xx_snow"
  by (auto simp: snow_ok_def xx_snow_def less_minus_1_iff split: if_splits)

section \<open>Properties\<close>

text \<open>C1: no sequence of events, timers and commands, with whatever bytes the peers send and however the
  random generator, the cipher, the codec and the store behave, brings a new node to a state where the
  next transport event or timer panics, and its caches stay within their bounds throughout.\<close>

theorem node_never_panics:
  assumes "node_run E (node_new li cfg now st nick) hist n"
  shows "(\<exists>n'. on_transport_event E n ev = Ret n') \<and> (\<exists>d n'. tick E n = Ret (d, n'))
    \<and> reassembler_ok (n_reassembler n) \<and> seen_ok (seen n) \<and> limiter_ok (rate n)
    \<and> length (get_or_default (pending_inbound_dms n) fp) \<le> 32"
proof -
  have ok: "node_ok n" by (rule node_run_ok [OF assms node_new_ok])
  with on_transport_event_ok [OF ok, of E ev] tick_ok [OF ok, of E] show ?thesis
    by (auto simp: node_ok_def parts_ok_def)
qed

theorem node_never_panics_witness:
  "\<exists>n'. on_transport_event sample_env (sample_node 1) (FrameReceived 7 [1, 2, 3]) = Ret n'"
  using node_never_panics [OF run_refl, of sample_env _ default_tunables 1000 _ "[]" "FrameReceived 7 [1, 2, 3]"]
  unfolding sample_node_def by blast

end
