(* ===== verification/Trust.thy ===== *)
theory Trust
  imports Runs
begin

text \<open>
  Who a session is with.  A direct-message session of a node becomes ready only for the static key that
  a signed announce bound to the fingerprint, and it keeps that key.  What is assumed of the Noise
  crate is \<open>snow_ok\<close> and that the XX pattern has three messages.
\<close>


section \<open>Which sessions are ready\<close>

text \<open>In Noise XX the initiator writes the first and the last of three messages, so a handshake is not
  finished by the message that opens it.\<close>

definition xx_three_messages :: "('hs, 'ts) snow \<Rightarrow> bool" where
  "xx_three_messages sn \<longleftrightarrow>
     (\<forall>k e hs b hs'. build_initiator sn k e = Inr hs \<longrightarrow> hs_write_message sn hs [] 1024 = (Inr b, hs') \<longrightarrow>
        \<not> is_handshake_finished sn hs')"

text \<open>The static key a ready session reports.\<close>

definition ready_key ::
  "('hs, 'ts, 's) env \<Rightarrow> (bytes, ('hs, 'ts) noise_session) bmap \<Rightarrow> bytes \<Rightarrow> bytes option option" where
  "ready_key E m fp =
     (case bm_get m fp of
        Some s \<Rightarrow> if is_ready s then Some (remote_static (snow E) s) else None
      | None \<Rightarrow> None)"

lemma ready_key_remove [simp]: "ready_key E (bm_remove fp m) fp' = (if fp' = fp then None else ready_key E m fp')"
  by (simp add: ready_key_def)

lemma ready_key_insert [simp]:
  "ready_key E (bm_insert fp s m) fp' =
     (if fp' = fp then if is_ready s then Some (remote_static (snow E) s) else None else ready_key E m fp')"
  by (simp add: ready_key_def)

lemma ready_key_Nil [simp]: "ready_key E [] fp = None"
  by (simp add: ready_key_def)

lemma session_ready_iff: "session_ready n fp \<longleftrightarrow> ready_key E (noise_sessions n) fp \<noteq> None"
  by (auto simp: session_ready_def ready_key_def split: option.splits)

text \<open>No session becomes ready and none changes its key.\<close>

definition sess_keeps :: "('hs, 'ts, 's) env \<Rightarrow> ('hs, 'ts, 's) node \<Rightarrow> ('hs, 'ts, 's) node \<Rightarrow> bool" where
  "sess_keeps E n n' \<longleftrightarrow> peer_static_dh n' = peer_static_dh n
     \<and> (\<forall>fp r. ready_key E (noise_sessions n') fp = Some r \<longrightarrow> ready_key E (noise_sessions n) fp = Some r)"

lemma sess_keeps_refl [simp, intro]: "sess_keeps E n n"
  by (simp add: sess_keeps_def)

lemma sess_keeps_trans [trans]: "sess_keeps E n m \<Longrightarrow> sess_keeps E m k \<Longrightarrow> sess_keeps E n k"
  by (simp add: sess_keeps_def)

lemma sess_keeps_update [intro]:
  "sess_keeps E n (n\<lparr>noise_sessions := bm_remove fp (noise_sessions n)\<rparr>)" "sess_keeps E n (n\<lparr>n_store := st\<rparr>)"
  "sess_keeps E n (n\<lparr>pending_dms := b\<rparr>)" "sess_keeps E n (n\<lparr>entropy := e\<rparr>)"
  "sess_keeps E n (n\<lparr>handshake_last_ms := c\<rparr>)" "sess_keeps E n (n\<lparr>handshake_attempts := g\<rparr>)"
  "sess_keeps E n (n\<lparr>notice_pending := h\<rparr>)" "sess_keeps E n (push_event ev n)" "sess_keeps E n (n\<lparr>outbox := ob\<rparr>)"
  "sess_keeps E n (n\<lparr>resync_pending := rp\<rparr>)" "sess_keeps E n (n\<lparr>pending_inbound_dms := pd\<rparr>)"
  "sess_keeps E n (n\<lparr>fp_to_eph := i\<rparr>)" "sess_keeps E n (n\<lparr>links := ls\<rparr>)" "sess_keeps E n (n\<lparr>seen := sc\<rparr>)"
  "sess_keeps E n (store_dm E n fp mine body)"
  by (auto simp: sess_keeps_def push_event_def store_dm_def split: if_splits)

text \<open>Using a session keeps it ready and keeps its key.\<close>

lemma encrypt_keeps:
  assumes "snow_ok sn" "encrypt sn s p = (res, s')"
  shows "is_ready s' = is_ready s" "remote_static sn s' = remote_static sn s"
proof -
  have "is_ready s' = is_ready s \<and> remote_static sn s' = remote_static sn s"
  proof (cases "inner s")
    case (Transport ts)
    obtain r ts' where w: "ts_write_message sn ts p (length p + 64) = (r, ts')" by fastforce
    then have "inner s' = Transport ts'" using assms(2) Transport by (auto simp: encrypt_def split: sum.splits)
    moreover have "ts_remote_static sn ts' = ts_remote_static sn ts"
      using snow_ok_write [OF assms(1) w] by (auto split: sum.splits)
    ultimately show ?thesis using Transport by (simp add: is_ready_def remote_static_def)
  qed (use assms(2) in \<open>auto simp: encrypt_def is_ready_def\<close>)
  then show "is_ready s' = is_ready s" "remote_static sn s' = remote_static sn s" by auto
qed

lemma decrypt_keeps:
  assumes "snow_ok sn" "decrypt sn s p = (res, s')"
  shows "is_ready s' = is_ready s" "remote_static sn s' = remote_static sn s"
  using assms(2) decrypt_Inl [OF assms(1)] decrypt_Inr [OF assms(1)] by (cases res; auto)+

lemma sess_keeps_same_session:
  assumes "bm_get (noise_sessions n) fp = Some s" "is_ready s' = is_ready s"
    "remote_static (snow E) s' = remote_static (snow E) s"
  shows "sess_keeps E n (n\<lparr>noise_sessions := bm_insert fp s' (noise_sessions n)\<rparr>)"
  using assms by (auto simp: sess_keeps_def ready_key_def)

lemma begin_not_ready:
  assumes "xx_three_messages sn" "new_initiator sn k e = Inr s" "write_handshake sn s = (Inr msg, s')"
  shows "\<not> is_ready s'"
  using assms
  by (auto simp: xx_three_messages_def new_initiator_def write_handshake_def maybe_transition_def is_ready_def
      split: if_splits sum.splits prod.splits)

definition noise_laws :: "('hs, 'ts) snow \<Rightarrow> bool" where
  "noise_laws sn \<longleftrightarrow> snow_ok sn \<and> xx_three_messages sn"

text \<open>Sending and receiving messages, opening a handshake and ending one make no session ready.\<close>

interpretation sk: message_relation E "\<lambda>n n'. noise_laws (snow E) \<longrightarrow> sess_keeps E n n'" for E
proof (unfold_locales; intro impI)
  fix n :: "('a, 'b, 'c) node" and s s' fp p and res :: "bytes result"
  assume sn: "noise_laws (snow E)" and s: "bm_get (noise_sessions n) fp = Some s"
  show "sess_keeps E n (n\<lparr>noise_sessions := bm_insert fp s' (noise_sessions n)\<rparr>)" if "encrypt (snow E) s p = (res, s')"
    using that encrypt_keeps [OF _ that] s sn by (intro sess_keeps_same_session) (auto simp: noise_laws_def)
  show "sess_keeps E n (n\<lparr>noise_sessions := bm_insert fp s' (noise_sessions n)\<rparr>)" if "decrypt (snow E) s p = (res, s')"
    using that decrypt_keeps [OF _ that] s sn by (intro sess_keeps_same_session) (auto simp: noise_laws_def)
next
  fix n :: "('a, 'b, 'c) node" and s s' fp k e msg
  assume sn: "noise_laws (snow E)" and w: "new_initiator (snow E) k e = Inr s" "write_handshake (snow E) s = (Inr msg, s')"
  from sn have "xx_three_messages (snow E)" by (simp add: noise_laws_def)
  from begin_not_ready [OF this w] have "\<not> is_ready s'" .
  then show "sess_keeps E n (n\<lparr>noise_sessions := bm_insert fp s' (noise_sessions n)\<rparr>)"
    by (auto simp: sess_keeps_def split: if_splits)
qed (auto simp: sess_keeps_def push_event_def split: if_splits)

lemmas sess_keeps_send_dm = sk.r_send_dm [rule_format]
lemmas sess_keeps_finish = sk.r_finish_session [rule_format]
lemmas sess_keeps_notice = sk.r_try_send_verify_notice [rule_format]
lemmas sess_keeps_begin_handshake = sk.r_begin_handshake [rule_format]
lemmas sess_keeps_decrypt = sk.r_decrypt_and_emit [rule_format]

section \<open>Handshakes end in sessions bound to the announced key\<close>

lemma session_bound_iff:
  "session_bound E n fp \<longleftrightarrow>
     (\<exists>s k. bm_get (noise_sessions n) fp = Some s \<and> remote_static (snow E) s = Some k \<and> bm_get (peer_static_dh n) fp = Some k)"
  by (auto simp: session_bound_def split: option.splits)

text \<open>After a handshake step for \<open>fp\<close>, a ready session of \<open>fp\<close> is bound, and the others are untouched.\<close>

definition advanced :: "('hs, 'ts, 's) env \<Rightarrow> bytes \<Rightarrow> ('hs, 'ts, 's) node \<Rightarrow> ('hs, 'ts, 's) node \<Rightarrow> bool" where
  "advanced E fp n n' \<longleftrightarrow> peer_static_dh n' = peer_static_dh n
     \<and> (\<forall>fp' r. ready_key E (noise_sessions n') fp' = Some r \<longrightarrow>
          (if fp' = fp then \<exists>k. r = Some k \<and> bm_get (peer_static_dh n) fp = Some k
           else ready_key E (noise_sessions n) fp' = Some r))"

lemma finish_advanced:
  assumes "noise_laws (snow E)" "session_ready n fp"
  shows "advanced E fp n (finish_session E n fp)"
proof (cases "session_bound E n fp")
  case True
  note k = sess_keeps_finish [OF assms(1), of n fp]
  have "\<exists>k. r = Some k \<and> bm_get (peer_static_dh n) fp = Some k" if "ready_key E (noise_sessions n) fp = Some r" for r
    using that True unfolding session_bound_iff by (auto simp: ready_key_def split: if_splits)
  with k show ?thesis by (auto simp: advanced_def sess_keeps_def)
next
  case False
  then show ?thesis by (auto simp: finish_session_def advanced_def push_event_def split: if_splits)
qed

lemma advanced_if:
  assumes "noise_laws (snow E)"
  shows "advanced E fp n (if session_ready n fp then finish_session E n fp else n)"
proof (cases "session_ready n fp")
  case False
  then have "ready_key E (noise_sessions n) fp = None" by (simp add: session_ready_iff [of _ _ E])
  with False show ?thesis by (simp add: advanced_def)
qed (simp add: finish_advanced [OF assms])

lemma advanced_compose:
  assumes "advanced E fp m k" "peer_static_dh m = peer_static_dh n"
    "\<And>fp' r. fp' \<noteq> fp \<Longrightarrow> ready_key E (noise_sessions m) fp' = Some r \<Longrightarrow> ready_key E (noise_sessions n) fp' = Some r"
  shows "advanced E fp n k"
  using assms by (auto simp: advanced_def split: if_splits)

lemma advance_handshake_advanced:
  assumes "noise_laws (snow E)" "advance_handshake E n fp = Ret n'"
  shows "advanced E fp n n'"
proof -
  obtain s where s: "bm_get (noise_sessions n) fp = Some s"
    using assms(2) by (auto simp: advance_handshake_def and_then_eq_Ret unwrap_def split: option.splits)
  obtain res s' where w: "write_handshake (snow E) s = (res, s')" by fastforce
  show ?thesis
  proof (cases "is_ready s")
    case True
    with s assms advanced_if [OF assms(1), of fp n] show ?thesis by (simp add: advance_handshake_def)
  next
    case False
    show ?thesis
    proof (cases res)
      case (Inl e)
      with s w False assms(2) show ?thesis by (auto simp: advance_handshake_def advanced_def split: if_splits)
    next
      case (Inr msg)
      let ?n = "n\<lparr>noise_sessions := bm_insert fp s' (noise_sessions n)\<rparr>"
      let ?m = "send_directed E ?n NoiseHandshake fp msg"
      have n': "n' = (if session_ready ?m fp then finish_session E ?m fp else ?m)"
        using s w False Inr assms(2) by (simp add: advance_handshake_def Let_def)
      have k: "sess_keeps E ?n ?m" using sk.r_send_directed assms(1) by blast
      have "ready_key E (noise_sessions n) fp' = Some r" if "fp' \<noteq> fp" "ready_key E (noise_sessions ?m) fp' = Some r" for fp' r
      proof -
        have "ready_key E (noise_sessions ?n) fp' = Some r" using k that(2) unfolding sess_keeps_def by blast
        with that(1) show ?thesis by simp
      qed
      moreover have "peer_static_dh ?m = peer_static_dh n" using k by (simp add: sess_keeps_def)
      ultimately show ?thesis unfolding n' by (intro advanced_compose [OF advanced_if [OF assms(1)]])
    qed
  qed
qed

lemma read_and_advance_advanced:
  assumes "noise_laws (snow E)" "read_and_advance E n fp payload = Ret n'"
  shows "advanced E fp n n'"
proof -
  obtain s where s: "bm_get (noise_sessions n) fp = Some s"
    using assms(2) by (auto simp: read_and_advance_def and_then_eq_Ret unwrap_def split: option.splits)
  obtain res s' where r: "read_handshake (snow E) s payload = (res, s')" by fastforce
  show ?thesis
  proof (cases res)
    case (Inl e)
    with s r assms(2) show ?thesis by (auto simp: read_and_advance_def advanced_def split: if_splits)
  next
    case (Inr u)
    with s r assms(2) have "advance_handshake E (n\<lparr>noise_sessions := bm_insert fp s' (noise_sessions n),
        handshake_last_ms := bm_insert fp (clock n) (handshake_last_ms n)\<rparr>) fp = Ret n'"
      by (simp add: read_and_advance_def)
    from advance_handshake_advanced [OF assms(1) this] show ?thesis by (rule advanced_compose) simp_all
  qed
qed

lemma answer_handshake_advanced:
  assumes "noise_laws (snow E)" "answer_handshake E n fp payload = Ret n'"
  shows "advanced E fp n n'"
proof (cases "bm_contains (noise_sessions n) fp")
  case True
  with assms show ?thesis by (auto simp: answer_handshake_def intro: read_and_advance_advanced)
next
  case False
  then have none: "bm_get (noise_sessions n) fp = None" by (simp add: bm_contains_def)
  show ?thesis
  proof (cases "new_responder (snow E) (dh_secret (identity n)) (entropy n)")
    case (Inr s)
    with False assms(2) have "read_and_advance E (add_responder n fp s) fp payload = Ret n'"
      by (simp add: answer_handshake_def)
    from read_and_advance_advanced [OF assms(1) this] show ?thesis
      by (rule advanced_compose) (simp_all add: add_responder_def)
  qed (use False assms(2) none in \<open>auto simp: answer_handshake_def advanced_def ready_key_def split: option.splits\<close>)
qed

section \<open>Steps of the node\<close>

definition sess_auth :: "('hs, 'ts, 's) env \<Rightarrow> ('hs, 'ts, 's) node \<Rightarrow> ('hs, 'ts, 's) node \<Rightarrow> bool" where
  "sess_auth E n n' \<longleftrightarrow>
     (\<forall>fp r. ready_key E (noise_sessions n') fp = Some r \<longrightarrow>
        ready_key E (noise_sessions n) fp = Some r \<or> (\<exists>k. r = Some k \<and> bm_get (peer_static_dh n) fp = Some k))"

lemma sess_keeps_auth: "sess_keeps E n n' \<Longrightarrow> sess_auth E n n'"
  by (simp add: sess_keeps_def sess_auth_def)

lemma sess_keeps_static: "sess_keeps E n n' \<Longrightarrow> peer_static_dh n' = peer_static_dh n"
  by (simp add: sess_keeps_def)

lemma advanced_auth: "advanced E fp n n' \<Longrightarrow> sess_auth E n n'"
  by (auto simp: advanced_def sess_auth_def split: if_splits)

lemma auth_after_keeps: "sess_keeps E n m \<Longrightarrow> sess_auth E m k \<Longrightarrow> sess_auth E n k"
  unfolding sess_keeps_def sess_auth_def by metis

lemma keeps_after_auth:
  "sess_auth E n m \<Longrightarrow> noise_sessions k = noise_sessions m \<Longrightarrow> sess_auth E n k"
  unfolding sess_auth_def by simp

lemma answer_handshake_auth:
  assumes "noise_laws (snow E)" "sess_keeps E n m" "answer_handshake E m fp payload = Ret n'"
  shows "sess_auth E n n' \<and> peer_static_dh n' = peer_static_dh n"
proof -
  have a: "advanced E fp m n'" by (rule answer_handshake_advanced [OF assms(1,3)])
  then have "peer_static_dh n' = peer_static_dh m" by (simp add: advanced_def)
  with auth_after_keeps [OF assms(2) advanced_auth [OF a]] sess_keeps_static [OF assms(2)] show ?thesis by simp
qed

lemma handle_noise_handshake_auth:
  assumes "noise_laws (snow E)" "handle_noise_handshake E n pkt = Ret n'"
  shows "sess_auth E n n' \<and> peer_static_dh n' = peer_static_dh n"
proof (cases "p_recipient pkt = Some (node_eph_id n) \<and> eph_to_fp E n (p_sender pkt) \<noteq> None")
  case True
  then obtain fp where fp: "eph_to_fp E n (p_sender pkt) = Some fp" by blast
  note to_us = True [THEN conjunct1] fp
  show ?thesis
  proof (cases "session_ready n fp \<and> resync_tries n fp < RESYNC_HANDSHAKE_THRESHOLD")
    case stray: True
    from handle_noise_handshake_stray [OF to_us stray] assms(2) show ?thesis by (simp add: sess_auth_def)
  next
    case False
    have m: "sess_keeps E n (torn_down n fp)" by (auto simp: torn_down_def sess_keeps_def split: if_splits)
    then have m': "sess_keeps E n ((torn_down n fp)\<lparr>noise_sessions := bm_remove fp (noise_sessions (torn_down n fp))\<rparr>)"
      by (rule sess_keeps_trans) auto
    show ?thesis
      using answer_handshake_auth [OF assms(1) m] answer_handshake_auth [OF assms(1) m'] assms(2)
        sess_keeps_auth [OF m] sess_keeps_static [OF m]
      unfolding handle_noise_handshake_answer [OF to_us False] by (auto split: if_splits)
  qed
next
  case False
  then have "handle_noise_handshake E n pkt = Ret n" by (auto simp: handle_noise_handshake_def)
  with assms(2) show ?thesis by (simp add: sess_auth_def)
qed

lemma sess_keeps_direct_message:
  assumes "noise_laws (snow E)"
  shows "sess_keeps E n (handle_direct_message E n pkt)"
  by (auto simp: handle_direct_message_def Let_def split: option.splits
      intro: sess_keeps_decrypt [OF assms(1)] sess_keeps_trans [OF sess_keeps_update(11) sess_keeps_begin_handshake [OF assms(1)]])

text \<open>An accepted announce records the key it carries and nothing else about sessions.\<close>

lemma accept_announce_sessions:
  assumes "noise_laws (snow E)" "accept_announce E n pkt pk dh nick = Ret n'"
  shows "sess_auth E n n'" "peer_static_dh n' = bm_insert (sha256 E pk) dh (peer_static_dh n)"
proof -
  let ?fp = "sha256 E pk" and ?a = "announced E n pkt pk dh nick"
  obtain ls xs held st where n': "n' = foldl (\<lambda>n bs. send_dm E n ?fp (from_utf8_lossy bs)) (?a\<lparr>links := ls, outbox := xs, n_store := st\<rparr>) held"
    using accept_announce_eq [of E n pkt pk dh nick] assms(2) by (metis outcome.inject)
  have "sess_keeps E (?a\<lparr>links := ls, outbox := xs, n_store := st\<rparr>) n'"
    unfolding n' by (rule sk.r_foldl [rule_format, OF _ assms(1)]) (rule sess_keeps_send_dm)
  then show "sess_auth E n n'" "peer_static_dh n' = bm_insert ?fp dh (peer_static_dh n)"
    by (auto simp: sess_keeps_def sess_auth_def)
qed

lemma note_link_identity_frame:
  assumes "note_link_identity E n l eph = Ret n'"
  obtains ls xs where "n' = n\<lparr>links := ls, outbox := xs\<rparr>"
proof -
  let ?n = "case bm_get (links n) l of None \<Rightarrow> n
        | Some s \<Rightarrow> if peer_eph s \<noteq> Some eph
            then n\<lparr>links := bm_insert l (s\<lparr>peer_eph := Some eph, peer_fp := None\<rparr>) (links n)\<rparr> else n"
  have "dedup_links E ?n = Ret n'" using assms by (simp add: note_link_identity_def)
  then obtain ls xs where n': "n' = ?n\<lparr>links := ls, outbox := xs\<rparr>" by (rule dedup_links_frame)
  have "?n\<lparr>links := ls, outbox := xs\<rparr> = n\<lparr>links := ls, outbox := xs\<rparr>" by (simp split: option.splits)
  with n' show ?thesis using that by blast
qed

lemma handle_channel_frame:
  assumes "handle_channel E n pkt = Ret n'"
  shows "noise_sessions n' = noise_sessions n" "peer_static_dh n' = peer_static_dh n"
proof -
  obtain d where d: "decode_channel (lz4_decompress E) (p_payload pkt) (n_cfg n) = Ret d" using decode_channel_total by blast
  have "noise_sessions n' = noise_sessions n \<and> peer_static_dh n' = peer_static_dh n"
    using assms by (cases d) (auto simp: handle_channel_def d Let_def push_event_def split: prod.splits if_splits)
  then show "noise_sessions n' = noise_sessions n" "peer_static_dh n' = peer_static_dh n" by auto
qed

lemma node_outbox_id: "n = n\<lparr>outbox := outbox n\<rparr>"
  by simp

lemma foldl_outbox_eq:
  assumes "\<And>n x. \<exists>xs. f n x = n\<lparr>outbox := xs\<rparr>"
  shows "\<exists>xs. foldl f n ys = n\<lparr>outbox := xs\<rparr>"
proof (induction ys arbitrary: n)
  case Nil
  show ?case by (metis foldl_Nil node_outbox_id)
next
  case (Cons y ys)
  obtain xs where "f n y = n\<lparr>outbox := xs\<rparr>" using assms by blast
  moreover obtain xs' where "foldl f (n\<lparr>outbox := xs\<rparr>) ys = n\<lparr>outbox := xs\<rparr>\<lparr>outbox := xs'\<rparr>" 
    using Cons.IH by blast
  ultimately have "foldl f n (y # ys) = n\<lparr>outbox := xs'\<rparr>" by simp
  then show ?case by blast
qed

lemma handle_sync_request_frame:
  assumes "handle_sync_request E n l pkt = Ret n'"
  obtains xs where "n' = n\<lparr>outbox := xs\<rparr>"
proof -
  obtain d where d: "decode_sync (p_payload pkt) = Ret d" using decode_sync_total by blast
  let ?f = "\<lambda>n d. case message_by_digest (store E) (n_store n) d of
                  Some m \<Rightarrow> if sm_raw m \<noteq> [] then send_bytes n l (sm_raw m) d (link_mtu n l) else n
                | None \<Rightarrow> n"
  have "\<exists>xs. ?f n x = n\<lparr>outbox := xs\<rparr>" for n x
  proof (cases "\<exists>m. message_by_digest (store E) (n_store n) x = Some m \<and> sm_raw m \<noteq> []")
    case True
    then obtain m where "message_by_digest (store E) (n_store n) x = Some m" "sm_raw m \<noteq> []" by blast
    then have "?f n x = n\<lparr>outbox := outbox n @ frames_of l (sm_raw m) x (link_mtu n l)\<rparr>" by (simp add: send_bytes_eq)
    then show ?thesis by (rule exI)
  next
    case False
    then have "?f n x = n" by (cases "message_by_digest (store E) (n_store n) x") auto
    then have "?f n x = n\<lparr>outbox := outbox n\<rparr>" by (rule trans [OF _ node_outbox_id])
    then show ?thesis by (rule exI)
  qed
  then have f: "\<exists>xs. foldl ?f n ds = n\<lparr>outbox := xs\<rparr>" for ds by (rule foldl_outbox_eq)
  show ?thesis
  proof (cases d)
    case None
    then have "n' = n\<lparr>outbox := outbox n\<rparr>" using assms d by (simp add: handle_sync_request_def)
    then show ?thesis by (rule that)
  next
    case (Some remote)
    then have "foldl ?f n (missing_from (sync_filter_new (sf_channel remote)
        (channel_digests (store E) (n_store n) (sf_channel remote))) remote) = n'" (is "foldl ?f n ?ds = n'")
      using assms d by (simp add: handle_sync_request_def Let_def)
    with f [of ?ds] show ?thesis using that by blast
  qed
qed


lemma maybe_relay_frame: "\<exists>r sch. maybe_relay E n l pkt = n\<lparr>n_rng := r, scheduler := sch\<rparr>"
proof -
  have id: "n = n\<lparr>n_rng := n_rng n, scheduler := scheduler n\<rparr>" by simp
  have up: "n\<lparr>n_rng := r\<rparr> = n\<lparr>n_rng := r, scheduler := scheduler n\<rparr>" for r by simp
  show ?thesis
  proof (cases "p_ttl pkt \<le> 1")
    case True
    then have "maybe_relay E n l pkt = n" by (simp add: maybe_relay_def)
    then show ?thesis by (metis id)
  next
    case False
    obtain go r where g: "should_relay (rngs E) (length (links n)) (n_cfg n) (n_rng n) = (go, r)" by fastforce
    show ?thesis
    proof (cases go)
      case True
      obtain d r' where "relay_delay (rngs E) (n_cfg n) r = (d, r')" by fastforce
      with False g True show ?thesis by (simp add: maybe_relay_def Let_def) blast
    next
      case nogo: False
      then have "maybe_relay E n l pkt = n\<lparr>n_rng := r\<rparr>" using False g by (simp add: maybe_relay_def)
      then show ?thesis by (metis up)
    qed
  qed
qed

text \<open>What one packet does to the recorded keys and the sessions.\<close>

lemma dispatch_sessions:
  assumes "noise_laws (snow E)" "dispatch E n l pkt = Ret n'"
  shows "sess_auth E n n' \<and> (peer_static_dh n' = peer_static_dh n \<or>
    (\<exists>pk dh nick. p_type pkt = Announce \<and> decode_announce (p_payload pkt) = Ret (Some (pk, dh, nick)) \<and> vk_valid E pk
       \<and> packet_verify (ed_verify E) pkt pk = Inr () \<and> peer_static_dh n' = bm_insert (sha256 E pk) dh (peer_static_dh n)))"
proof -
  have refl: "sess_auth E n n" using sess_keeps_auth by auto
  show ?thesis
  proof (cases "p_type pkt")
    case Announce
    obtain d where d: "decode_announce (p_payload pkt) = Ret d" using decode_announce_total by blast
    show ?thesis
    proof (cases "\<exists>pk dh nick. d = Some (pk, dh, nick) \<and> vk_valid E pk \<and> packet_verify (ed_verify E) pkt pk = Inr ()")
      case True
      then obtain pk dh nick where k: "d = Some (pk, dh, nick)" "vk_valid E pk" "packet_verify (ed_verify E) pkt pk = Inr ()" by blast
      then have "accept_announce E n pkt pk dh nick = Ret n'"
        using assms(2) Announce d by (simp add: dispatch_def handle_announce_def)
      from accept_announce_sessions [OF assms(1) this] k d Announce show ?thesis by blast
    next
      case False
      then have "handle_announce E n pkt = Ret n"
        by (auto simp: handle_announce_def d split: option.splits prod.splits)
      with assms(2) Announce refl show ?thesis by (simp add: dispatch_def)
    qed
  next
    case ChannelMessage
    with assms(2) have h: "handle_channel E n pkt = Ret n'" by (simp add: dispatch_def)
    show ?thesis using handle_channel_frame [OF h] refl by (simp add: sess_auth_def)
  next
    case SyncRequest
    with assms(2) have "handle_sync_request E n l pkt = Ret n'" by (simp add: dispatch_def)
    then obtain xs where "n' = n\<lparr>outbox := xs\<rparr>" by (rule handle_sync_request_frame)
    with refl show ?thesis by (simp add: sess_auth_def)
  next
    case NoiseHandshake
    with assms(2) have h: "handle_noise_handshake E n pkt = Ret n'" by (simp add: dispatch_def)
    show ?thesis using handle_noise_handshake_auth [OF assms(1) h] by simp
  next
    case DirectMessage
    with assms(2) have "n' = handle_direct_message E n pkt" by (simp add: dispatch_def)
    with sess_keeps_direct_message [OF assms(1), of n pkt] sess_keeps_auth show ?thesis by (auto simp: sess_keeps_def)
  qed (use assms(2) refl in \<open>simp_all add: dispatch_def\<close>)
qed

lemma sess_auth_frame:
  "noise_sessions m = noise_sessions n \<Longrightarrow> peer_static_dh m = peer_static_dh n \<Longrightarrow> sess_auth E m k \<Longrightarrow> sess_auth E n k"
  by (simp add: sess_auth_def)

lemma sess_auth_same: "noise_sessions n' = noise_sessions n \<Longrightarrow> sess_auth E n n'"
  by (simp add: sess_auth_def)

lemma on_packet_sessions:
  assumes "noise_laws (snow E)" "on_packet E n l pkt = Ret n'"
  shows "sess_auth E n n' \<and> (peer_static_dh n' = peer_static_dh n \<or>
    (\<exists>pk dh nick. p_type pkt = Announce \<and> decode_announce (p_payload pkt) = Ret (Some (pk, dh, nick)) \<and> vk_valid E pk
       \<and> packet_verify (ed_verify E) pkt pk = Inr () \<and> peer_static_dh n' = bm_insert (sha256 E pk) dh (peer_static_dh n)))"
proof -
  obtain m where m: "(if p_type pkt = SyncRequest then note_link_identity E n l (p_sender pkt) else Ret n) = Ret m"
    "noise_sessions m = noise_sessions n" "peer_static_dh m = peer_static_dh n"
  proof (cases "p_type pkt = SyncRequest")
    case True
    obtain m where k: "note_link_identity E n l (p_sender pkt) = Ret m" using note_link_identity_keeps by blast
    then obtain ls xs where "m = n\<lparr>links := ls, outbox := xs\<rparr>" by (rule note_link_identity_frame)
    with True k that show ?thesis by simp
  qed (use that in auto)
  obtain obs sc where o1: "observe (seen m) (packet_digest (sha256 E) pkt) (clock m) = (obs, sc)" by fastforce
  let ?m = "m\<lparr>seen := sc\<rparr>"
  obtain ok rl where a: "allow (rate ?m) (p_sender pkt) (clock ?m) = (ok, rl)" by fastforce
  obtain k where k: "dispatch E (?m\<lparr>rate := rl\<rparr>) l pkt = Ret k" using dispatch_keeps by blast
  have n': "n' = (if \<not> is_new obs then ?m else if \<not> ok then ?m\<lparr>rate := rl\<rparr> else maybe_relay E k l pkt)"
    using assms(2) unfolding on_packet_def m(1) and_then.simps o1 prod.case Let_def a k by (simp split: if_splits)
  show ?thesis
  proof (cases "is_new obs \<and> ok")
    case True
    obtain r sch where "maybe_relay E k l pkt = k\<lparr>n_rng := r, scheduler := sch\<rparr>" using maybe_relay_frame by blast
    with True n' have nk: "noise_sessions n' = noise_sessions k" "peer_static_dh n' = peer_static_dh k" by simp_all
    have mm: "noise_sessions (?m\<lparr>rate := rl\<rparr>) = noise_sessions n" "peer_static_dh (?m\<lparr>rate := rl\<rparr>) = peer_static_dh n"
      using m by simp_all
    show ?thesis
      using dispatch_sessions [OF assms(1) k] unfolding nk sess_auth_def mm .
  next
    case False
    then have "noise_sessions n' = noise_sessions n" "peer_static_dh n' = peer_static_dh n" using n' m(2,3) by auto
    then show ?thesis by (simp add: sess_auth_def)
  qed
qed

lemma on_frame_cases:
  assumes "on_frame E n l frame = Ret n'"
  obtains ra where "n' = n\<lparr>n_reassembler := ra\<rparr>"
  | ra bs pkt where "decode bs = Ret (Inr pkt)" "on_packet E (n\<lparr>n_reassembler := ra\<rparr>) l pkt = Ret n'"
proof -
  obtain res ra where i: "ingest (n_reassembler n) frame (clock n) = Ret (res, ra)"
    using assms by (auto simp: on_frame_def and_then_eq_Ret)
  show ?thesis
  proof (cases "\<exists>bs pkt. res = Inr (Some bs) \<and> decode bs = Ret (Inr pkt)")
    case True
    then show ?thesis using assms i that(2) by (auto simp: on_frame_def)
  next
    case False
    have "n\<lparr>n_reassembler := ra\<rparr> = n'"
    proof (cases res)
      case (Inr x)
      then show ?thesis
      proof (cases x)
        case (Some bs)
        obtain d where d: "decode bs = Ret d" using decode_total by blast
        with False Inr Some obtain e where "d = Inl e" by (cases d) auto
        with assms i Inr Some d show ?thesis by (simp add: on_frame_def)
      qed (use assms i Inr in \<open>simp add: on_frame_def\<close>)
    qed (use assms i in \<open>simp add: on_frame_def\<close>)
    then show ?thesis using that(1) by blast
  qed
qed

lemma send_sync_requests_frame: "\<exists>xs. send_sync_requests E n l = n\<lparr>outbox := xs\<rparr>"
  unfolding send_sync_requests_def by (rule foldl_outbox_eq) (auto simp: Let_def send_on_link_eq)

lemma on_transport_event_sessions:
  assumes "noise_laws (snow E)" "on_transport_event E n ev = Ret n'"
  shows "sess_auth E n n'"
proof (cases ev)
  case (LinkUp l m h)
  let ?n = "n\<lparr>links := bm_insert l \<lparr>mtu = m, peer_eph = None, peer_fp = None\<rparr> (links n)\<rparr>"
  obtain d xs where a: "announce E ?n = ?n\<lparr>seen := snd (observe (seen ?n) d (clock ?n)), outbox := xs\<rparr>"
    using announce_eq by blast
  obtain ys where "send_sync_requests E (announce E ?n) l = (announce E ?n)\<lparr>outbox := ys\<rparr>"
    using send_sync_requests_frame by blast
  with a LinkUp assms(2) have "noise_sessions n' = noise_sessions n" by (auto simp: on_transport_event_def)
  then show ?thesis by (rule sess_auth_same)
next
  case (FrameReceived l f)
  with assms(2) have "on_frame E n l f = Ret n'" by (simp add: on_transport_event_def)
  then show ?thesis
  proof (cases rule: on_frame_cases)
    case (1 ra)
    then show ?thesis by (simp add: sess_auth_def)
  next
    case (2 ra bs pkt)
    from on_packet_sessions [OF assms(1) this(2)] show ?thesis by (simp add: sess_auth_def)
  qed
qed (use assms(2) in \<open>auto simp: on_transport_event_def push_event_def intro!: sess_auth_same split: option.splits\<close>)

lemmas sess_keeps_retry = sk.r_retry_stalled [rule_format]

lemma tick_sessions:
  assumes "noise_laws (snow E)" "tick E n = Ret (d, n')"
  shows "sess_keeps E n n'"
proof -
  obtain out sch where du: "due (scheduler n) (clock n) (seen n) = Ret (out, sch)"
    using assms(2) by (auto simp: tick_def and_then_eq_Ret)
  obtain k xs where f: "foldl (fire_relay E) (n\<lparr>scheduler := sch\<rparr>) out = n\<lparr>scheduler := sch, relays_fired := k, outbox := xs\<rparr>"
    using fire_all_eq [of E "n\<lparr>scheduler := sch\<rparr>" out] by simp
  let ?n = "n\<lparr>scheduler := sch, relays_fired := k, outbox := xs, seen := snd (evict_expired_seen (seen n) (clock n)),
     n_reassembler := snd (evict_expired_slots (n_reassembler n) (clock n))\<rparr>"
  have "n' = retry_stalled_handshakes E ?n (clock n)" using assms(2) du f by (simp add: tick_def Let_def)
  moreover have "sess_keeps E n ?n" by (simp add: sess_keeps_def)
  ultimately show ?thesis using sess_keeps_retry [OF assms(1)] sess_keeps_trans by blast
qed

lemma sess_keeps_drop: "sess_keeps E n (drop_peer_session_state n fp)"
  by (auto simp: drop_peer_session_state_def sess_keeps_def split: if_splits)

lemma sess_keeps_commands:
  assumes "noise_laws (snow E)"
  shows "sess_keeps E n (snd (take_events n))" "sess_keeps E n (reset_relays_fired n)"
    "sess_keeps E n (join_channel E n name)" "sess_keeps E n (snd (send_channel_message E n name txt))"
    "sess_keeps E n (announce E n)" "sess_keeps E n (verify_peer E n fp)"
    "sess_keeps E n (unverify_peer E n fp)" "sess_keeps E n (forget_peer E n fp)"
    "sess_keeps E n (start_dm_session E n fp)" "sess_keeps E n (set_petname E n fp name)"
proof -
  show "sess_keeps E n (snd (take_events n))" "sess_keeps E n (reset_relays_fired n)"
    "sess_keeps E n (join_channel E n name)" "sess_keeps E n (snd (send_channel_message E n name txt))"
    "sess_keeps E n (set_petname E n fp name)"
    by (simp_all add: take_events_def reset_relays_fired_def join_channel_def send_channel_message_def set_petname_def
        broadcast_eq observe_own_def Let_def sess_keeps_def)
  obtain d xs where "announce E n = n\<lparr>seen := snd (observe (seen n) d (clock n)), outbox := xs\<rparr>"
    using announce_eq by blast
  then show "sess_keeps E n (announce E n)" by (simp add: sess_keeps_def)
  show "sess_keeps E n (verify_peer E n fp)"
    unfolding verify_peer_def Let_def
    by (rule sess_keeps_trans [OF _ sess_keeps_notice [OF assms(1)]]) (simp add: sess_keeps_def)
  show "sess_keeps E n (unverify_peer E n fp)"
    unfolding unverify_peer_def Let_def by (rule sess_keeps_trans [OF sess_keeps_update(2) sess_keeps_drop])
  show "sess_keeps E n (forget_peer E n fp)"
    unfolding forget_peer_def Let_def
    by (rule sess_keeps_trans [OF sess_keeps_trans [OF sess_keeps_update(2) sess_keeps_drop] sess_keeps_update(12)])
  show "sess_keeps E n (start_dm_session E n fp)"
    by (auto simp: start_dm_session_def sess_keeps_begin_handshake [OF assms(1)])
qed

lemma node_step_auth:
  assumes "noise_laws (snow E)" "node_step E n n'"
  shows "sess_auth E n n'"
  using assms(2)
proof cases
  case (Event ev)
  then show ?thesis by (rule on_transport_event_sessions [OF assms(1)])
next
  case (Tick d)
  then show ?thesis by (rule sess_keeps_auth [OF tick_sessions [OF assms(1)]])
next
  case (PanicWipe)
  then show ?thesis by (simp add: sess_auth_def panic_wipe_def)
qed (auto intro!: sess_keeps_auth sess_keeps_commands [OF assms(1)] sess_keeps_send_dm [OF assms(1)] simp: sess_keeps_def)

lemma node_run_last: "node_run E n hist m \<Longrightarrow> m \<in> set hist"
  by (induction rule: node_run.induct) auto

lemma node_run_auth:
  assumes "node_run E n hist m" "noise_laws (snow E)" "noise_sessions n = []"
    "ready_key E (noise_sessions m) fp = Some r"
  shows "\<exists>k p. r = Some k \<and> p \<in> set hist \<and> bm_get (peer_static_dh p) fp = Some k"
  using assms
proof (induction arbitrary: r rule: node_run.induct)
  case (run_step n hist m k)
  from node_step_auth [OF run_step.prems(1) run_step.hyps(2)] run_step.prems(3)
  consider "ready_key E (noise_sessions m) fp = Some r" | q where "r = Some q" "bm_get (peer_static_dh m) fp = Some q"
    unfolding sess_auth_def by blast
  then show ?case
  proof cases
    case 1
    from run_step.IH [OF run_step.prems(1,2) this] show ?thesis by auto
  next
    case 2
    with node_run_last [OF run_step.hyps(1)] show ?thesis by auto
  qed
qed simp

lemma xx_snow_laws: "noise_laws xx_snow"
  using xx_snow_ok by (auto simp: noise_laws_def xx_three_messages_def xx_snow_def)

end
