(* ===== verification/Delivery.thy ===== *)
theory Delivery
  imports Trust
begin

text \<open>
  What gets through: from the frames on a link to the packet, from the packet to its handler, an announce
  from one node to another, and a first direct message over the handshake it triggers.  The nodes run
  the handlers of theory Handlers; the parameters are assumed to do what their documentation says
  (\<open>crypto_ok\<close>, \<open>xx_exchange\<close>, \<open>cipher_pair\<close>).
\<close>


section \<open>Frames to packets\<close>

text \<open>The frames a link delivers, one after the other.\<close>

fun on_frames ::
  "('hs, 'ts, 's) env \<Rightarrow> ('hs, 'ts, 's) node \<Rightarrow> link_id \<Rightarrow> bytes list \<Rightarrow> ('hs, 'ts, 's) node outcome" where
  "on_frames E n l [] = Ret n"
| "on_frames E n l (f # fs) = and_then (on_frame E n l f) (\<lambda>n. on_frames E n l fs)"

lemma on_frame_quiet:
  "ingest (n_reassembler n) f (clock n) = Ret (Inr None, ra) \<Longrightarrow> on_frame E n l f = Ret (n\<lparr>n_reassembler := ra\<rparr>)"
  by (simp add: on_frame_def)

lemma on_frames_reassemble:
  assumes "ingest_all (n_reassembler n) (map (\<lambda>f. (f, clock n)) (fs @ [f])) =
      Ret (replicate (length fs) (Inr None) @ [Inr (Some bs)], ra)"
    and "decode bs = Ret (Inr pkt)"
  shows "on_frames E n l (fs @ [f]) = on_packet E (n\<lparr>n_reassembler := ra\<rparr>) l pkt"
  using assms(1)
proof (induction fs arbitrary: n)
  case Nil
  then have "ingest (n_reassembler n) f (clock n) = Ret (Inr (Some bs), ra)" by (auto simp: and_then_eq_Ret)
  then have "on_frames E n l [f] = and_then (on_packet E (n\<lparr>n_reassembler := ra\<rparr>) l pkt) Ret"
    using assms(2) by (simp add: on_frame_def)
  then show ?case by (cases "on_packet E (n\<lparr>n_reassembler := ra\<rparr>) l pkt") auto
next
  case (Cons g fs)
  then obtain ra' where g: "ingest (n_reassembler n) g (clock n) = Ret (Inr None, ra')"
    and rest: "ingest_all ra' (map (\<lambda>f. (f, clock n)) (fs @ [f])) = Ret (replicate (length fs) (Inr None) @ [Inr (Some bs)], ra)"
    by (auto simp: and_then_eq_Ret)
  let ?n = "n\<lparr>n_reassembler := ra'\<rparr>"
  have "on_frames E ?n l (fs @ [f]) = on_packet E (?n\<lparr>n_reassembler := ra\<rparr>) l pkt"
    by (rule Cons.IH) (use rest in simp)
  then show ?case by (simp add: on_frame_quiet [OF g])
qed

lemma deliver_split:
  assumes "frag_split (encode pkt) d m = Inr fs" "length d = 8" "packet_ok pkt"
    and "reassembler_ok (n_reassembler n)" "bm_get (slots (n_reassembler n)) d = None"
    and "length (encode pkt) \<le> reassembly_max_bytes (r_cfg (n_reassembler n))"
    and "insert j (set is) = {..<length fs}" "j \<notin> set is"
  shows "\<exists>ra. reassembler_ok ra \<and> on_frames E n l (map (\<lambda>i. fs ! i) (is @ [j])) = on_packet E (n\<lparr>n_reassembler := ra\<rparr>) l pkt"
proof -
  let ?its = "map (\<lambda>i. (i, clock n)) is"
  have s: "fst ` set ?its = set is" by force
  obtain ra where ra: "ingest_all (n_reassembler n) (map (\<lambda>(i, t). (fs ! i, t)) (?its @ [(j, clock n)])) =
      Ret (replicate (length ?its) (Inr None) @ [Inr (Some (encode pkt))], ra)"
    using reassembles [OF assms(1,2,4-6), of j ?its "clock n"] assms(7,8) unfolding s by blast
  have eq: "map (\<lambda>(i, t). (fs ! i, t)) (?its @ [(j, clock n)]) = map (\<lambda>f. (f, clock n)) (map ((!) fs) is @ [fs ! j])" by simp
  have "on_frames E n l (map ((!) fs) is @ [fs ! j]) = on_packet E (n\<lparr>n_reassembler := ra\<rparr>) l pkt"
    by (rule on_frames_reassemble [OF _ decode_encode [OF assms(3)]]) (use ra [unfolded eq] in simp)
  moreover have "reassembler_ok ra"
    using ingest_all_ok [OF assms(4), of "map (\<lambda>(i, t). (fs ! i, t)) (?its @ [(j, clock n)])"] unfolding ra by blast
  ultimately show ?thesis by auto
qed

section \<open>Packets to handlers\<close>

text \<open>A packet seen for the first time, within the sender's rate, reaches its handler.\<close>

definition admitted :: "('hs, 'ts, 's) env \<Rightarrow> ('hs, 'ts, 's) node \<Rightarrow> packet \<Rightarrow> ('hs, 'ts, 's) node" where
  "admitted E n pkt =
     n\<lparr>seen := snd (observe (seen n) (packet_digest (sha256 E) pkt) (clock n)),
       rate := snd (allow (rate n) (p_sender pkt) (clock n))\<rparr>"

lemma on_packet_admitted:
  assumes "seen_ok (seen n)" "p_type pkt \<noteq> SyncRequest"
    "hear_count (seen n) (packet_digest (sha256 E) pkt) = 0" "fst (allow (rate n) (p_sender pkt) (clock n))"
  shows "on_packet E n l pkt = and_then (dispatch E (admitted E n pkt) l pkt) (\<lambda>n. Ret (maybe_relay E n l pkt))"
proof -
  obtain obs sc where o1: "observe (seen n) (packet_digest (sha256 E) pkt) (clock n) = (obs, sc)" by fastforce
  then have new: "is_new obs" using is_new_iff [OF assms(1)] assms(3) by (metis fst_conv)
  obtain ok rl where a: "allow (rate n) (p_sender pkt) (clock n) = (ok, rl)" by fastforce
  with assms(4) have ok by simp
  with new o1 a assms(2) show ?thesis by (simp add: on_packet_def admitted_def Let_def)
qed

section \<open>What conversations leave alone\<close>

definition talk_keeps :: "('hs, 'ts, 's) node \<Rightarrow> ('hs, 'ts, 's) node \<Rightarrow> bool" where
  "talk_keeps n n' \<longleftrightarrow>
     identity n' = identity n \<and> n_cfg n' = n_cfg n \<and> clock n' = clock n \<and> links n' = links n
     \<and> eph_keys n' = eph_keys n \<and> fp_to_eph n' = fp_to_eph n \<and> peer_static_dh n' = peer_static_dh n
     \<and> rate n' = rate n \<and> n_rng n' = n_rng n \<and> scheduler n' = scheduler n
     \<and> n_reassembler n' = n_reassembler n \<and> (\<exists>es. events n' = events n @ es)
     \<and> (\<exists>xs. outbox n' = outbox n @ xs)"

interpretation tk: handshake_relation E talk_keeps for E
proof unfold_locales
  show "talk_keeps n m \<Longrightarrow> talk_keeps m n' \<Longrightarrow> talk_keeps n n'" for n m n' :: "('a, 'b, 'c) node"
    by (auto simp: talk_keeps_def)
qed (simp_all add: talk_keeps_def push_event_def)

lemma talk_keepsD:
  assumes "talk_keeps n n'"
  shows "identity n' = identity n" "n_cfg n' = n_cfg n" "clock n' = clock n" "links n' = links n"
    "eph_keys n' = eph_keys n" "fp_to_eph n' = fp_to_eph n" "peer_static_dh n' = peer_static_dh n"
    "rate n' = rate n" "n_rng n' = n_rng n" "scheduler n' = scheduler n" "n_reassembler n' = n_reassembler n"
    "set (events n) \<subseteq> set (events n')"
  using assms by (auto simp: talk_keeps_def)

section \<open>Announcements\<close>

text \<open>What the signature scheme and the hash promise.\<close>

definition crypto_ok :: "('hs, 'ts, 's) env \<Rightarrow> bool" where
  "crypto_ok E \<longleftrightarrow>
     (\<forall>bs. length (sha256 E bs) = 32) \<and> (\<forall>k. length (ed_public E k) = 32 \<and> vk_valid E (ed_public E k))
     \<and> (\<forall>k. length (x_public E k) = 32)
     \<and> (\<forall>k m. length (ed_sign E k m) = 64 \<and> ed_verify E (ed_public E k) m (ed_sign E k m))"

lemma signed_packet_fields [simp]:
  "p_type (signed_packet E n t ttl r payload) = t" "p_sender (signed_packet E n t ttl r payload) = node_eph_id n"
  "p_recipient (signed_packet E n t ttl r payload) = r" "p_payload (signed_packet E n t ttl r payload) = payload"
  "p_timestamp_ms (signed_packet E n t ttl r payload) = clock n" "p_ttl (signed_packet E n t ttl r payload) = ttl"
  by (simp_all add: signed_packet_def packet_sign_def new_packet_def)

lemma signed_packet_ok:
  assumes "crypto_ok E" "is_known t" "length (node_eph_id n) = 8" "\<forall>x. r = Some x \<longrightarrow> length x = 8" "length payload < 2 ^ 16"
  shows "packet_ok (signed_packet E n t ttl r payload)"
proof -
  have "packet_ok (new_packet t ttl (clock n) (node_eph_id n) r payload)"
    by (rule new_packet_ok) (use assms in \<open>auto simp: from_u8_to_u8\<close>)
  then show ?thesis using assms(1) by (simp add: packet_ok_def signed_packet_def packet_sign_def crypto_ok_def SIG_LEN_def)
qed

lemma signed_packet_verifies:
  "crypto_ok E \<Longrightarrow> packet_verify (ed_verify E) (signed_packet E n t ttl r payload) (verifying_key (ed_public E) (identity n)) = Inr ()"
  by (simp add: packet_verify_def signed_packet_def packet_sign_def crypto_ok_def verifying_key_def signed_region_signature)

text \<open>The announce packet of a node.\<close>

definition announce_packet :: "('hs, 'ts, 's) env \<Rightarrow> ('hs, 'ts, 's) node \<Rightarrow> packet" where
  "announce_packet E n = signed_packet E n Announce (origin_ttl (n_cfg n) Announce (length (links n))) None
     (encode_announce (verifying_key (ed_public E) (identity n)) (dh_public (x_public E) (identity n)) (nickname n))"

lemma announce_sends: "announce E n =
    n\<lparr>seen := snd (observe (seen n) (packet_digest (sha256 E) (announce_packet E n)) (clock n)),
      outbox := outbox n @ broadcast_calls E n (announce_packet E n) None\<rparr>"
  by (simp add: announce_def announce_packet_def broadcast_eq observe_own_def Let_def)

lemma accept_announce_records:
  "\<exists>n'. accept_announce E n pkt pk dh nick = Ret n' \<and> bm_get (eph_keys n') (p_sender pkt) = Some pk
    \<and> bm_get (fp_to_eph n') (sha256 E pk) = Some (p_sender pkt) \<and> bm_get (peer_static_dh n') (sha256 E pk) = Some dh
    \<and> PeerAppeared (sha256 E pk) (p_sender pkt) (if nick = [] then None else Some nick) \<in> set (events n')"
proof -
  let ?fp = "sha256 E pk"
  define a where "a = announced E n pkt pk dh nick"
  obtain ls xs held st n' where eq: "accept_announce E n pkt pk dh nick = Ret n'"
    and n': "n' = foldl (\<lambda>n bs. send_dm E n ?fp (from_utf8_lossy bs)) (a\<lparr>links := ls, outbox := xs, n_store := st\<rparr>) held"
    using accept_announce_eq [of E n pkt pk dh nick] unfolding a_def by blast
  have "talk_keeps (a\<lparr>links := ls, outbox := xs, n_store := st\<rparr>) n'"
    unfolding n' by (rule tk.r_foldl) (rule tk.r_send_dm)
  note k = talk_keepsD [OF this, simplified]
  have "PeerAppeared ?fp (p_sender pkt) (if nick = [] then None else Some nick) \<in> set (events n')"
    using k(12) announced_event [of E pk pkt nick n dh] unfolding a_def by blast
  moreover have "bm_get (eph_keys n') (p_sender pkt) = Some pk" "bm_get (fp_to_eph n') ?fp = Some (p_sender pkt)"
    "bm_get (peer_static_dh n') ?fp = Some dh"
    unfolding k a_def by simp_all
  ultimately show ?thesis using eq by blast
qed

lemma dispatch_announce:
  assumes "crypto_ok E"
  shows "dispatch E n l (announce_packet E a) =
    accept_announce E n (announce_packet E a) (verifying_key (ed_public E) (identity a)) (dh_public (x_public E) (identity a))
      (from_utf8_lossy (take 24 (nickname a)))"
proof -
  let ?vk = "verifying_key (ed_public E) (identity a)" and ?dh = "dh_public (x_public E) (identity a)"
  have len: "length ?vk = 32" "length ?dh = 32" "vk_valid E ?vk"
    using assms by (simp_all add: crypto_ok_def verifying_key_def dh_public_def)
  have "decode_announce (p_payload (announce_packet E a)) = Ret (Some (?vk, ?dh, from_utf8_lossy (take 24 (nickname a))))"
    using decode_encode_announce [OF len(1,2)] by (simp add: announce_packet_def)
  moreover have "packet_verify (ed_verify E) (announce_packet E a) ?vk = Inr ()"
    unfolding announce_packet_def by (rule signed_packet_verifies [OF assms])
  moreover have "p_type (announce_packet E a) = Announce" by (simp add: announce_packet_def)
  ultimately show ?thesis using len(3) by (simp add: dispatch_def handle_announce_def)
qed

lemma announce_packet_ok:
  assumes "crypto_ok E" "length (node_eph_id a) = 8"
  shows "packet_ok (announce_packet E a)"
  unfolding announce_packet_def
  by (rule signed_packet_ok [OF assms(1)])
    (use assms in \<open>auto simp: encode_announce_def Let_def crypto_ok_def verifying_key_def dh_public_def\<close>)

lemma node_fingerprint_eq: "node_fingerprint E n = sha256 E (verifying_key (ed_public E) (identity n))"
  by (simp add: node_fingerprint_def fingerprint_def verifying_key_def)

lemma announce_accepted:
  assumes "crypto_ok E" "node_ok b" "hear_count (seen b) (packet_digest (sha256 E) (announce_packet E a)) = 0"
    and "fst (allow (rate b) (node_eph_id a) (clock b))"
  obtains b' where "on_packet E b l (announce_packet E a) = Ret b'" "node_ok b'"
    "bm_get (eph_keys b') (node_eph_id a) = Some (verifying_key (ed_public E) (identity a))"
    "bm_get (fp_to_eph b') (node_fingerprint E a) = Some (node_eph_id a)"
    "bm_get (peer_static_dh b') (node_fingerprint E a) = Some (dh_public (x_public E) (identity a))"
    "\<exists>nick. PeerAppeared (node_fingerprint E a) (node_eph_id a) nick \<in> set (events b')"
proof -
  let ?p = "announce_packet E a"
  have sender: "p_sender ?p = node_eph_id a" "p_type ?p = Announce" by (simp_all add: announce_packet_def)
  have "on_packet E b l ?p = and_then (dispatch E (admitted E b ?p) l ?p) (\<lambda>n. Ret (maybe_relay E n l ?p))"
    by (rule on_packet_admitted) (use assms sender in \<open>auto simp: node_ok_def parts_ok_def\<close>)
  moreover obtain n' where n': "dispatch E (admitted E b ?p) l ?p = Ret n'"
    "bm_get (eph_keys n') (node_eph_id a) = Some (verifying_key (ed_public E) (identity a))"
    "bm_get (fp_to_eph n') (node_fingerprint E a) = Some (node_eph_id a)"
    "bm_get (peer_static_dh n') (node_fingerprint E a) = Some (dh_public (x_public E) (identity a))"
    "\<exists>nick. PeerAppeared (node_fingerprint E a) (node_eph_id a) nick \<in> set (events n')"
    using accept_announce_records [of E "admitted E b ?p" ?p "verifying_key (ed_public E) (identity a)"
        "dh_public (x_public E) (identity a)" "from_utf8_lossy (take 24 (nickname a))"]
    unfolding dispatch_announce [OF assms(1)] node_fingerprint_eq sender(1) by blast
  moreover obtain r sch where "maybe_relay E n' l ?p = n'\<lparr>n_rng := r, scheduler := sch\<rparr>" using maybe_relay_frame by blast
  ultimately have o: "on_packet E b l ?p = Ret (n'\<lparr>n_rng := r, scheduler := sch\<rparr>)" by simp
  moreover from o on_packet_ok [OF assms(2), of E l ?p] have "node_ok (n'\<lparr>n_rng := r, scheduler := sch\<rparr>)" by simp
  ultimately show ?thesis using that n'(2-5) by simp
qed

section \<open>Properties of delivery\<close>

text \<open>C12: an announcement gets through: when the frames of one node's announce packet, split for any MTU,
  reach another node in any order and with any duplicates, and that node has not seen the packet and
  the sender is within its rate, the receiver ends up knowing the sender's identity key, static key and
  address, and tells its user that the peer has appeared.\<close>

theorem announce_reaches_peer:
  assumes "crypto_ok E" "length (node_eph_id a) = 8" "node_ok b"
    and "frag_split (encode (announce_packet E a)) (packet_digest (sha256 E) (announce_packet E a)) m = Inr fs"
    and "insert j (set is) = {..<length fs}" "j \<notin> set is"
    and "bm_get (slots (n_reassembler b)) (packet_digest (sha256 E) (announce_packet E a)) = None"
    and "length (encode (announce_packet E a)) \<le> reassembly_max_bytes (r_cfg (n_reassembler b))"
    and "hear_count (seen b) (packet_digest (sha256 E) (announce_packet E a)) = 0"
    and "fst (allow (rate b) (node_eph_id a) (clock b))"
  shows "\<exists>b'. on_frames E b l (map (\<lambda>i. fs ! i) (is @ [j])) = Ret b' \<and> node_ok b'
    \<and> bm_get (eph_keys b') (node_eph_id a) = Some (verifying_key (ed_public E) (identity a))
    \<and> bm_get (fp_to_eph b') (node_fingerprint E a) = Some (node_eph_id a)
    \<and> bm_get (peer_static_dh b') (node_fingerprint E a) = Some (dh_public (x_public E) (identity a))
    \<and> (\<exists>nick. PeerAppeared (node_fingerprint E a) (node_eph_id a) nick \<in> set (events b'))"
proof -
  let ?p = "announce_packet E a"
  have "length (packet_digest (sha256 E) ?p) = 8" using assms(1) by (simp add: packet_digest_def crypto_ok_def)
  then obtain ra where ra: "reassembler_ok ra"
    and f: "on_frames E b l (map (\<lambda>i. fs ! i) (is @ [j])) = on_packet E (b\<lparr>n_reassembler := ra\<rparr>) l ?p"
    using deliver_split [OF assms(4) _ announce_packet_ok [OF assms(1,2)] _ assms(7,8,5,6)] assms(3)
    by (auto simp: node_ok_def)
  let ?b = "b\<lparr>n_reassembler := ra\<rparr>"
  have okb: "node_ok ?b" using assms(3) ra by (simp add: node_ok_def parts_ok_def)
  obtain b' where "on_packet E ?b l ?p = Ret b'" "node_ok b'"
    "bm_get (eph_keys b') (node_eph_id a) = Some (verifying_key (ed_public E) (identity a))"
    "bm_get (fp_to_eph b') (node_fingerprint E a) = Some (node_eph_id a)"
    "bm_get (peer_static_dh b') (node_fingerprint E a) = Some (dh_public (x_public E) (identity a))"
    "\<exists>nick. PeerAppeared (node_fingerprint E a) (node_eph_id a) nick \<in> set (events b')"
    by (rule announce_accepted [OF assms(1) okb]) (use assms(9,10) in auto)
  with f show ?thesis by auto
qed

lemma length_pad32 [simp]: "length (pad32 bs) = 32"
  by (simp add: pad32_def)

lemma sample_crypto_ok: "crypto_ok sample_env"
  by (simp add: crypto_ok_def sample_env_def)

lemma fresh_allowed: "0 < rate_burst cfg \<Longrightarrow> fst (allow (rate_limiter_new cfg) s t)"
  using allow_same_instant(1) [of "rate_limiter_new cfg" s t "unat (rate_burst cfg)"]
  by (simp add: rate_limiter_new_def bucket_entry_def word_less_nat_alt)

lemma encode_length:
  "packet_ok p \<Longrightarrow> length (encode p) = 22 + (case p_recipient p of None \<Rightarrow> 0 | Some _ \<Rightarrow> 8) + length (p_payload p) + 64"
  by (auto simp: encode_def write_body_def packet_ok_def SIG_LEN_def split: option.splits)

theorem announce_reaches_peer_witness:
  "\<exists>b'. on_frames sample_env (sample_node 1) 7 [KIND_COMPLETE # encode (announce_packet sample_env (sample_node 2))] = Ret b'
     \<and> bm_get (peer_static_dh b') (node_fingerprint sample_env (sample_node 2)) =
         Some (dh_public (x_public sample_env) (identity (sample_node 2)))"
proof -
  let ?p = "announce_packet sample_env (sample_node 2)"
  have eph: "length (node_eph_id (sample_node 2)) = 8" by (simp add: node_eph_id_def sample_node_def node_new_def)
  have "length (p_payload ?p) = 65"
    by (simp add: announce_packet_def encode_announce_def sample_node_def node_new_def verifying_key_def dh_public_def
        sample_env_def)
  then have len: "length (encode ?p) = 151"
    using encode_length [OF announce_packet_ok [OF sample_crypto_ok eph]] by (simp add: announce_packet_def)
  then have fs: "frag_split (encode ?p) (packet_digest (sha256 sample_env) ?p) 600 = Inr [KIND_COMPLETE # encode ?p]"
    by (simp add: frag_split_def FRAG_HEADER_def)
  have new: "node_ok (sample_node 1)" by (simp add: sample_node_def node_new_ok)
  have r: "reassembly_max_bytes default_tunables = 1048576" by simp
  have "\<exists>b'. on_frames sample_env (sample_node 1) 7 (map (\<lambda>i. [KIND_COMPLETE # encode ?p] ! i) ([] @ [0])) = Ret b' \<and> node_ok b'
    \<and> bm_get (eph_keys b') (node_eph_id (sample_node 2)) = Some (verifying_key (ed_public sample_env) (identity (sample_node 2)))
    \<and> bm_get (fp_to_eph b') (node_fingerprint sample_env (sample_node 2)) = Some (node_eph_id (sample_node 2))
    \<and> bm_get (peer_static_dh b') (node_fingerprint sample_env (sample_node 2)) = Some (dh_public (x_public sample_env) (identity (sample_node 2)))
    \<and> (\<exists>nick. PeerAppeared (node_fingerprint sample_env (sample_node 2)) (node_eph_id (sample_node 2)) nick \<in> set (events b'))"
    by (rule announce_reaches_peer [OF sample_crypto_ok eph new fs])
      (use len in \<open>auto simp: sample_node_def node_new_def reassembler_new_def seen_cache_new_def hear_count_def
        intro: fresh_allowed\<close>)
  then show ?thesis by auto
qed

section \<open>A handshake and a first message\<close>

text \<open>Two parties with private keys \<open>a\<close> and \<open>b\<close> that pass the three messages of Noise XX to each other end
  in transport mode, each with the static key of the other.  Only the first message has the length
  of a bare ephemeral key.\<close>

definition xx_exchange ::
  "('hs, 'ts) snow \<Rightarrow> bytes \<times> nat \<Rightarrow> bytes \<times> nat \<Rightarrow> bytes \<times> bytes \<times> bytes \<Rightarrow> 'ts \<times> 'ts \<Rightarrow> bytes \<times> bytes \<Rightarrow> bool" where
  "xx_exchange sn = (\<lambda>(a, ea) (b, eb) (m1, m2, m3) (tA, tB) (pa, pb).
     parse_params sn PATTERN \<and> length m2 \<noteq> XX_MSG1_LEN \<and> length pa = 32 \<and> length pb = 32
     \<and> (\<exists>i0 i1 i2 i3 r0 r1 r2 r3 x y z.
          build_initiator sn a ea = Inr i0 \<and> hs_write_message sn i0 [] 1024 = (Inr m1, i1) \<and> \<not> is_handshake_finished sn i1
        \<and> build_responder sn b eb = Inr r0 \<and> hs_read_message sn r0 m1 1024 = (Inr x, r1) \<and> \<not> is_handshake_finished sn r1
        \<and> hs_write_message sn r1 [] 1024 = (Inr m2, r2) \<and> \<not> is_handshake_finished sn r2
        \<and> hs_read_message sn i1 m2 1024 = (Inr y, i2) \<and> \<not> is_handshake_finished sn i2
        \<and> hs_write_message sn i2 [] 1024 = (Inr m3, i3) \<and> is_handshake_finished sn i3
        \<and> into_transport_mode sn i3 = Inr tA \<and> ts_remote_static sn tA = Some pb
        \<and> hs_read_message sn r2 m3 1024 = (Inr z, r3) \<and> is_handshake_finished sn r3
        \<and> into_transport_mode sn r3 = Inr tB \<and> ts_remote_static sn tB = Some pa))"

lemma xx_exchange_sessions:
  assumes "xx_exchange sn (a, ea) (b, eb) (m1, m2, m3) (tA, tB) (pa, pb)"
  obtains s0 s1 s2 q0 q1 q2 where
    "new_initiator sn a ea = Inr s0" "write_handshake sn s0 = (Inr m1, s1)" "is_handshaking s1"
    "new_responder sn b eb = Inr q0" "read_handshake sn q0 m1 = (Inr (), q1)" "is_handshaking q1"
    "write_handshake sn q1 = (Inr m2, q2)" "is_handshaking q2" "\<not> initiator q2"
    "read_handshake sn s1 m2 = (Inr (), s2)" "is_handshaking s2"
    "write_handshake sn s2 = (Inr m3, \<lparr>inner = Transport tA, initiator = True\<rparr>)"
    "read_handshake sn q2 m3 = (Inr (), \<lparr>inner = Transport tB, initiator = False\<rparr>)"
proof -
  obtain i0 i1 i2 i3 r0 r1 r2 r3 x y z where
    "build_initiator sn a ea = Inr i0" "hs_write_message sn i0 [] 1024 = (Inr m1, i1)" "\<not> is_handshake_finished sn i1"
    "build_responder sn b eb = Inr r0" "hs_read_message sn r0 m1 1024 = (Inr x, r1)" "\<not> is_handshake_finished sn r1"
    "hs_write_message sn r1 [] 1024 = (Inr m2, r2)" "\<not> is_handshake_finished sn r2"
    "hs_read_message sn i1 m2 1024 = (Inr y, i2)" "\<not> is_handshake_finished sn i2"
    "hs_write_message sn i2 [] 1024 = (Inr m3, i3)" "is_handshake_finished sn i3" "into_transport_mode sn i3 = Inr tA"
    "hs_read_message sn r2 m3 1024 = (Inr z, r3)" "is_handshake_finished sn r3" "into_transport_mode sn r3 = Inr tB"
    "parse_params sn PATTERN"
    using assms unfolding xx_exchange_def by fastforce
  then show ?thesis
    by (intro that [of "\<lparr>inner = Handshake i0, initiator = True\<rparr>" "\<lparr>inner = Handshake i1, initiator = True\<rparr>"
          "\<lparr>inner = Handshake r0, initiator = False\<rparr>" "\<lparr>inner = Handshake r1, initiator = False\<rparr>"
          "\<lparr>inner = Handshake r2, initiator = False\<rparr>" "\<lparr>inner = Handshake i2, initiator = True\<rparr>"])
      (simp_all add: new_initiator_def new_responder_def write_handshake_def read_handshake_def maybe_transition_def
        is_handshaking_def)
qed

lemma handshaking_not_ready: "is_handshaking s \<Longrightarrow> \<not> is_ready s"
  by (simp add: is_handshaking_def is_ready_def split: inner.splits)

text \<open>What a node sends: the packet, broadcast on every link.\<close>

definition sends ::
  "('hs, 'ts, 's) env \<Rightarrow> ('hs, 'ts, 's) node \<Rightarrow> ('hs, 'ts, 's) node \<Rightarrow> msg_type \<Rightarrow> eph_id \<Rightarrow> bytes \<Rightarrow> bool" where
  "sends E n n' t r payload \<longleftrightarrow>
     (\<exists>ttl before after. outbox n' = outbox n @ before @ broadcast_calls E n (signed_packet E n t ttl (Some r) payload) None @ after)"

lemma talk_keeps_calls:
  assumes "talk_keeps n m"
  shows "broadcast_calls E m = broadcast_calls E n" "signed_packet E m = signed_packet E n" "node_eph_id m = node_eph_id n"
  using talk_keepsD [OF assms] by (simp_all add: broadcast_calls_def signed_packet_def node_eph_id_def fun_eq_iff)

lemma sends_before: "talk_keeps n m \<Longrightarrow> sends E m n' t r p \<Longrightarrow> sends E n n' t r p"
proof -
  assume k: "talk_keeps n m" and "sends E m n' t r p"
  then obtain ttl before after where
    o: "outbox n' = outbox m @ before @ broadcast_calls E n (signed_packet E n t ttl (Some r) p) None @ after"
    unfolding sends_def talk_keeps_calls [OF k] by blast
  obtain xs where "outbox m = outbox n @ xs" using k unfolding talk_keeps_def by blast
  with o have "outbox n' = outbox n @ (xs @ before) @ broadcast_calls E n (signed_packet E n t ttl (Some r) p) None @ after" by simp
  then show ?thesis unfolding sends_def by blast
qed

lemma sends_after: "sends E n m t r p \<Longrightarrow> talk_keeps m n' \<Longrightarrow> sends E n n' t r p"
proof -
  assume k: "talk_keeps m n'" and "sends E n m t r p"
  then obtain ttl before after where
    o: "outbox m = outbox n @ before @ broadcast_calls E n (signed_packet E n t ttl (Some r) p) None @ after"
    unfolding sends_def by blast
  obtain xs where "outbox n' = outbox m @ xs" using k unfolding talk_keeps_def by blast
  with o have "outbox n' = outbox n @ before @ broadcast_calls E n (signed_packet E n t ttl (Some r) p) None @ (after @ xs)" by simp
  then show ?thesis unfolding sends_def by blast
qed

lemma send_directed_sends: "bm_get (fp_to_eph n) fp = Some r \<Longrightarrow> sends E n (send_directed E n t fp payload) t r payload"
  unfolding sends_def
  by (simp add: send_directed_def Let_def observe_own_def broadcast_eq) (metis append_Nil append_Nil2)

lemma send_directed_fields:
  "noise_sessions (send_directed E n t fp payload) = noise_sessions n"
  "pending_dms (send_directed E n t fp payload) = pending_dms n"
  "pending_inbound_dms (send_directed E n t fp payload) = pending_inbound_dms n"
  "notice_pending (send_directed E n t fp payload) = notice_pending n"
  by (auto simp: send_directed_def Let_def observe_own_def broadcast_eq split: option.splits)

definition idle :: "('hs, 'ts, 's) node \<Rightarrow> bytes \<Rightarrow> bool" where
  "idle n fp \<longleftrightarrow> bm_get (noise_sessions n) fp = None \<and> bm_get (pending_dms n) fp = None
     \<and> bm_get (pending_inbound_dms n) fp = None \<and> bm_get (notice_pending n) fp = None"

definition knows :: "('hs, 'ts, 's) env \<Rightarrow> ('hs, 'ts, 's) node \<Rightarrow> ('hs, 'ts, 's) node \<Rightarrow> bool" where
  "knows E a b \<longleftrightarrow> bm_get (eph_keys a) (node_eph_id b) = Some (verifying_key (ed_public E) (identity b))
     \<and> bm_get (fp_to_eph a) (node_fingerprint E b) = Some (node_eph_id b)
     \<and> bm_get (peer_static_dh a) (node_fingerprint E b) = Some (dh_public (x_public E) (identity b))"

lemma knows_fp: "knows E a b \<Longrightarrow> eph_to_fp E a (node_eph_id b) = Some (node_fingerprint E b)"
  by (simp add: knows_def eph_to_fp_def node_fingerprint_eq)

lemma knows_cong: "knows E a b \<Longrightarrow> talk_keeps a a' \<Longrightarrow> identity b' = identity b \<Longrightarrow> knows E a' b'"
  by (simp add: knows_def talk_keeps_def node_eph_id_def node_fingerprint_def)

text \<open>The parts of the state a conversation with \<open>fp\<close> goes through.\<close>

definition talking ::
  "('hs, 'ts, 's) node \<Rightarrow> bytes \<Rightarrow> ('hs, 'ts) noise_session \<Rightarrow> rstring list \<Rightarrow> bool" where
  "talking n fp s pending \<longleftrightarrow> bm_get (noise_sessions n) fp = Some s \<and> get_or_default (pending_dms n) fp = pending
     \<and> bm_get (pending_inbound_dms n) fp = None \<and> bm_get (notice_pending n) fp = None"

lemma talking_ready: "talking n fp s ps \<Longrightarrow> session_ready n fp = is_ready s"
  by (simp add: talking_def session_ready_def)

lemma talking_send_directed:
  "talking n fp s ps \<Longrightarrow> talking (send_directed E n t fp' payload) fp s ps"
  by (simp add: talking_def send_directed_fields)

lemma begin_handshake_opens:
  assumes "bm_get (fp_to_eph n) fp = Some r" "new_initiator (snow E) (dh_secret (identity n)) (entropy n) = Inr s0"
    "write_handshake (snow E) s0 = (Inr msg, s1)"
    "bm_get (pending_inbound_dms n) fp = None" "bm_get (notice_pending n) fp = None"
  shows "talking (begin_handshake E n fp) fp s1 (get_or_default (pending_dms n) fp)"
    "sends E n (begin_handshake E n fp) NoiseHandshake r msg"
proof -
  let ?n = "n\<lparr>entropy := Suc (entropy n), noise_sessions := bm_insert fp s1 (noise_sessions n)\<rparr>"
  let ?m = "send_directed E ?n NoiseHandshake fp msg"
  have t: "talking ?m fp s1 (get_or_default (pending_dms n) fp)"
    by (rule talking_send_directed) (use assms in \<open>simp add: talking_def\<close>)
  have b: "begin_handshake E n fp = ?m\<lparr>handshake_last_ms := bm_insert fp (clock ?m) (handshake_last_ms ?m), handshake_attempts :=
      bm_insert fp ((case bm_get (handshake_attempts ?m) fp of Some k \<Rightarrow> k | None \<Rightarrow> 0) + 1) (handshake_attempts ?m)\<rparr>"
    using assms(2,3) by (simp add: begin_handshake_def Let_def)
  show "talking (begin_handshake E n fp) fp s1 (get_or_default (pending_dms n) fp)" unfolding b using t by (simp add: talking_def)
  have k: "talk_keeps n ?n" by (simp add: talk_keeps_def)
  have "sends E n ?m NoiseHandshake r msg"
    by (rule sends_before [OF k send_directed_sends]) (use assms(1) in simp)
  then show "sends E n (begin_handshake E n fp) NoiseHandshake r msg" unfolding b by (rule sends_after [OF _ tk.r_timers])
qed

lemma send_dm_opens:
  assumes "bm_get (fp_to_eph n) fp = Some r" "idle n fp"
    "new_initiator (snow E) (dh_secret (identity n)) (entropy n) = Inr s0" "write_handshake (snow E) s0 = (Inr msg, s1)"
  shows "talking (send_dm E n fp txt) fp s1 [txt]" "sends E n (send_dm E n fp txt) NoiseHandshake r msg"
proof -
  let ?s = "store_dm E n fp True txt"
  let ?n = "?s\<lparr>pending_dms := bm_insert fp (get_or_default (pending_dms ?s) fp @ [txt]) (pending_dms ?s)\<rparr>"
  have f: "bm_get (fp_to_eph ?n) fp = Some r" "new_initiator (snow E) (dh_secret (identity ?n)) (entropy ?n) = Inr s0"
    "bm_get (pending_inbound_dms ?n) fp = None" "bm_get (notice_pending ?n) fp = None"
    "get_or_default (pending_dms ?n) fp = [txt]"
    using assms by (simp_all add: store_dm_def idle_def get_or_default_def)
  note o1 = begin_handshake_opens [OF f(1,2) assms(4) f(3,4)]
  have e: "send_dm E n fp txt = begin_handshake E ?n fp"
    using assms(1,2) by (simp add: send_dm_def Let_def store_dm_def session_ready_def idle_def bm_contains_def)
  show "talking (send_dm E n fp txt) fp s1 [txt]" using o1(1) unfolding e f(5) .
  have "talk_keeps n ?n" by (rule tk.r_trans [OF tk.r_store_dm tk.r_pending])
  then show "sends E n (send_dm E n fp txt) NoiseHandshake r msg" unfolding e by (rule sends_before [OF _ o1(2)])
qed

lemma encrypt_sends:
  assumes "talking n fp s ps" "encrypt (snow E) s (kind # body) = (Inr c, s')" "bm_get (fp_to_eph n) fp = Some r"
  shows "talking (encrypt_and_send_dm E n fp kind body) fp s' ps"
    "sends E n (encrypt_and_send_dm E n fp kind body) DirectMessage r c"
proof -
  let ?n = "n\<lparr>noise_sessions := bm_insert fp s' (noise_sessions n)\<rparr>"
  have e: "encrypt_and_send_dm E n fp kind body = send_directed E ?n DirectMessage fp c"
    using assms(1,2) by (simp add: encrypt_and_send_dm_def talking_def Let_def)
  show "talking (encrypt_and_send_dm E n fp kind body) fp s' ps"
    unfolding e by (rule talking_send_directed) (use assms(1) in \<open>simp add: talking_def\<close>)
  have "talk_keeps n ?n" by (simp add: talk_keeps_def)
  then show "sends E n (encrypt_and_send_dm E n fp kind body) DirectMessage r c"
    unfolding e by (rule sends_before [OF _ send_directed_sends]) (use assms(3) in simp)
qed

text \<open>Finishing a bound session tells the user and sends what was pending.\<close>

lemma finish_bound:
  assumes "talking n fp s ps" "session_bound E n fp"
  obtains n0 where "finish_session E n fp = (let m = foldl (\<lambda>n txt. encrypt_and_send_dm E n fp DM_KIND_TEXT txt) n0 ps;
        inbound = get_or_default (pending_inbound_dms m) fp
      in foldl (\<lambda>n ct. decrypt_and_emit E n fp ct) (m\<lparr>pending_inbound_dms := bm_remove fp (pending_inbound_dms m)\<rparr>) inbound)"
    "talking n0 fp s []" "talk_keeps n n0" "DmSession fp True \<in> set (events n0)"
proof -
  let ?e = "push_event (DmSession fp True) (n\<lparr>handshake_last_ms := bm_remove fp (handshake_last_ms n),
      handshake_attempts := bm_remove fp (handshake_attempts n), resync_pending := bm_remove fp (resync_pending n)\<rparr>)"
  let ?n0 = "?e\<lparr>pending_dms := bm_remove fp (pending_dms ?e)\<rparr>"
  have quiet: "try_send_verify_notice E ?e fp = ?e"
    using assms(1) by (simp add: try_send_verify_notice_def push_event_def talking_def bm_contains_def)
  have ps: "get_or_default (pending_dms ?e) fp = ps" using assms(1) by (simp add: push_event_def talking_def)
  show ?thesis
  proof (rule that [of ?n0])
    show "finish_session E n fp = (let m = foldl (\<lambda>n txt. encrypt_and_send_dm E n fp DM_KIND_TEXT txt) ?n0 ps;
        inbound = get_or_default (pending_inbound_dms m) fp
      in foldl (\<lambda>n ct. decrypt_and_emit E n fp ct) (m\<lparr>pending_inbound_dms := bm_remove fp (pending_inbound_dms m)\<rparr>) inbound)"
      using assms(2) unfolding finish_session_def Let_def by (simp only: quiet ps if_False not_True_eq_False)
    show "talking ?n0 fp s []" using assms(1) by (simp add: talking_def push_event_def)
    show "talk_keeps n ?n0" by (simp add: talk_keeps_def push_event_def)
    show "DmSession fp True \<in> set (events ?n0)" by (simp add: push_event_def)
  qed
qed

lemma finish_bound_quiet:
  assumes "talking n fp s []" "session_bound E n fp"
  obtains n' where "finish_session E n fp = n'" "talking n' fp s []" "talk_keeps n n'" "DmSession fp True \<in> set (events n')"
proof -
  obtain n0 where f: "finish_session E n fp = (let m = foldl (\<lambda>n txt. encrypt_and_send_dm E n fp DM_KIND_TEXT txt) n0 [];
        inbound = get_or_default (pending_inbound_dms m) fp
      in foldl (\<lambda>n ct. decrypt_and_emit E n fp ct) (m\<lparr>pending_inbound_dms := bm_remove fp (pending_inbound_dms m)\<rparr>) inbound)"
    and t: "talking n0 fp s []" and k: "talk_keeps n n0" and e: "DmSession fp True \<in> set (events n0)"
    by (rule finish_bound [OF assms])
  let ?n = "n0\<lparr>pending_inbound_dms := bm_remove fp (pending_inbound_dms n0)\<rparr>"
  have "get_or_default (pending_inbound_dms n0) fp = []" using t by (simp add: talking_def get_or_default_def)
  then have "finish_session E n fp = ?n" using f by simp
  moreover have "talking ?n fp s []" using t by (simp add: talking_def)
  moreover have "talk_keeps n ?n" using k by (rule tk.r_trans [OF _ tk.r_inbound])
  ultimately show ?thesis using that e by simp
qed

lemma finish_bound_message:
  assumes "talking n fp s [txt]" "session_bound E n fp" "encrypt (snow E) s (DM_KIND_TEXT # txt) = (Inr c, s')"
    "bm_get (fp_to_eph n) fp = Some r"
  obtains n' where "finish_session E n fp = n'" "talking n' fp s' []" "talk_keeps n n'" "DmSession fp True \<in> set (events n')"
    "sends E n n' DirectMessage r c"
proof -
  obtain n0 where f: "finish_session E n fp = (let m = foldl (\<lambda>n txt. encrypt_and_send_dm E n fp DM_KIND_TEXT txt) n0 [txt];
        inbound = get_or_default (pending_inbound_dms m) fp
      in foldl (\<lambda>n ct. decrypt_and_emit E n fp ct) (m\<lparr>pending_inbound_dms := bm_remove fp (pending_inbound_dms m)\<rparr>) inbound)"
    and t: "talking n0 fp s []" and k: "talk_keeps n n0" and e: "DmSession fp True \<in> set (events n0)"
    by (rule finish_bound [OF assms(1,2)])
  let ?m = "encrypt_and_send_dm E n0 fp DM_KIND_TEXT txt"
  let ?n = "?m\<lparr>pending_inbound_dms := bm_remove fp (pending_inbound_dms ?m)\<rparr>"
  have r: "bm_get (fp_to_eph n0) fp = Some r" using assms(4) talk_keepsD(6) [OF k] by simp
  note s = encrypt_sends [OF t assms(3) r]
  have "get_or_default (pending_inbound_dms ?m) fp = []" using s(1) by (simp add: talking_def get_or_default_def)
  then have "finish_session E n fp = ?n" using f by (simp add: Let_def)
  moreover have "talking ?n fp s' []" using s(1) by (simp add: talking_def)
  moreover have k': "talk_keeps n0 ?n" by (rule tk.r_trans [OF tk.r_encrypt_and_send_dm tk.r_inbound])
  moreover have "talk_keeps n ?n" by (rule tk.r_trans [OF k k'])
  moreover have "DmSession fp True \<in> set (events ?n)" using e talk_keepsD(12) [OF k'] by blast
  moreover have "sends E n ?n DirectMessage r c"
    by (rule sends_before [OF k sends_after [OF s(2) tk.r_inbound]])
  ultimately show ?thesis using that by blast
qed

text \<open>One step of a handshake on each side.\<close>

lemma read_and_advance_reply:
  assumes "talking n fp s ps" "read_handshake (snow E) s msg = (Inr (), s')" "\<not> is_ready s'"
    "write_handshake (snow E) s' = (Inr reply, s'')" "bm_get (fp_to_eph n) fp = Some r"
  obtains m where "read_and_advance E n fp msg = Ret (if is_ready s'' then finish_session E m fp else m)"
    "talking m fp s'' ps" "talk_keeps n m" "sends E n m NoiseHandshake r reply"
proof -
  let ?r = "n\<lparr>noise_sessions := bm_insert fp s' (noise_sessions n), handshake_last_ms := bm_insert fp (clock n) (handshake_last_ms n)\<rparr>"
  let ?w = "?r\<lparr>noise_sessions := bm_insert fp s'' (noise_sessions ?r)\<rparr>"
  let ?m = "send_directed E ?w NoiseHandshake fp reply"
  have t: "talking ?m fp s'' ps" by (rule talking_send_directed) (use assms(1) in \<open>simp add: talking_def\<close>)
  have k: "talk_keeps n ?w" by (simp add: talk_keeps_def)
  have "read_and_advance E n fp msg = advance_handshake E ?r fp"
    using assms(1,2) by (simp add: read_and_advance_def talking_def)
  also have "\<dots> = Ret (if session_ready ?m fp then finish_session E ?m fp else ?m)"
    using assms(3,4) by (simp add: advance_handshake_def Let_def)
  finally have "read_and_advance E n fp msg = Ret (if is_ready s'' then finish_session E ?m fp else ?m)"
    by (simp only: talking_ready [OF t])
  moreover have "talk_keeps n ?m" by (rule tk.r_trans [OF k tk.r_send_directed])
  moreover have "sends E n ?m NoiseHandshake r reply"
    by (rule sends_before [OF k send_directed_sends]) (use assms(5) in simp)
  ultimately show ?thesis using that t by blast
qed

lemma read_and_advance_last:
  assumes "talking n fp s ps" "read_handshake (snow E) s msg = (Inr (), s')" "is_ready s'"
  obtains m where "read_and_advance E n fp msg = Ret (finish_session E m fp)" "talking m fp s' ps" "talk_keeps n m"
proof -
  let ?r = "n\<lparr>noise_sessions := bm_insert fp s' (noise_sessions n), handshake_last_ms := bm_insert fp (clock n) (handshake_last_ms n)\<rparr>"
  have t: "talking ?r fp s' ps" using assms(1) by (simp add: talking_def)
  have "read_and_advance E n fp msg = advance_handshake E ?r fp"
    using assms(1,2) by (simp add: read_and_advance_def talking_def)
  also have "\<dots> = Ret (finish_session E ?r fp)"
    using assms(3) talking_ready [OF t] by (simp add: advance_handshake_def Let_def)
  finally show ?thesis using that t by (simp add: talk_keeps_def)
qed

lemma handle_noise_handshake_plain:
  assumes "p_recipient pkt = Some (node_eph_id n)" "eph_to_fp E n (p_sender pkt) = Some fp"
    "\<not> session_ready n fp" "\<not> glare n fp (p_payload pkt)"
  shows "handle_noise_handshake E n pkt = answer_handshake E n fp (p_payload pkt)"
  using handle_noise_handshake_answer [OF assms(1,2)] assms(3,4) by (simp add: torn_down_def)

lemma answer_opens:
  assumes "bm_get (fp_to_eph b) fp = Some r" "bm_get (noise_sessions b) fp = None" "get_or_default (pending_dms b) fp = ps"
    "bm_get (pending_inbound_dms b) fp = None" "bm_get (notice_pending b) fp = None"
    "new_responder (snow E) (dh_secret (identity b)) (entropy b) = Inr q0" "read_handshake (snow E) q0 m1 = (Inr (), q1)"
    "is_handshaking q1" "write_handshake (snow E) q1 = (Inr m2, q2)" "is_handshaking q2"
  obtains b1 where "answer_handshake E b fp m1 = Ret b1" "talking b1 fp q2 ps" "talk_keeps b b1" "sends E b b1 NoiseHandshake r m2"
proof -
  let ?b = "add_responder b fp q0"
  have h: "answer_handshake E b fp m1 = read_and_advance E ?b fp m1"
    using assms(2,6) by (simp add: answer_handshake_def bm_contains_def)
  have k: "talk_keeps b ?b" by (rule tk.r_add_responder)
  have r: "bm_get (fp_to_eph ?b) fp = Some r" using assms(1) talk_keepsD(6) [OF k] by simp
  have t: "talking ?b fp q0 ps" using assms(3-5) by (simp add: talking_def add_responder_def)
  obtain m where "read_and_advance E ?b fp m1 = Ret (if is_ready q2 then finish_session E m fp else m)"
    "talking m fp q2 ps" "talk_keeps ?b m" "sends E ?b m NoiseHandshake r m2"
    by (rule read_and_advance_reply [OF t assms(7) handshaking_not_ready [OF assms(8)] assms(9) r])
  then show ?thesis
    using that h handshaking_not_ready [OF assms(10)] tk.r_trans [OF k] sends_before [OF k] by simp
qed

lemma answers_first_message:
  assumes "knows E b a" "idle b (node_fingerprint E a)"
    "p_sender p = node_eph_id a" "p_recipient p = Some (node_eph_id b)" "p_payload p = m1"
    "new_responder (snow E) (dh_secret (identity b)) (entropy b) = Inr q0" "read_handshake (snow E) q0 m1 = (Inr (), q1)"
    "is_handshaking q1" "write_handshake (snow E) q1 = (Inr m2, q2)" "is_handshaking q2"
  obtains b1 where "handle_noise_handshake E b p = Ret b1" "talking b1 (node_fingerprint E a) q2 []" "talk_keeps b b1"
    "sends E b b1 NoiseHandshake (node_eph_id a) m2"
proof -
  let ?fp = "node_fingerprint E a"
  have i: "bm_get (noise_sessions b) ?fp = None" "get_or_default (pending_dms b) ?fp = []"
    "bm_get (pending_inbound_dms b) ?fp = None" "bm_get (notice_pending b) ?fp = None"
    using assms(2) by (simp_all add: idle_def get_or_default_def)
  have r: "bm_get (fp_to_eph b) ?fp = Some (node_eph_id a)" using assms(1) by (simp add: knows_def)
  have h: "handle_noise_handshake E b p = answer_handshake E b ?fp m1"
    using handle_noise_handshake_plain [OF assms(4), of E ?fp] knows_fp [OF assms(1)] assms(3,5) i(1)
    by (simp add: session_ready_def glare_def)
  show ?thesis by (rule answer_opens [OF r i assms(6-10)]) (use h that in simp)
qed

definition carries :: "packet \<Rightarrow> eph_id \<Rightarrow> eph_id \<Rightarrow> bytes \<Rightarrow> bool" where
  "carries p sender recipient payload \<longleftrightarrow> p_sender p = sender \<and> p_recipient p = Some recipient \<and> p_payload p = payload"

lemma handshake_continues:
  assumes "knows E n peer" "carries p (node_eph_id peer) (node_eph_id n) msg" "talking n (node_fingerprint E peer) s ps"
    "is_handshaking s" "length msg \<noteq> XX_MSG1_LEN \<or> \<not> initiator s"
  shows "handle_noise_handshake E n p = read_and_advance E n (node_fingerprint E peer) msg"
proof -
  have "\<not> session_ready n (node_fingerprint E peer)"
    using talking_ready [OF assms(3)] handshaking_not_ready [OF assms(4)] by simp
  moreover have "\<not> glare n (node_fingerprint E peer) msg" using assms(3,5) by (auto simp: glare_def talking_def)
  ultimately show ?thesis
    using handle_noise_handshake_plain [of p n E "node_fingerprint E peer"] knows_fp [OF assms(1)] assms(2,3)
    by (simp add: carries_def answer_handshake_def bm_contains_def talking_def)
qed

lemma talking_bound:
  assumes "talking n fp \<lparr>inner = Transport t, initiator = i\<rparr> ps" "ts_remote_static (snow E) t = Some k" "length k = 32"
    "bm_get (peer_static_dh n) fp = Some k"
  shows "session_bound E n fp"
  using assms by (simp add: session_bound_iff talking_def remote_static_def)

lemma decrypt_emits_text:
  assumes "bm_get (noise_sessions n) fp = Some s" "decrypt (snow E) s c = (Inr (DM_KIND_TEXT # txt), s')"
    "bm_get (fp_to_eph n) fp = Some eph" "valid_utf8 txt"
  shows "DmReceived fp eph txt DM_KIND_TEXT \<in> set (events (decrypt_and_emit E n fp c))"
proof -
  have "split_kind (DM_KIND_TEXT # txt) = (DM_KIND_TEXT, txt)"
    by (simp add: split_kind_def DM_KIND_TEXT_def DM_KIND_VERIFY_ACK_def)
  then show ?thesis
    using assms from_utf8_lossy_valid [OF assms(4)]
    by (simp add: decrypt_and_emit_def Let_def store_dm_def push_event_def DM_KIND_TEXT_def DM_KIND_VERIFY_NOTICE_def)
qed

text \<open>The initiator's answer to the second message: it is ready, and the waiting text goes out.\<close>

lemma initiator_finishes:
  fixes E :: "('hs, 'ts, 's) env"
  assumes "knows E n peer" "carries p (node_eph_id peer) (node_eph_id n) m2"
    "talking n (node_fingerprint E peer) s1 [txt]" "is_handshaking s1" "length m2 \<noteq> XX_MSG1_LEN"
    "read_handshake (snow E) s1 m2 = (Inr (), s2)" "is_handshaking s2"
    "write_handshake (snow E) s2 = (Inr m3, \<lparr>inner = Transport tA, initiator = True\<rparr>)"
    "ts_remote_static (snow E) tA = Some (dh_public (x_public E) (identity peer))" "length (dh_public (x_public E) (identity peer)) = 32"
    "encrypt (snow E) \<lparr>inner = Transport tA, initiator = True\<rparr> (DM_KIND_TEXT # txt) = (Inr c, s4)"
  obtains n' where "handle_noise_handshake E n p = Ret n'" "DmSession (node_fingerprint E peer) True \<in> set (events n')"
    "sends E n n' NoiseHandshake (node_eph_id peer) m3" "sends E n n' DirectMessage (node_eph_id peer) c"
    "talking n' (node_fingerprint E peer) s4 []" "talk_keeps n n'"
proof -
  let ?fp = "node_fingerprint E peer" and ?s = "\<lparr>inner = Transport tA, initiator = True\<rparr> :: ('hs, 'ts) noise_session"
  have h: "handle_noise_handshake E n p = read_and_advance E n ?fp m2"
    by (rule handshake_continues [OF assms(1-4)]) (use assms(5) in simp)
  have kn: "bm_get (fp_to_eph n) ?fp = Some (node_eph_id peer)" "bm_get (peer_static_dh n) ?fp = Some (dh_public (x_public E) (identity peer))"
    using assms(1) by (simp_all add: knows_def)
  obtain m where m: "read_and_advance E n ?fp m2 = Ret (if is_ready ?s then finish_session E m ?fp else m)"
    "talking m ?fp ?s [txt]" "talk_keeps n m" "sends E n m NoiseHandshake (node_eph_id peer) m3"
    by (rule read_and_advance_reply [OF assms(3,6) handshaking_not_ready [OF assms(7)] assms(8) kn(1)])
  have km: "bm_get (fp_to_eph m) ?fp = Some (node_eph_id peer)" "bm_get (peer_static_dh m) ?fp = Some (dh_public (x_public E) (identity peer))"
    using kn talk_keepsD [OF m(3)] by simp_all
  obtain n' where n': "finish_session E m ?fp = n'" "talk_keeps m n'" "DmSession ?fp True \<in> set (events n')"
    "sends E m n' DirectMessage (node_eph_id peer) c" "talking n' ?fp s4 []"
    by (rule finish_bound_message [OF m(2) talking_bound [OF m(2) assms(9,10) km(2)] assms(11) km(1)])
  show ?thesis
  proof (rule that)
    show "handle_noise_handshake E n p = Ret n'" using h m(1) n'(1) by (simp add: is_ready_def)
    show "DmSession ?fp True \<in> set (events n')" by (rule n'(3))
    show "sends E n n' NoiseHandshake (node_eph_id peer) m3" by (rule sends_after [OF m(4) n'(2)])
    show "sends E n n' DirectMessage (node_eph_id peer) c" by (rule sends_before [OF m(3) n'(4)])
    show "talking n' ?fp s4 []" by (rule n'(5))
    show "talk_keeps n n'" by (rule tk.r_trans [OF m(3) n'(2)])
  qed
qed

text \<open>The responder after the third message, and the text it then reads.\<close>

lemma responder_reads:
  fixes E :: "('hs, 'ts, 's) env"
  assumes "knows E n peer" "carries p (node_eph_id peer) (node_eph_id n) m3"
    "talking n (node_fingerprint E peer) q2 ps" "is_handshaking q2" "\<not> initiator q2"
    "read_handshake (snow E) q2 m3 = (Inr (), \<lparr>inner = Transport tB, initiator = False\<rparr>)"
    "ts_remote_static (snow E) tB = Some (dh_public (x_public E) (identity peer))" "length (dh_public (x_public E) (identity peer)) = 32"
  obtains m where "handle_noise_handshake E n p = Ret (finish_session E m (node_fingerprint E peer))"
    "talking m (node_fingerprint E peer) \<lparr>inner = Transport tB, initiator = False\<rparr> ps" "talk_keeps n m"
    "session_bound E m (node_fingerprint E peer)" "bm_get (fp_to_eph m) (node_fingerprint E peer) = Some (node_eph_id peer)"
proof -
  let ?fp = "node_fingerprint E peer" and ?s = "\<lparr>inner = Transport tB, initiator = False\<rparr> :: ('hs, 'ts) noise_session"
  have h: "handle_noise_handshake E n p = read_and_advance E n ?fp m3"
    by (rule handshake_continues [OF assms(1-4)]) (use assms(5) in simp)
  obtain m where m: "read_and_advance E n ?fp m3 = Ret (finish_session E m ?fp)" "talking m ?fp ?s ps" "talk_keeps n m"
    by (rule read_and_advance_last [OF assms(3,6)]) (simp_all add: is_ready_def)
  have km: "bm_get (peer_static_dh m) ?fp = Some (dh_public (x_public E) (identity peer))" "bm_get (fp_to_eph m) ?fp = Some (node_eph_id peer)"
    using assms(1) talk_keepsD [OF m(3)] by (simp_all add: knows_def)
  show ?thesis by (rule that [OF h [unfolded m(1)] m(2,3) talking_bound [OF m(2) assms(7,8) km(1)] km(2)])
qed

lemma responder_finishes:
  fixes E :: "('hs, 'ts, 's) env"
  assumes "knows E n peer" "carries p (node_eph_id peer) (node_eph_id n) m3"
    "talking n (node_fingerprint E peer) q2 []" "is_handshaking q2" "\<not> initiator q2"
    "read_handshake (snow E) q2 m3 = (Inr (), \<lparr>inner = Transport tB, initiator = False\<rparr>)"
    "ts_remote_static (snow E) tB = Some (dh_public (x_public E) (identity peer))" "length (dh_public (x_public E) (identity peer)) = 32"
  obtains n' where "handle_noise_handshake E n p = Ret n'" "DmSession (node_fingerprint E peer) True \<in> set (events n')"
    "talking n' (node_fingerprint E peer) \<lparr>inner = Transport tB, initiator = False\<rparr> []" "talk_keeps n n'"
proof -
  let ?fp = "node_fingerprint E peer" and ?s = "\<lparr>inner = Transport tB, initiator = False\<rparr> :: ('hs, 'ts) noise_session"
  obtain m where m: "handle_noise_handshake E n p = Ret (finish_session E m ?fp)" "talking m ?fp ?s []" "talk_keeps n m" "session_bound E m ?fp"
    by (rule responder_reads [OF assms])
  obtain n' where "finish_session E m ?fp = n'" "talking n' ?fp ?s []" "talk_keeps m n'" "DmSession ?fp True \<in> set (events n')"
    by (rule finish_bound_quiet [OF m(2,4)])
  then show ?thesis using that m(1) tk.r_trans [OF m(3)] by simp
qed

text \<open>A text that arrives encrypted for a ready session is shown.\<close>

lemma text_shown:
  assumes "knows E n peer" "carries p (node_eph_id peer) (node_eph_id n) c"
    "talking n (node_fingerprint E peer) \<lparr>inner = Transport t, initiator = i\<rparr> []"
    "decrypt (snow E) \<lparr>inner = Transport t, initiator = i\<rparr> c = (Inr (DM_KIND_TEXT # txt), s')" "valid_utf8 txt"
  shows "DmReceived (node_fingerprint E peer) (node_eph_id peer) txt DM_KIND_TEXT \<in> set (events (handle_direct_message E n p))"
proof -
  let ?fp = "node_fingerprint E peer"
  have "handle_direct_message E n p = decrypt_and_emit E n ?fp c"
    using assms(2) knows_fp [OF assms(1)] talking_ready [OF assms(3)] by (simp add: handle_direct_message_def carries_def is_ready_def)
  moreover have "DmReceived ?fp (node_eph_id peer) txt DM_KIND_TEXT \<in> set (events (decrypt_and_emit E n ?fp c))"
    by (rule decrypt_emits_text [OF _ assms(4) _ assms(5)]) (use assms(1,3) in \<open>auto simp: talking_def knows_def\<close>)
  ultimately show ?thesis by simp
qed

text \<open>From the second message on: both are ready, and the text that waited is shown.\<close>

lemma exchange_ends:
  fixes E :: "('hs, 'ts, 's) env"
  assumes "snow_ok (snow E)" "cipher_pair (snow E) A B" "A tA" "B tB" "receiving_nonce (snow E) tB \<le> sending_nonce (snow E) tA"
    and "xx_exchange (snow E) ka kb (m1, m2, m3) (tA, tB) (dh_public (x_public E) (identity a), dh_public (x_public E) (identity b))"
    and "knows E a1 b" "node_eph_id a1 = node_eph_id a" "talking a1 (node_fingerprint E b) s1 [txt]" "is_handshaking s1"
    and "read_handshake (snow E) s1 m2 = (Inr (), s2)" "is_handshaking s2" "write_handshake (snow E) s2 = (Inr m3, \<lparr>inner = Transport tA, initiator = True\<rparr>)"
    and "knows E b1 a" "node_eph_id b1 = node_eph_id b" "talking b1 (node_fingerprint E a) q2 []" "is_handshaking q2" "\<not> initiator q2"
    and "read_handshake (snow E) q2 m3 = (Inr (), \<lparr>inner = Transport tB, initiator = False\<rparr>)"
    and "encrypt (snow E) \<lparr>inner = Transport tA, initiator = True\<rparr> (DM_KIND_TEXT # txt) = (Inr c, s4)" "valid_utf8 txt"
    and "carries p2 (node_eph_id b) (node_eph_id a) m2" "carries p3 (node_eph_id a) (node_eph_id b) m3" "carries p4 (node_eph_id a) (node_eph_id b) c"
  obtains a2 b3 where "handle_noise_handshake E a1 p2 = Ret a2" "sends E a1 a2 NoiseHandshake (node_eph_id b) m3"
    "sends E a1 a2 DirectMessage (node_eph_id b) c" "handle_noise_handshake E b1 p3 = Ret b3"
    "DmSession (node_fingerprint E b) True \<in> set (events a2)" "DmSession (node_fingerprint E a) True \<in> set (events b3)"
    "DmReceived (node_fingerprint E a) (node_eph_id a) txt DM_KIND_TEXT \<in> set (events (handle_direct_message E b3 p4))"
proof -
  let ?fa = "node_fingerprint E a" and ?fb = "node_fingerprint E b" and ?qB = "\<lparr>inner = Transport tB, initiator = False\<rparr> :: ('hs, 'ts) noise_session"
  have facts: "length m2 \<noteq> XX_MSG1_LEN" "length (dh_public (x_public E) (identity a)) = 32" "length (dh_public (x_public E) (identity b)) = 32"
    "ts_remote_static (snow E) tA = Some (dh_public (x_public E) (identity b))"
    "ts_remote_static (snow E) tB = Some (dh_public (x_public E) (identity a))"
    using assms(6) unfolding xx_exchange_def by (auto split: prod.splits)
  obtain a2 where a2: "handle_noise_handshake E a1 p2 = Ret a2" "DmSession ?fb True \<in> set (events a2)"
    "sends E a1 a2 NoiseHandshake (node_eph_id b) m3" "sends E a1 a2 DirectMessage (node_eph_id b) c"
    by (rule initiator_finishes [OF assms(7) _ assms(9,10) facts(1) assms(11-13) facts(4,3) assms(20), of p2])
      (use assms(8,22) in simp_all)
  obtain b3 where b3: "handle_noise_handshake E b1 p3 = Ret b3" "DmSession ?fa True \<in> set (events b3)"
    "talking b3 ?fa ?qB []" "talk_keeps b1 b3"
    by (rule responder_finishes [OF assms(14) _ assms(16-19) facts(5,2), of p3]) (use assms(15,23) in simp_all)
  obtain r' where d: "decrypt (snow E) ?qB c = (Inr (DM_KIND_TEXT # txt), r')"
    using encrypt_decrypt [OF assms(1,2) _ assms(3) _ assms(4,5,20), of ?qB] by auto
  have "carries p4 (node_eph_id a) (node_eph_id b3) c" using assms(15,24) talk_keeps_calls(3) [OF b3(4)] by simp
  then have "DmReceived ?fa (node_eph_id a) txt DM_KIND_TEXT \<in> set (events (handle_direct_message E b3 p4))"
    by (rule text_shown [OF knows_cong [OF assms(14) b3(4) refl] _ b3(3) d assms(21)])
  then show ?thesis by (rule that [OF a2(1,3,4) b3(1) a2(2) b3(2)])
qed

section \<open>Properties of conversations\<close>

text \<open>C2: a first direct message arrives: two nodes that know each other's announced keys and have no session
  yet exchange the three handshake packets that sending the message triggers, both users are told
  that the session is verified, and the waiting text is sent encrypted and shown to the recipient
  as coming from the sender's fingerprint.\<close>

theorem first_message_delivered:
  fixes E :: "('hs, 'ts, 's) env"
  assumes "snow_ok (snow E)" "cipher_pair (snow E) A B" "A tA" "B tB" "receiving_nonce (snow E) tB \<le> sending_nonce (snow E) tA"
    and "xx_exchange (snow E) (dh_secret (identity a), entropy a) (dh_secret (identity b), entropy b) (m1, m2, m3) (tA, tB)
          (dh_public (x_public E) (identity a), dh_public (x_public E) (identity b))"
    and "knows E a b" "knows E b a" "idle a (node_fingerprint E b)" "idle b (node_fingerprint E a)"
    and "encrypt (snow E) \<lparr>inner = Transport tA, initiator = True\<rparr> (DM_KIND_TEXT # txt) = (Inr c, s4)" "valid_utf8 txt"
    and "carries p1 (node_eph_id a) (node_eph_id b) m1" "carries p2 (node_eph_id b) (node_eph_id a) m2"
    and "carries p3 (node_eph_id a) (node_eph_id b) m3" "carries p4 (node_eph_id a) (node_eph_id b) c"
  shows "\<exists>b1 a2 b3.
      sends E a (send_dm E a (node_fingerprint E b) txt) NoiseHandshake (node_eph_id b) m1
    \<and> handle_noise_handshake E b p1 = Ret b1 \<and> sends E b b1 NoiseHandshake (node_eph_id a) m2
    \<and> handle_noise_handshake E (send_dm E a (node_fingerprint E b) txt) p2 = Ret a2
    \<and> sends E (send_dm E a (node_fingerprint E b) txt) a2 NoiseHandshake (node_eph_id b) m3
    \<and> sends E (send_dm E a (node_fingerprint E b) txt) a2 DirectMessage (node_eph_id b) c
    \<and> handle_noise_handshake E b1 p3 = Ret b3
    \<and> DmSession (node_fingerprint E b) True \<in> set (events a2) \<and> DmSession (node_fingerprint E a) True \<in> set (events b3)
    \<and> DmReceived (node_fingerprint E a) (node_eph_id a) txt DM_KIND_TEXT \<in> set (events (handle_direct_message E b3 p4))"
proof -
  let ?fa = "node_fingerprint E a" and ?fb = "node_fingerprint E b" and ?a1 = "send_dm E a (node_fingerprint E b) txt"
  obtain s0 s1 s2 q0 q1 q2 where
    s: "new_initiator (snow E) (dh_secret (identity a)) (entropy a) = Inr s0" "write_handshake (snow E) s0 = (Inr m1, s1)" "is_handshaking s1"
    and q: "new_responder (snow E) (dh_secret (identity b)) (entropy b) = Inr q0" "read_handshake (snow E) q0 m1 = (Inr (), q1)"
      "is_handshaking q1" "write_handshake (snow E) q1 = (Inr m2, q2)" "is_handshaking q2" "\<not> initiator q2"
    and u: "read_handshake (snow E) s1 m2 = (Inr (), s2)" "is_handshaking s2"
      "write_handshake (snow E) s2 = (Inr m3, \<lparr>inner = Transport tA, initiator = True\<rparr>)"
    and q3: "read_handshake (snow E) q2 m3 = (Inr (), \<lparr>inner = Transport tB, initiator = False\<rparr>)"
    by (rule xx_exchange_sessions [OF assms(6)])
  have kb: "bm_get (fp_to_eph a) ?fb = Some (node_eph_id b)" using assms(7) by (simp add: knows_def)
  have o1: "talking ?a1 ?fb s1 [txt]" "sends E a ?a1 NoiseHandshake (node_eph_id b) m1"
    by (rule send_dm_opens [OF kb assms(9) s(1) s(2)])+
  have ka1: "talk_keeps a ?a1" by (rule tk.r_send_dm)
  obtain b1 where b1: "handle_noise_handshake E b p1 = Ret b1" "talking b1 ?fa q2 []" "talk_keeps b b1"
    "sends E b b1 NoiseHandshake (node_eph_id a) m2"
    by (rule answers_first_message [OF assms(8,10) _ _ _ q(1-5), of p1]) (use assms(13) in \<open>auto simp: carries_def\<close>)
  obtain a2 b3 where "handle_noise_handshake E ?a1 p2 = Ret a2" "sends E ?a1 a2 NoiseHandshake (node_eph_id b) m3"
    "sends E ?a1 a2 DirectMessage (node_eph_id b) c" "handle_noise_handshake E b1 p3 = Ret b3"
    "DmSession ?fb True \<in> set (events a2)" "DmSession ?fa True \<in> set (events b3)"
    "DmReceived ?fa (node_eph_id a) txt DM_KIND_TEXT \<in> set (events (handle_direct_message E b3 p4))"
    by (rule exchange_ends [OF assms(1-6) knows_cong [OF assms(7) ka1 refl] talk_keeps_calls(3) [OF ka1] o1(1) s(3) u
          knows_cong [OF assms(8) b1(3) refl] talk_keeps_calls(3) [OF b1(3)] b1(2) q(5,6) q3 assms(11,12,14-16)])
  with o1(2) b1(1,4) show ?thesis by blast
qed

definition met :: "u8 \<Rightarrow> u8 \<Rightarrow> (xx_hs, xx_ts, memory_store) node" where
  "met k k' = (sample_node k)\<lparr>eph_keys := [(replicate 8 k', replicate 32 k')], fp_to_eph := [(replicate 32 k', replicate 8 k')],
     peer_static_dh := [(replicate 32 k', replicate 32 k')]\<rparr>"

lemma pad32_id [simp]: "pad32 (replicate 32 k) = replicate 32 k"
  by (simp add: pad32_def)

lemma met_facts [simp]:
  "node_eph_id (met k k') = replicate 8 k" "node_fingerprint sample_env (met k k') = replicate 32 k"
  "dh_public (x_public sample_env) (identity (met k k')) = replicate 32 k"
  "verifying_key (ed_public sample_env) (identity (met k k')) = replicate 32 k"
  "dh_secret (identity (met k k')) = replicate 32 k" "entropy (met k k') = 0" "idle (met k k') fp"
  by (simp_all add: met_def sample_node_def node_new_def node_eph_id_def node_fingerprint_def fingerprint_def sample_env_def
      dh_public_def verifying_key_def idle_def)

lemma met_knows: "knows sample_env (met k k') (met k' k)"
  unfolding knows_def met_facts by (simp add: met_def)

lemma sample_snow [simp]: "snow sample_env = xx_snow"
  by (simp add: sample_env_def)

lemma xx_snow_exchange:
  assumes "length a = 32" "length b = 32"
  shows "xx_exchange xx_snow (a, ea) (b, eb) (replicate 32 0, 1 # b, 1 # a) ((Some b, 0, 0), (Some a, 0, 0)) (a, b)"
  unfolding xx_exchange_def prod.case
  by (rule conjI, simp add: xx_snow_def, rule conjI, use assms in \<open>simp add: XX_MSG1_LEN_def\<close>,
      rule conjI, rule assms, rule conjI, rule assms,
      rule exI [of _ "(True, 0, a, None)"], rule exI [of _ "(True, 1, a, None)"], rule exI [of _ "(True, 2, a, Some
        b)"], rule exI [of _ "(True, 3, a, Some b)"], rule exI [of _ "(False, 0, b, None)"], rule exI [of _ "(False,
        1, b, None)"], rule exI [of _ "(False, 2, b, None)"], rule exI [of _ "(False, 3, b, Some a)"], rule exI [of _
        "[]"], rule exI [of _ "[]"], rule exI [of _ "[]"],
      use assms in \<open>simp add: xx_snow_def\<close>)

lemma xx_snow_pair: "cipher_pair xx_snow (\<lambda>_. True) (\<lambda>_. True)"
  by (auto simp: cipher_pair_def xx_snow_def split: if_splits)

theorem first_message_delivered_witness:
  "\<exists>b1 a2 b3. handle_noise_handshake sample_env (met 2 1)
        (signed_packet sample_env (met 1 2) NoiseHandshake 10 (Some (replicate 8 2)) (replicate 32 0)) = Ret b1
    \<and> handle_noise_handshake sample_env (send_dm sample_env (met 1 2) (replicate 32 2) [104, 105])
        (signed_packet sample_env (met 2 1) NoiseHandshake 10 (Some (replicate 8 1)) (1 # replicate 32 2)) = Ret a2
    \<and> handle_noise_handshake sample_env b1
        (signed_packet sample_env (met 1 2) NoiseHandshake 10 (Some (replicate 8 2)) (1 # replicate 32 1)) = Ret b3
    \<and> DmReceived (replicate 32 1) (replicate 8 1) [104, 105] DM_KIND_TEXT \<in> set (events (handle_direct_message sample_env b3
        (signed_packet sample_env (met 1 2) DirectMessage 10 (Some (replicate 8 2)) (u64_to_be 0 @ u64_to_be 0 @ [DM_KIND_TEXT, 104, 105]))))"
proof -
  have x: "xx_exchange (snow sample_env) (dh_secret (identity (met 1 2)), entropy (met 1 2)) (dh_secret (identity (met 2 1)), entropy (met 2 1))
      (replicate 32 0, 1 # replicate 32 2, 1 # replicate 32 1) ((Some (replicate 32 2), 0, 0), (Some (replicate 32 1), 0, 0))
      (dh_public (x_public sample_env) (identity (met 1 2)), dh_public (x_public sample_env) (identity (met 2 1)))"
    unfolding sample_snow met_facts by (rule xx_snow_exchange) simp_all
  have e: "encrypt (snow sample_env) \<lparr>inner = Transport (Some (replicate 32 2), 0, 0), initiator = True\<rparr> (DM_KIND_TEXT # [104, 105]) =
      (Inr (u64_to_be 0 @ u64_to_be 0 @ [DM_KIND_TEXT, 104, 105]), \<lparr>inner = Transport (Some (replicate 32 2), 1, 0), initiator = True\<rparr>)"
    by (simp add: encrypt_def xx_snow_def Let_def)
  have v: "valid_utf8 [104, 105]" by code_simp
  have c: "carries (signed_packet sample_env (met k k') t ttl (Some (replicate 8 k')) p) (node_eph_id (met k k')) (node_eph_id (met k' k)) p"
    for k k' t ttl p by (simp add: carries_def)
  have sn: "snow_ok (snow sample_env)" "cipher_pair (snow sample_env) (\<lambda>_. True) (\<lambda>_. True)"
    "receiving_nonce (snow sample_env) (Some (replicate 32 1), 0, 0) \<le> sending_nonce (snow sample_env) (Some (replicate 32 2), 0, 0)"
    using xx_snow_ok xx_snow_pair by (simp_all add: xx_snow_def)
  show ?thesis
    using first_message_delivered [OF sn(1,2) TrueI TrueI sn(3) x met_knows met_knows met_facts(7) met_facts(7) e v c c c c, of NoiseHandshake 10 NoiseHandshake 10 NoiseHandshake 10 DirectMessage 10]
    unfolding met_facts by blast
qed

section \<open>A sample run\<close>

text \<open>From a new node to a ready session: the announce of a peer arrives, the user opens a conversation, and
  the peer's answer arrives.\<close>

lemma frame_is_packet:
  assumes "packet_ok pkt"
  shows "on_transport_event E n (FrameReceived l (KIND_COMPLETE # encode pkt)) = on_packet E n l pkt"
proof -
  have "ingest (n_reassembler n) (KIND_COMPLETE # encode pkt) (clock n) = Ret (Inr (Some (encode pkt)), n_reassembler n)"
    by (simp add: ingest_eq)
  then show ?thesis by (simp add: on_transport_event_def on_frame_def decode_encode [OF assms])
qed

lemma sample_digest:
  "8 \<le> length payload \<Longrightarrow>
    packet_digest (sha256 sample_env) (signed_packet sample_env n t ttl r payload) = take 8 (rev payload)"
  by (simp add: packet_digest_def signed_packet_def packet_sign_def sample_env_def pad32_def signed_region_def write_body_def
      new_packet_def)

lemma sample_announce_packet:
  "announce_packet sample_env (sample_node k) =
     signed_packet sample_env (sample_node k) Announce 15 None (replicate 32 k @ replicate 32 k @ [0])"
  by (simp add: announce_packet_def sample_node_def node_new_def encode_announce_def verifying_key_def dh_public_def
      sample_env_def origin_ttl_def default_tunables_def)

lemma announced_idle:
  "pending_dms (announced E n pkt pk dh nick) = pending_dms n" "pending_inbound_dms (announced E n pkt pk dh nick) = pending_inbound_dms n"
  "notice_pending (announced E n pkt pk dh nick) = notice_pending n" "seen (announced E n pkt pk dh nick) = seen n"
  "rate (announced E n pkt pk dh nick) = rate n" "clock (announced E n pkt pk dh nick) = clock n"
  "identity (announced E n pkt pk dh nick) = identity n" "entropy (announced E n pkt pk dh nick) = entropy n"
  by (simp_all add: announced_def Let_def push_event_def store_dm_def split: option.splits)

lemma sample_node_fields [simp]:
  "seen (sample_node k) = seen_cache_new default_tunables" "rate (sample_node k) = rate_limiter_new default_tunables"
  "clock (sample_node k) = 1000" "node_eph_id (sample_node k) = replicate 8 k" "noise_sessions (sample_node k) = []"
  "pending_dms (sample_node k) = []" "pending_inbound_dms (sample_node k) = []" "notice_pending (sample_node k) = []"
  "entropy (sample_node k) = 0" "node_fingerprint sample_env (sample_node k) = replicate 32 k"
  "verifying_key (ed_public sample_env) (identity (sample_node k)) = replicate 32 k"
  "dh_public (x_public sample_env) (identity (sample_node k)) = replicate 32 k"
  "dh_secret (identity (sample_node k)) = replicate 32 k" "nickname (sample_node k) = []"
  "n_store (sample_node k) = memory_store_new 1000 21600000 86400000 100" "peer_static_dh (sample_node k) = []"
  by (simp_all add: sample_node_def node_new_def node_eph_id_def node_fingerprint_def fingerprint_def verifying_key_def
      dh_public_def sample_env_def)

lemma sample_env_fields [simp]: "sha256 sample_env = pad32" "store sample_env = memory_ops id"
  by (simp_all add: sample_env_def)

lemma sample_announce:
  obtains n where "on_packet sample_env (sample_node 1) 7 (announce_packet sample_env (sample_node 2)) = Ret n"
    "knows sample_env n (sample_node 2)" "idle n (replicate 32 2)" "identity n = identity (sample_node 1)" "entropy n = 0"
    "seen n = snd (observe (seen_cache_new default_tunables) (0 # replicate 7 2) 1000)"
    "rate n = snd (allow (rate_limiter_new default_tunables) (replicate 8 2) 1000)" "clock n = 1000"
proof -
  let ?p = "announce_packet sample_env (sample_node 2)" and ?k = "replicate 32 2 :: bytes"
  let ?n = "admitted sample_env (sample_node 1) ?p"
  let ?a = "announced sample_env ?n ?p ?k ?k []"
  have p: "p_type ?p = Announce" "p_sender ?p = replicate 8 2" by (simp_all add: sample_announce_packet)
  have d: "packet_digest pad32 ?p = 0 # replicate 7 2"
    using sample_digest [of "replicate 32 2 @ replicate 32 2 @ [0]" "sample_node 2" Announce 15 None]
    by (simp add: sample_announce_packet)
  have "on_packet sample_env (sample_node 1) 7 ?p = and_then (dispatch sample_env ?n 7 ?p) (\<lambda>n. Ret (maybe_relay sample_env n 7 ?p))"
    by (rule on_packet_admitted) (simp_all add: p seen_cache_new_ok fresh_allowed, simp add: seen_cache_new_def hear_count_def)
  moreover have disp: "dispatch sample_env ?n 7 ?p = accept_announce sample_env ?n ?p ?k ?k []"
    using dispatch_announce [OF sample_crypto_ok, of ?n 7 "sample_node 2"] from_utf8_lossy_valid [of "[]"]
    by (simp add: valid_utf8.simps)
  moreover obtain ls xs held st where acc: "accept_announce sample_env ?n ?p ?k ?k [] =
      Ret (foldl (\<lambda>n bs. send_dm sample_env n (sha256 sample_env ?k) (from_utf8_lossy bs)) (?a\<lparr>links := ls, outbox := xs, n_store := st\<rparr>) held)"
    "take_envelopes (store sample_env) (n_store ?a) (sha256 sample_env ?k) = (held, st)"
    using accept_announce_eq [of sample_env ?n ?p ?k ?k "[]"] by blast
  moreover have "held = []"
    using acc(2) by (simp add: announced_def Let_def push_event_def admitted_def memory_ops_def mem_take_envelopes_def
        mem_upsert_peer_def memory_store_new_def get_or_default_def)
  moreover obtain r sch where relay: "maybe_relay sample_env (?a\<lparr>links := ls, outbox := xs, n_store := st\<rparr>) 7 ?p =
      ?a\<lparr>links := ls, outbox := xs, n_store := st\<rparr>\<lparr>n_rng := r, scheduler := sch\<rparr>"
    using maybe_relay_frame by blast
  ultimately have "on_packet sample_env (sample_node 1) 7 ?p = Ret (?a\<lparr>links := ls, outbox := xs, n_store := st\<rparr>\<lparr>n_rng := r, scheduler := sch\<rparr>)"
    (is "_ = Ret ?m") by simp
  then show ?thesis
  proof (rule that)
    show "knows sample_env ?m (sample_node 2)" by (simp add: knows_def p)
    show "idle ?m (replicate 32 2)" by (simp add: idle_def announced_idle admitted_def)
  qed (simp_all add: announced_idle admitted_def p d)
qed

end
