(* ===== verification/Sessions.thy ===== *)
theory Sessions
  imports Delivery
begin

text \<open>
  The sessions of a whole run: a ready session is with a key that the node had recorded for the
  fingerprint, and keys are recorded only from signed announces.  The sample run takes a new node
  from the frames on its link to a ready session.
\<close>


lemma begin_handshake_seen:
  assumes "bm_get (fp_to_eph n) fp = Some r" "new_initiator (snow E) (dh_secret (identity n)) (entropy n) = Inr s0"
    "write_handshake (snow E) s0 = (Inr msg, s1)"
  shows "\<exists>ttl. seen (begin_handshake E n fp) =
    snd (observe (seen n) (packet_digest (sha256 E) (signed_packet E n NoiseHandshake ttl (Some r) msg)) (clock n))"
proof -
  let ?n = "n\<lparr>entropy := Suc (entropy n), noise_sessions := bm_insert fp s1 (noise_sessions n)\<rparr>"
  have "signed_packet E ?n = signed_packet E n" by (simp add: signed_packet_def node_eph_id_def fun_eq_iff)
  then show ?thesis
    using assms by (auto simp: begin_handshake_def Let_def send_directed_def observe_own_def broadcast_eq)
qed

lemma allow_twice: "fst (allow (snd (allow (rate_limiter_new default_tunables) s t)) s t)"
proof -
  let ?rl = "rate_limiter_new default_tunables"
  have b: "bucket_entry ?rl s t = \<lparr>tokens = of_nat 10, last_ms = t, greylist_until = 0\<rparr>"
    by (simp add: bucket_entry_def rate_limiter_new_def)
  have "bucket_entry (snd (allow ?rl s t)) s t = (bucket_entry ?rl s t)\<lparr>tokens := of_nat (10 - 1)\<rparr>"
    by (rule allow_same_instant(2)) (use b in \<open>simp_all add: rate_limiter_new_def\<close>)
  moreover have cfg: "rl_cfg (snd (allow ?rl s t)) = default_tunables" by (simp add: allow_def Let_def rate_limiter_new_def)
  ultimately show ?thesis
    using allow_same_instant(1) [of "snd (allow ?rl s t)" s t 9] b cfg by simp
qed

lemma xx_sessions:
  "new_initiator xx_snow k e = Inr \<lparr>inner = Handshake (True, 0, k, None), initiator = True\<rparr>"
  "write_handshake xx_snow \<lparr>inner = Handshake (True, 0, k, None), initiator = True\<rparr> =
     (Inr (replicate 32 0), \<lparr>inner = Handshake (True, 1, k, None), initiator = True\<rparr>)"
  "length k' = 32 \<Longrightarrow> read_handshake xx_snow \<lparr>inner = Handshake (True, 1, k, None), initiator = True\<rparr> (1 # k') =
     (Inr (), \<lparr>inner = Handshake (True, 2, k, Some k'), initiator = True\<rparr>)"
  "write_handshake xx_snow \<lparr>inner = Handshake (True, 2, k, Some k'), initiator = True\<rparr> =
     (Inr (1 # k), \<lparr>inner = Transport (Some k', 0, 0), initiator = True\<rparr>)"
  by (simp_all add: new_initiator_def write_handshake_def read_handshake_def maybe_transition_def xx_snow_def)

text \<open>The sample run: an announce, the start of a session, and the answer to its handshake.\<close>

lemma sample_met:
  obtains n where "node_run sample_env (sample_node 1) [sample_node 1, n] n" "knows sample_env n (sample_node 2)"
    "idle n (replicate 32 2)" "identity n = identity (sample_node 1)" "entropy n = 0"
    "seen n = snd (observe (seen_cache_new default_tunables) (0 # replicate 7 2) 1000)"
    "rate n = snd (allow (rate_limiter_new default_tunables) (replicate 8 2) 1000)" "clock n = 1000"
proof (rule sample_announce)
  let ?p = "announce_packet sample_env (sample_node 2)"
  fix n assume n: "on_packet sample_env (sample_node 1) 7 ?p = Ret n" "knows sample_env n (sample_node 2)"
    "idle n (replicate 32 2)" "identity n = identity (sample_node 1)" "entropy n = 0"
    "seen n = snd (observe (seen_cache_new default_tunables) (0 # replicate 7 2) 1000)"
    "rate n = snd (allow (rate_limiter_new default_tunables) (replicate 8 2) 1000)" "clock n = 1000"
  have "packet_ok ?p" by (rule announce_packet_ok [OF sample_crypto_ok]) simp
  then have "node_run sample_env (sample_node 1) [sample_node 1, n] n"
    using run_step [OF run_refl node_step.Event, of sample_env "sample_node 1" "FrameReceived 7 (KIND_COMPLETE # encode ?p)" n]
      frame_is_packet [of ?p sample_env "sample_node 1" 7] n(1) by simp
  then show ?thesis by (rule that [OF _ n(2-8)])
qed

abbreviation sample_opening :: "(xx_hs, xx_ts) noise_session" where
  "sample_opening \<equiv> \<lparr>inner = Handshake (True, 1, replicate 32 1, None), initiator = True\<rparr>"

lemma sample_opened:
  obtains hist n where "node_run sample_env (sample_node 1) hist n" "knows sample_env n (sample_node 2)"
    "talking n (replicate 32 2) sample_opening []" "identity n = identity (sample_node 1)" "hear_count (seen n) (replicate 8 2) = 0"
    "fst (allow (rate n) (replicate 8 2) (clock n))"
proof (rule sample_met)
  let ?fp = "replicate 32 2 :: bytes"
  fix m assume m: "node_run sample_env (sample_node 1) [sample_node 1, m] m" "knows sample_env m (sample_node 2)"
    "idle m ?fp" "identity m = identity (sample_node 1)" "entropy m = 0"
    "seen m = snd (observe (seen_cache_new default_tunables) (0 # replicate 7 2) 1000)"
    "rate m = snd (allow (rate_limiter_new default_tunables) (replicate 8 2) 1000)" "clock m = 1000"
  let ?n = "start_dm_session sample_env m ?fp"
  have known: "bm_get (fp_to_eph m) ?fp = Some (replicate 8 2)" using m(2) by (simp add: knows_def)
  have e: "?n = begin_handshake sample_env m ?fp"
    using m(3) known by (simp add: start_dm_session_def idle_def session_ready_def bm_contains_def)
  have init: "new_initiator (snow sample_env) (dh_secret (identity m)) (entropy m) =
      Inr \<lparr>inner = Handshake (True, 0, replicate 32 1, None), initiator = True\<rparr>"
    by (simp add: m(4) xx_sessions(1))
  note w = xx_sessions(2) [folded sample_snow, of "replicate 32 1"]
  have k: "talk_keeps m ?n" unfolding e by (rule tk.r_begin_handshake)
  have ne: "replicate 8 (2 :: u8) \<noteq> 0 # replicate 7 2" by code_simp
  show ?thesis
  proof (rule that)
    show "node_run sample_env (sample_node 1) ([sample_node 1, m] @ [?n]) ?n" by (rule run_step [OF m(1) node_step.StartDm])
    show "knows sample_env ?n (sample_node 2)" by (rule knows_cong [OF m(2) k refl])
    show "talking ?n ?fp sample_opening []"
      using begin_handshake_opens(1) [OF known init w] m(3) by (simp add: e idle_def get_or_default_def)
    show "identity ?n = identity (sample_node 1)" using talk_keepsD(1) [OF k] m(4) by simp
    have "seen ?n = snd (observe (seen m) (replicate 8 0) 1000)"
      using begin_handshake_seen [OF known init w] by (auto simp: e m(8) sample_digest [simplified])
    then show "hear_count (seen ?n) (replicate 8 2) = 0"
      using ne by (simp add: m(6) observe_def hear_count_def seen_cache_new_def Let_def)
    show "fst (allow (rate ?n) (replicate 8 2) (clock ?n))" using allow_twice by (simp add: talk_keepsD(3,8) [OF k] m(7,8))
  qed
qed

lemma sample_session:
  obtains hist n s where "node_run sample_env (sample_node 1) hist n"
    "bm_get (noise_sessions n) (replicate 32 2) = Some s" "is_ready s"
proof (rule sample_opened)
  let ?fp = "replicate 32 2 :: bytes" and ?k = "replicate 32 1 :: bytes"
  let ?p = "signed_packet sample_env (sample_node 2) NoiseHandshake 10 (Some (replicate 8 1)) (1 # ?fp)"
  fix hist n assume n: "node_run sample_env (sample_node 1) hist n" "knows sample_env n (sample_node 2)" "talking n ?fp sample_opening []"
    "identity n = identity (sample_node 1)" "hear_count (seen n) (replicate 8 2) = 0" "fst (allow (rate n) (replicate 8 2) (clock n))"
  have d: "packet_digest (sha256 sample_env) ?p = replicate 8 2"
    using sample_digest [of "1 # ?fp" "sample_node 2" NoiseHandshake 10 "Some (replicate 8 1)"] by simp
  have ok: "packet_ok ?p" by (rule signed_packet_ok [OF sample_crypto_ok]) simp_all
  have nok: "node_ok n" by (rule node_run_ok [OF n(1)]) (simp add: sample_node_def node_new_ok)
  let ?m = "admitted sample_env n ?p"
  have o3: "on_packet sample_env n 7 ?p = and_then (handle_noise_handshake sample_env ?m ?p) (\<lambda>n. Ret (maybe_relay sample_env n 7 ?p))"
    using on_packet_admitted [of n ?p sample_env 7] n(5,6) d nok by (simp add: node_ok_def parts_ok_def dispatch_def)
  have km: "knows sample_env ?m (sample_node 2)" and tm: "talking ?m ?fp sample_opening []"
    and im: "node_eph_id ?m = replicate 8 1"
    using n(2,3,4) by (simp_all add: knows_def talking_def admitted_def node_eph_id_def sample_node_def node_new_def)
  have h: "handle_noise_handshake sample_env ?m ?p = read_and_advance sample_env ?m ?fp (1 # ?fp)"
    using handshake_continues [OF km _ _ _, of ?p "1 # ?fp"] tm im by (simp add: carries_def is_handshaking_def XX_MSG1_LEN_def)
  have fm: "bm_get (fp_to_eph ?m) ?fp = Some (replicate 8 2)" using km by (simp add: knows_def)
  let ?s = "\<lparr>inner = Transport (Some ?fp, 0, 0), initiator = True\<rparr> :: (xx_hs, xx_ts) noise_session"
  have rd: "read_handshake (snow sample_env) sample_opening (1 # ?fp) =
      (Inr (), \<lparr>inner = Handshake (True, 2, ?k, Some ?fp), initiator = True\<rparr>)"
    unfolding sample_snow by (rule xx_sessions(3)) simp
  obtain q where q: "read_and_advance sample_env ?m ?fp (1 # ?fp) = Ret (if is_ready ?s then finish_session sample_env q ?fp else q)"
    "talking q ?fp ?s []" "talk_keeps ?m q"
    by (rule read_and_advance_reply [OF tm rd _ xx_sessions(4) [folded sample_snow] fm]) (simp add: is_ready_def)
  have "session_bound sample_env q ?fp"
    using km talk_keepsD(7) [OF q(3)] by (intro talking_bound [OF q(2)]) (simp_all add: xx_snow_def knows_def)
  then obtain n' where n': "finish_session sample_env q ?fp = n'" "talking n' ?fp ?s []"
    by (rule finish_bound_quiet [OF q(2)])
  obtain r sch where "maybe_relay sample_env n' 7 ?p = n'\<lparr>n_rng := r, scheduler := sch\<rparr>" using maybe_relay_frame by blast
  with o3 h q(1) n'(1) have "on_packet sample_env n 7 ?p = Ret (n'\<lparr>n_rng := r, scheduler := sch\<rparr>)" by (simp add: is_ready_def)
  then have "on_transport_event sample_env n (FrameReceived 7 (KIND_COMPLETE # encode ?p)) = Ret (n'\<lparr>n_rng := r, scheduler := sch\<rparr>)"
    by (simp add: frame_is_packet [OF ok])
  from run_step [OF n(1) node_step.Event [OF this]] show ?thesis
    by (rule that [where s = ?s]) (use n'(2) in \<open>simp_all add: talking_def is_ready_def\<close>)
qed

section \<open>Where the recorded keys come from\<close>

text \<open>A step in which the node takes in a frame that completes an announce of the key, signed by the identity key
  whose hash is the fingerprint.\<close>

definition key_announced :: "('hs, 'ts, 's) env \<Rightarrow> ('hs, 'ts, 's) node \<Rightarrow> ('hs, 'ts, 's) node \<Rightarrow> bytes \<Rightarrow> bytes \<Rightarrow> bool" where
  "key_announced E n n' fp dh \<longleftrightarrow> (\<exists>link frame bs ra pkt pk nick. on_transport_event E n (FrameReceived link frame) = Ret n'
     \<and> ingest (n_reassembler n) frame (clock n) = Ret (Inr (Some bs), ra) \<and> decode bs = Ret (Inr pkt)
     \<and> p_type pkt = Announce \<and> decode_announce (p_payload pkt) = Ret (Some (pk, dh, nick))
     \<and> packet_verify (ed_verify E) pkt pk = Inr () \<and> sha256 E pk = fp \<and> bm_get (peer_static_dh n') fp = Some dh)"

lemma on_frame_completes:
  assumes "on_frame E n l frame = Ret n'" "peer_static_dh n' \<noteq> peer_static_dh n"
  obtains ra bs pkt where "ingest (n_reassembler n) frame (clock n) = Ret (Inr (Some bs), ra)" "decode bs = Ret (Inr pkt)"
    "on_packet E (n\<lparr>n_reassembler := ra\<rparr>) l pkt = Ret n'"
proof -
  obtain res ra where i: "ingest (n_reassembler n) frame (clock n) = Ret (res, ra)"
    using assms(1) by (auto simp: on_frame_def and_then_eq_Ret)
  then obtain bs where bs: "res = Inr (Some bs)"
    using assms by (cases res; cases "projr res") (auto simp: on_frame_def)
  obtain d where d: "decode bs = Ret d" using decode_total by blast
  then obtain pkt where "d = Inr pkt" using assms i bs by (cases d) (auto simp: on_frame_def)
  with i bs d assms(1) show ?thesis by (intro that) (auto simp: on_frame_def)
qed

lemma event_keys:
  assumes "noise_laws (snow E)" "on_transport_event E n ev = Ret n'" "bm_get (peer_static_dh n') fp \<noteq> bm_get (peer_static_dh n) fp"
  shows "\<exists>dh. key_announced E n n' fp dh"
proof -
  have ne: "peer_static_dh n' \<noteq> peer_static_dh n" using assms(3) by auto
  show ?thesis
  proof (cases ev)
    case (FrameReceived l f)
    with assms(2) have f: "on_frame E n l f = Ret n'" by (simp add: on_transport_event_def)
    then obtain ra bs pkt where p: "ingest (n_reassembler n) f (clock n) = Ret (Inr (Some bs), ra)" "decode bs = Ret (Inr pkt)"
      "on_packet E (n\<lparr>n_reassembler := ra\<rparr>) l pkt = Ret n'" by (rule on_frame_completes [OF _ ne])
    from on_packet_sessions [OF assms(1) p(3)] ne obtain pk dh nick where a: "p_type pkt = Announce"
      "decode_announce (p_payload pkt) = Ret (Some (pk, dh, nick))" "packet_verify (ed_verify E) pkt pk = Inr ()"
      "peer_static_dh n' = bm_insert (sha256 E pk) dh (peer_static_dh n)" by auto
    have "sha256 E pk = fp" "bm_get (peer_static_dh n') fp = Some dh" using assms(3) a(4) by (auto split: if_splits)
    with assms(2) FrameReceived p a show ?thesis unfolding key_announced_def by blast
  next
    case (LinkUp l m h)
    let ?n = "n\<lparr>links := bm_insert l \<lparr>mtu = m, peer_eph = None, peer_fp = None\<rparr> (links n)\<rparr>"
    obtain d xs where a: "announce E ?n = ?n\<lparr>seen := snd (observe (seen ?n) d (clock ?n)), outbox := xs\<rparr>"
      using announce_eq by blast
    obtain ys where "send_sync_requests E (announce E ?n) l = (announce E ?n)\<lparr>outbox := ys\<rparr>"
      using send_sync_requests_frame by blast
    with a LinkUp assms(2) ne show ?thesis by (auto simp: on_transport_event_def)
  qed (use assms(2) ne in \<open>auto simp: on_transport_event_def push_event_def split: option.splits\<close>)
qed

lemma step_keys:
  assumes "noise_laws (snow E)" "node_step E n n'" "bm_get (peer_static_dh n') fp \<noteq> bm_get (peer_static_dh n) fp"
  shows "(\<exists>dh. key_announced E n n' fp dh) \<or> n' = panic_wipe E n"
proof -
  have ne: "peer_static_dh n' \<noteq> peer_static_dh n" using assms(3) by auto
  note commands = sess_keeps_commands [OF assms(1), THEN sess_keeps_static]
  show ?thesis
    using assms(2)
  proof cases
    case (Event ev)
    then show ?thesis using event_keys [OF assms(1) _ assms(3)] by blast
  next
    case (Tick d)
    then show ?thesis using sess_keeps_static [OF tick_sessions [OF assms(1)]] ne by blast
  next
    case (SendDm fp body)
    then show ?thesis using sess_keeps_static [OF sess_keeps_send_dm [OF assms(1)]] ne by blast
  qed (use ne commands in simp_all)
qed

lemma run_hist: "node_run E n hist m \<Longrightarrow> hist \<noteq> [] \<and> last hist = m"
  by (induction rule: node_run.induct) auto

lemma run_keys:
  assumes "node_run E n hist m" "noise_laws (snow E)" "peer_static_dh n = []" "bm_get (peer_static_dh m) fp = Some dh"
  shows "\<exists>i. Suc i < length hist \<and> key_announced E (hist ! i) (hist ! Suc i) fp dh
    \<and> (\<forall>j. i < j \<and> j < length hist \<longrightarrow> bm_get (peer_static_dh (hist ! j)) fp = Some dh)"
  using assms
proof (induction rule: node_run.induct)
  case (run_step n hist m k)
  have h: "hist \<noteq> []" "last hist = m" using run_hist [OF run_step.hyps(1)] by simp_all
  then have m: "hist ! (length hist - 1) = m" by (simp add: last_conv_nth)
  show ?case
  proof (cases "bm_get (peer_static_dh m) fp = Some dh")
    case True
    from run_step.IH [OF run_step.prems(1,2) this] obtain i where i: "Suc i < length hist" "key_announced E (hist ! i) (hist ! Suc i) fp dh"
      "\<forall>j. i < j \<and> j < length hist \<longrightarrow> bm_get (peer_static_dh (hist ! j)) fp = Some dh" by blast
    have "bm_get (peer_static_dh ((hist @ [k]) ! j)) fp = Some dh" if "i < j" "j < length (hist @ [k])" for j
      using i(3) that run_step.prems(3) by (cases "j < length hist") (auto simp: nth_append)
    with i(1,2) show ?thesis by (intro exI [of _ i]) (auto simp: nth_append)
  next
    case False
    then have "bm_get (peer_static_dh k) fp \<noteq> bm_get (peer_static_dh m) fp" using run_step.prems(3) by simp
    from step_keys [OF run_step.prems(1) run_step.hyps(2) this] obtain dh' where "key_announced E m k fp dh'"
      using run_step.prems(3) by (auto simp: panic_wipe_def)
    moreover from this have "dh' = dh" using run_step.prems(3) by (auto simp: key_announced_def)
    ultimately show ?thesis using h m run_step.prems(3)
      by (intro exI [of _ "length hist - 1"]) (auto simp: nth_append not_less)
  qed
qed simp

section \<open>Properties of sessions\<close>

text \<open>C7: in every run of a node from its creation, whatever the peers send, a session that is ready for
  direct messages with a fingerprint is with the holder of a static key that an earlier state of the run
  had recorded for that fingerprint; no step makes a session ready otherwise or swaps its key.\<close>

theorem ready_session_authenticated:
  assumes "noise_laws (snow E)"
    and "node_run E (node_new li cfg now st nick) hist n"
    and "bm_get (noise_sessions n) fp = Some s" "is_ready s"
  shows "\<exists>k m. remote_static (snow E) s = Some k \<and> m \<in> set hist \<and> bm_get (peer_static_dh m) fp = Some k"
proof -
  have "ready_key E (noise_sessions n) fp = Some (remote_static (snow E) s)" using assms(3,4) by (simp add: ready_key_def)
  from node_run_auth [OF assms(2,1) _ this] show ?thesis by (auto simp: node_new_def)
qed

theorem ready_session_authenticated_witness:
  "\<exists>hist n s k m. node_run sample_env (sample_node 1) hist n \<and> bm_get (noise_sessions n) (replicate 32 2) = Some s \<and> is_ready s
     \<and> remote_static (snow sample_env) s = Some k \<and> m \<in> set hist \<and> bm_get (peer_static_dh m) (replicate 32 2) = Some k"
proof -
  obtain hist n s where r: "node_run sample_env (sample_node 1) hist n" "bm_get (noise_sessions n) (replicate 32 2) = Some s" "is_ready s"
    by (rule sample_session)
  moreover have "noise_laws (snow sample_env)" using xx_snow_laws by simp
  ultimately show ?thesis using ready_session_authenticated [of sample_env] unfolding sample_node_def by blast
qed

text \<open>C8: whatever a node does, a recorded static key changes in two ways only: the node takes in a frame that
  completes an announce of the new key, signed by the identity key whose hash is the fingerprint, or it is wiped and
  has no key.  So in every run from a new node, each recorded key was announced in such a frame, and has stayed
  in every state since.\<close>

theorem keys_only_from_signed_announces:
  assumes "noise_laws (snow E)"
  shows "(node_step E n n' \<longrightarrow> bm_get (peer_static_dh n') fp \<noteq> bm_get (peer_static_dh n) fp \<longrightarrow>
      (\<exists>dh. key_announced E n n' fp dh) \<or> n' = panic_wipe E n \<and> bm_get (peer_static_dh n') fp = None)
    \<and> (node_run E (node_new li cfg now st nick) hist m \<longrightarrow> bm_get (peer_static_dh m) fp = Some k \<longrightarrow>
      (\<exists>i. Suc i < length hist \<and> key_announced E (hist ! i) (hist ! Suc i) fp k
        \<and> (\<forall>j. i < j \<and> j < length hist \<longrightarrow> bm_get (peer_static_dh (hist ! j)) fp = Some k)))"
  using step_keys [OF assms, of n n' fp] run_keys [OF _ assms, of "node_new li cfg now st nick" hist m fp k]
  by (auto simp: node_new_def panic_wipe_def)

theorem keys_only_from_signed_announces_witness:
  "\<exists>n. node_run sample_env (sample_node 1) [sample_node 1, n] n
     \<and> key_announced sample_env (sample_node 1) n (replicate 32 2) (replicate 32 2)"
proof -
  obtain n where n: "node_run sample_env (sample_node 1) [sample_node 1, n] n" "knows sample_env n (sample_node 2)"
    by (rule sample_met)
  have k: "bm_get (peer_static_dh n) (replicate 32 2) = Some (replicate 32 2)" using n(2) by (simp add: knows_def)
  have l: "noise_laws (snow sample_env)" using xx_snow_laws by simp
  obtain i where "Suc i < length [sample_node 1, n]" "key_announced sample_env ([sample_node 1, n] ! i) ([sample_node 1, n] ! Suc i) (replicate 32 2) (replicate 32 2)"
    using keys_only_from_signed_announces [OF l] n(1) k unfolding sample_node_def by blast
  then have "key_announced sample_env (sample_node 1) n (replicate 32 2) (replicate 32 2)" by simp
  with n(1) show ?thesis by blast
qed

end
