(* ===== verification/SqlStore.thy ===== *)
theory SqlStore
  imports Store
begin

text \<open>
  The persistent store, \<open>crates/meshcore-store/src/lib.rs\<close>: \<open>SqliteStore\<close> over the four tables of its
  database.  The SQL engine is not in the repository: a statement is modelled by what SQL says it does
  to the rows, the order in which a query returns rows that its \<open>ORDER BY\<close> leaves open is the parameter
  \<open>engine\<close>, opening the encrypted file is the parameter \<open>connect\<close>, and statements succeed.  Timestamps
  are stored as signed 64-bit integers, so the comparisons of the statements are signed.
\<close>


section \<open>The database\<close>

record peer_row =
  row_fingerprint :: bytes
  row_petname :: "rstring option"
  row_verified :: int
  row_last_eph :: bytes
  row_last_seen_ms :: u64

record envelope_row =
  env_id :: nat
  env_recipient :: bytes
  env_packet :: bytes
  env_queued_ms :: u64

record dm_row =
  dm_id :: nat
  row_peer :: bytes
  row_mine :: int
  row_timestamp_ms :: u64
  row_body :: bytes

record database =
  messages :: "stored_message list"
  peers :: "peer_row list"
  envelopes :: "envelope_row list"
  dms :: "dm_row list"
  next_env :: nat
  next_dm :: nat

definition empty_database :: database where
  "empty_database = \<lparr>messages = [], peers = [], envelopes = [], dms = [], next_env = 1, next_dm = 1\<rparr>"

text \<open>Queries whose order SQL leaves open.\<close>

datatype query = PruneQuery | HistoryQuery | HistoryOuter | DigestsQuery

record engine =
  message_order :: "query \<Rightarrow> stored_message list \<Rightarrow> stored_message list"
  peer_order :: "peer_row list \<Rightarrow> peer_row list"

definition rows_in :: "('a list \<Rightarrow> 'a list) \<Rightarrow> 'a list \<Rightarrow> 'a list" where
  "rows_in order xs = (if mset (order xs) = mset xs then order xs else xs)"

definition delete_where :: "('a \<Rightarrow> bool) \<Rightarrow> 'a list \<Rightarrow> 'a list" where
  "delete_where P rows = filter (\<lambda>r. \<not> P r) rows"

text \<open>\<open>ORDER BY key DESC LIMIT n\<close>: the last \<open>n\<close> in ascending order, the newest first.\<close>

definition newest :: "nat \<Rightarrow> ('a \<Rightarrow> int) \<Rightarrow> 'a list \<Rightarrow> 'a list" where
  "newest n key rows = take n (rev (sort_key key rows))"

section \<open>SqliteStore\<close>

record sqlite_store =
  conn :: database
  sq_path :: string
  sq_history_max :: nat
  sq_history_ms :: millis
  sq_envelope_ttl_ms :: millis
  sq_envelope_max_per_peer :: nat

definition hex_digit :: "nat \<Rightarrow> char" where
  "hex_digit n = (''0123456789abcdef'' ! n)"

definition hex :: "bytes \<Rightarrow> string" where
  "hex bs = concat (map (\<lambda>b. [hex_digit (unat b div 16), hex_digit (unat b mod 16)]) bs)"

definition pragma_key :: "bytes \<Rightarrow> string" where
  "pragma_key key = ''PRAGMA key = \"x'' @ [CHR 0x27] @ hex key @ [CHR 0x27] @ ''\";''"

definition sql_open ::
  "(string \<Rightarrow> string \<Rightarrow> string + database) \<Rightarrow> string \<Rightarrow> bytes \<Rightarrow> nat \<Rightarrow> millis \<Rightarrow> millis \<Rightarrow> nat \<Rightarrow> string + sqlite_store" where
  "sql_open connect path key hmax hms ettl emax =
     (case connect path (pragma_key key) of
        Inl e \<Rightarrow> Inl e
      | Inr db \<Rightarrow> Inr \<lparr>conn = db, sq_path = path, sq_history_max = hmax, sq_history_ms = hms,
                       sq_envelope_ttl_ms = ettl, sq_envelope_max_per_peer = emax\<rparr>)"

definition to_arr :: "nat \<Rightarrow> bytes \<Rightarrow> bytes" where
  "to_arr n v = take n v @ replicate (n - length v) 0"

definition row_to_message :: "stored_message \<Rightarrow> stored_message" where
  "row_to_message r = r\<lparr>sm_digest := to_arr 8 (sm_digest r), sm_sender := to_arr 8 (sm_sender r)\<rparr>"

definition sql_prune_channel :: "engine \<Rightarrow> sqlite_store \<Rightarrow> rstring \<Rightarrow> u64 \<Rightarrow> sqlite_store" where
  "sql_prune_channel eng s channel now_ms =
     (let rows = messages (conn s);
          rows = (if 0 < sq_history_ms s
                  then delete_where (\<lambda>m. sm_channel m = channel \<and> sint (sq_history_ms s) \<le> sint now_ms - sint (sm_timestamp_ms m)) rows
                  else rows);
          kept = map sm_digest (newest (sq_history_max s) (\<lambda>m. sint (sm_timestamp_ms m))
                   (rows_in (message_order eng PruneQuery) (filter (\<lambda>m. sm_channel m = channel) rows)));
          rows = delete_where (\<lambda>m. sm_channel m = channel \<and> sm_digest m \<notin> set kept) rows
      in s\<lparr>conn := (conn s)\<lparr>messages := rows\<rparr>\<rparr>)"

definition sql_put_channel_message :: "engine \<Rightarrow> sqlite_store \<Rightarrow> stored_message \<Rightarrow> sqlite_store" where
  "sql_put_channel_message eng s msg =
     (let rows = messages (conn s);
          rows = (if sm_digest msg \<in> sm_digest ` set rows then rows else rows @ [msg])
      in sql_prune_channel eng (s\<lparr>conn := (conn s)\<lparr>messages := rows\<rparr>\<rparr>) (sm_channel msg) (sm_timestamp_ms msg))"

definition sql_has_message :: "sqlite_store \<Rightarrow> bytes \<Rightarrow> bool" where
  "sql_has_message s d = list_ex (\<lambda>m. sm_digest m = d) (messages (conn s))"

definition sql_channel_history :: "engine \<Rightarrow> sqlite_store \<Rightarrow> rstring \<Rightarrow> nat \<Rightarrow> stored_message list" where
  "sql_channel_history eng s channel limit =
     map row_to_message
       (sort_key (\<lambda>m. sint (sm_timestamp_ms m))
         (rows_in (message_order eng HistoryOuter)
           (newest limit (\<lambda>m. sint (sm_timestamp_ms m))
             (rows_in (message_order eng HistoryQuery) (filter (\<lambda>m. sm_channel m = channel) (messages (conn s)))))))"

definition sql_channel_digests :: "engine \<Rightarrow> sqlite_store \<Rightarrow> rstring \<Rightarrow> bytes list" where
  "sql_channel_digests eng s channel =
     map (\<lambda>m. to_arr 8 (sm_digest m))
       (rows_in (message_order eng DigestsQuery) (filter (\<lambda>m. sm_channel m = channel) (messages (conn s))))"

definition sql_message_by_digest :: "sqlite_store \<Rightarrow> bytes \<Rightarrow> stored_message option" where
  "sql_message_by_digest s d = map_option row_to_message (find (\<lambda>m. sm_digest m = d) (messages (conn s)))"

definition row_to_peer :: "peer_row \<Rightarrow> peer_record" where
  "row_to_peer r = \<lparr>pr_fingerprint = to_arr 32 (row_fingerprint r), petname = row_petname r,
     verified = (row_verified r \<noteq> 0), last_eph = to_arr 8 (row_last_eph r), last_seen_ms = row_last_seen_ms r\<rparr>"

definition sql_upsert_peer :: "sqlite_store \<Rightarrow> peer_record \<Rightarrow> sqlite_store" where
  "sql_upsert_peer s peer =
     s\<lparr>conn := (conn s)\<lparr>peers := delete_where (\<lambda>r. row_fingerprint r = pr_fingerprint peer) (peers (conn s)) @
         [\<lparr>row_fingerprint = pr_fingerprint peer, row_petname = petname peer, row_verified = of_bool (verified peer),
           row_last_eph = last_eph peer, row_last_seen_ms = last_seen_ms peer\<rparr>]\<rparr>\<rparr>"

definition sql_get_peer :: "sqlite_store \<Rightarrow> bytes \<Rightarrow> peer_record option" where
  "sql_get_peer s fp = map_option row_to_peer (find (\<lambda>r. row_fingerprint r = fp) (peers (conn s)))"

definition sql_list_peers :: "engine \<Rightarrow> sqlite_store \<Rightarrow> peer_record list" where
  "sql_list_peers eng s = map row_to_peer (rows_in (peer_order eng) (peers (conn s)))"

definition sql_put_dm :: "sqlite_store \<Rightarrow> stored_dm \<Rightarrow> sqlite_store" where
  "sql_put_dm s dm =
     (let rows = dms (conn s) @
            [\<lparr>dm_id = next_dm (conn s), row_peer = dm_peer dm, row_mine = of_bool (dm_mine dm),
              row_timestamp_ms = dm_timestamp_ms dm, row_body = dm_body dm\<rparr>];
          kept = map dm_id (newest (sq_history_max s) (\<lambda>r. sint (row_timestamp_ms r))
                   (sort_key dm_id (filter (\<lambda>r. row_peer r = dm_peer dm) rows)));
          rows = delete_where (\<lambda>r. row_peer r = dm_peer dm \<and> dm_id r \<notin> set kept) rows
      in s\<lparr>conn := (conn s)\<lparr>dms := rows, next_dm := Suc (next_dm (conn s))\<rparr>\<rparr>)"

definition row_to_dm :: "dm_row \<Rightarrow> stored_dm" where
  "row_to_dm r = \<lparr>dm_peer = to_arr 32 (row_peer r), dm_mine = (row_mine r \<noteq> 0),
     dm_timestamp_ms = row_timestamp_ms r, dm_body = row_body r\<rparr>"

definition sql_dm_history :: "sqlite_store \<Rightarrow> bytes \<Rightarrow> nat \<Rightarrow> stored_dm list" where
  "sql_dm_history s peer limit =
     map row_to_dm
       (sort_key (\<lambda>r. sint (row_timestamp_ms r)) (sort_key dm_id
         (newest limit (\<lambda>r. sint (row_timestamp_ms r)) (sort_key dm_id (filter (\<lambda>r. row_peer r = peer) (dms (conn s)))))))"

definition sql_queue_envelope :: "sqlite_store \<Rightarrow> bytes \<Rightarrow> bytes \<Rightarrow> millis \<Rightarrow> sqlite_store" where
  "sql_queue_envelope s recipient packet now =
     (let rows = envelopes (conn s);
          rows = (if 0 < sq_envelope_ttl_ms s
                  then delete_where (\<lambda>r. env_recipient r = recipient
                         \<and> sint (sq_envelope_ttl_ms s) \<le> sint now - sint (env_queued_ms r)) rows
                  else rows);
          rows = rows @ [\<lparr>env_id = next_env (conn s), env_recipient = recipient, env_packet = packet, env_queued_ms = now\<rparr>];
          kept = map env_id (newest (sq_envelope_max_per_peer s) (\<lambda>r. int (env_id r))
                   (filter (\<lambda>r. env_recipient r = recipient) rows));
          rows = delete_where (\<lambda>r. env_recipient r = recipient \<and> env_id r \<notin> set kept) rows
      in s\<lparr>conn := (conn s)\<lparr>envelopes := rows, next_env := Suc (next_env (conn s))\<rparr>\<rparr>)"

definition sql_take_envelopes :: "sqlite_store \<Rightarrow> bytes \<Rightarrow> bytes list \<times> sqlite_store" where
  "sql_take_envelopes s recipient =
     (map env_packet (sort_key env_id (filter (\<lambda>r. env_recipient r = recipient) (envelopes (conn s)))),
      s\<lparr>conn := (conn s)\<lparr>envelopes := delete_where (\<lambda>r. env_recipient r = recipient) (envelopes (conn s))\<rparr>\<rparr>)"

definition sql_delete_peer :: "sqlite_store \<Rightarrow> bytes \<Rightarrow> sqlite_store" where
  "sql_delete_peer s fp = s\<lparr>conn := (conn s)\<lparr>peers := delete_where (\<lambda>r. row_fingerprint r = fp) (peers (conn s))\<rparr>\<rparr>"

definition sql_delete_dms :: "sqlite_store \<Rightarrow> bytes \<Rightarrow> bool \<Rightarrow> sqlite_store" where
  "sql_delete_dms s fp only_control =
     (let gone = (if only_control
                  then (\<lambda>r. row_peer r = fp \<and> length (row_body r) = 1
                          \<and> (row_body r = [1] \<or> row_body r = [2] \<or> row_body r = [3]))
                  else (\<lambda>r. row_peer r = fp))
      in s\<lparr>conn := (conn s)\<lparr>dms := delete_where gone (dms (conn s))\<rparr>\<rparr>)"

definition sql_panic_wipe :: "sqlite_store \<Rightarrow> sqlite_store" where
  "sql_panic_wipe s = s\<lparr>conn := (conn s)\<lparr>messages := [], peers := [], dms := [], envelopes := []\<rparr>\<rparr>"

definition sqlite_ops :: "engine \<Rightarrow> sqlite_store store_ops" where
  "sqlite_ops eng =
     \<lparr>put_channel_message = sql_put_channel_message eng, has_message = sql_has_message,
      channel_history = sql_channel_history eng, channel_digests = sql_channel_digests eng,
      message_by_digest = sql_message_by_digest,
      upsert_peer = sql_upsert_peer, get_peer = sql_get_peer, list_peers = sql_list_peers eng,
      put_dm = sql_put_dm, dm_history = sql_dm_history,
      queue_envelope = sql_queue_envelope, take_envelopes = sql_take_envelopes,
      delete_peer = sql_delete_peer, delete_dms = sql_delete_dms, store_wipe = sql_panic_wipe\<rparr>"

section \<open>The laws of a store\<close>

lemma rows_in_mset [simp]: "mset (rows_in order xs) = mset xs"
  by (simp add: rows_in_def)

lemma rows_in_set [simp]: "set (rows_in order xs) = set xs"
  by (rule mset_eq_setD) simp

lemma rows_in_Nil [simp]: "rows_in order [] = []"
  by (rule mset_zero_iff [THEN iffD1]) simp

lemma newest_Nil [simp]: "newest n key [] = []"
  by (simp add: newest_def)

lemma find_delete_where:
  "(\<And>r. Q r \<Longrightarrow> \<not> P r) \<Longrightarrow> find Q (delete_where P rows) = find Q rows"
  by (induction rows) (auto simp: delete_where_def)

lemma find_append: "find P (xs @ ys) = (case find P xs of None \<Rightarrow> find P ys | Some x \<Rightarrow> Some x)"
  by (induction xs) auto

lemma find_deleted: "(\<And>r. Q r \<Longrightarrow> P r) \<Longrightarrow> find Q (delete_where P rows) = None"
  by (auto simp: find_None_iff delete_where_def)

lemma conn_frame [simp]:
  "peers (conn (sql_put_channel_message eng s m)) = peers (conn s)" "peers (conn (sql_put_dm s dm)) = peers (conn s)"
  "peers (conn (sql_delete_dms s fp only)) = peers (conn s)" "peers (conn (sql_queue_envelope s fp b t)) = peers (conn s)"
  "peers (conn (snd (sql_take_envelopes s fp))) = peers (conn s)" "dms (conn (sql_delete_peer s fp)) = dms (conn s)"
  by (simp_all add: sql_put_channel_message_def sql_prune_channel_def sql_put_dm_def sql_delete_dms_def
      sql_queue_envelope_def sql_take_envelopes_def sql_delete_peer_def Let_def)

lemma filter_delete_where: "filter P (delete_where P rows) = []"
  by (auto simp: delete_where_def filter_empty_conv)

interpretation sql: store_laws "sqlite_ops eng" for eng
proof
  fix s :: sqlite_store and p :: peer_record and fp fp' :: bytes
  have "sql_get_peer (sql_upsert_peer s p) fp = (if fp = pr_fingerprint p then Some (row_to_peer
      \<lparr>row_fingerprint = pr_fingerprint p, row_petname = petname p, row_verified = of_bool (verified p),
        row_last_eph = last_eph p, row_last_seen_ms = last_seen_ms p\<rparr>) else sql_get_peer s fp)"
    by (auto simp: sql_get_peer_def sql_upsert_peer_def find_append find_delete_where find_deleted split: option.splits)
  then show "contact (sqlite_ops eng) (upsert_peer (sqlite_ops eng) s p) fp =
      (if fp = pr_fingerprint p then Some (petname p, verified p) else contact (sqlite_ops eng) s fp)"
    by (simp add: contact_def sqlite_ops_def row_to_peer_def)
  show "contact (sqlite_ops eng) (delete_peer (sqlite_ops eng) s fp') fp = (if fp = fp' then None else contact (sqlite_ops eng) s fp)"
    by (auto simp: contact_def sqlite_ops_def sql_get_peer_def sql_delete_peer_def find_delete_where find_deleted)
qed (simp_all add: contact_def sqlite_ops_def sql_get_peer_def sql_panic_wipe_def sql_take_envelopes_def sql_dm_history_def
    sql_delete_dms_def sql_has_message_def sql_channel_history_def sql_channel_digests_def sql_message_by_digest_def
    filter_delete_where)

section \<open>Channel history\<close>

text \<open>The invariant of the message table: the digest is a key, and no channel is above its cap.\<close>

definition sql_ok :: "sqlite_store \<Rightarrow> bool" where
  "sql_ok s \<longleftrightarrow> distinct (map sm_digest (messages (conn s)))
     \<and> (\<forall>c. length (filter (\<lambda>m. sm_channel m = c) (messages (conn s))) \<le> sq_history_max s)"

lemma distinct_map_filter: "distinct (map f xs) \<Longrightarrow> distinct (map f (filter P xs))"
  by (induction xs) auto

lemma mset_newest: "set (newest n key rows) \<subseteq> set rows" "length (newest n key rows) \<le> n"
  by (auto simp: newest_def dest: in_set_takeD)

lemma sql_put_ok:
  assumes "sql_ok s"
  shows "sql_ok (sql_put_channel_message eng s msg)" "sq_history_max (sql_put_channel_message eng s msg) = sq_history_max s"
proof -
  let ?c = "sm_channel msg"
  define r0 where "r0 = (if sm_digest msg \<in> sm_digest ` set (messages (conn s)) then messages (conn s) else messages (conn s) @ [msg])"
  define r1 where "r1 = (if 0 < sq_history_ms s
      then delete_where (\<lambda>m. sm_channel m = ?c \<and> sint (sq_history_ms s) \<le> sint (sm_timestamp_ms msg) - sint (sm_timestamp_ms m)) r0 else r0)"
  define top where "top = newest (sq_history_max s) (\<lambda>m. sint (sm_timestamp_ms m))
      (rows_in (message_order eng PruneQuery) (filter (\<lambda>m. sm_channel m = ?c) r1))"
  define r2 where "r2 = delete_where (\<lambda>m. sm_channel m = ?c \<and> sm_digest m \<notin> set (map sm_digest top)) r1"
  have eq: "sql_put_channel_message eng s msg = s\<lparr>conn := (conn s)\<lparr>messages := r2\<rparr>\<rparr>"
    unfolding sql_put_channel_message_def sql_prune_channel_def Let_def r0_def [symmetric]
    by (simp add: r2_def top_def r1_def)
  show "sq_history_max (sql_put_channel_message eng s msg) = sq_history_max s" by (simp add: eq)
  have d0: "distinct (map sm_digest r0)" using assms by (auto simp: r0_def sql_ok_def)
  then have d1: "distinct (map sm_digest r1)" by (simp add: r1_def delete_where_def distinct_map_filter)
  then have d2: "distinct (map sm_digest r2)" by (simp add: r2_def delete_where_def distinct_map_filter)
  have "length (filter (\<lambda>m. sm_channel m = c) r2) \<le> sq_history_max s" for c
  proof (cases "c = ?c")
    case True
    have "distinct (map sm_digest (filter (\<lambda>m. sm_channel m = c) r2))" by (rule distinct_map_filter [OF d2])
    then have "length (filter (\<lambda>m. sm_channel m = c) r2) = card (sm_digest ` set (filter (\<lambda>m. sm_channel m = c) r2))"
      using distinct_card by fastforce
    also have "\<dots> \<le> card (set (map sm_digest top))"
      by (rule card_mono) (auto simp: r2_def delete_where_def True)
    also have "\<dots> \<le> length top" using card_length [of "map sm_digest top"] by simp
    also have "\<dots> \<le> sq_history_max s" unfolding top_def by (rule mset_newest)
    finally show ?thesis .
  next
    case False
    have "filter (\<lambda>m. sm_channel m = c) r2 = filter (\<lambda>m. sm_channel m = c) (messages (conn s))"
      using False by (auto simp: r2_def r1_def r0_def delete_where_def intro!: filter_cong)
    then show ?thesis using assms by (simp add: sql_ok_def)
  qed
  with d2 show "sql_ok (sql_put_channel_message eng s msg)" by (simp add: eq sql_ok_def)
qed

text \<open>The newest rows, oldest first, and the rows they leave out.\<close>

lemma newest_dominates:
  assumes "r \<in> set rows" "r \<notin> set (newest n key rows)" "m \<in> set (newest n key rows)"
  shows "key r \<le> key m"
proof -
  let ?T = "sort_key key rows"
  have top: "set (newest n key rows) = set (drop (length ?T - n) ?T)" by (simp add: newest_def take_rev)
  have "r \<in> set (take (length ?T - n) ?T @ drop (length ?T - n) ?T)" using assms(1) by simp
  then have "r \<in> set (take (length ?T - n) ?T)" using assms(2) top unfolding set_append by blast
  moreover have "sorted (map key (take (length ?T - n) ?T) @ map key (drop (length ?T - n) ?T))"
    unfolding map_append [symmetric] append_take_drop_id by simp
  ultimately show ?thesis using assms(3) top by (auto simp: sorted_append)
qed

lemma to_arr_id [simp]: "length v = n \<Longrightarrow> to_arr n v = v"
  by (simp add: to_arr_def)

definition message_valid :: "stored_message \<Rightarrow> bool" where
  "message_valid m \<longleftrightarrow> length (sm_digest m) = 8 \<and> length (sm_sender m) = 8"

lemma row_to_message_id [simp]: "message_valid m \<Longrightarrow> row_to_message m = m"
  by (simp add: row_to_message_def message_valid_def)

lemma delete_where_set: "set (delete_where P xs) \<subseteq> set xs"
  by (auto simp: delete_where_def)

lemma sql_put_rows: "set (messages (conn (sql_put_channel_message eng s msg))) \<subseteq> insert msg (set (messages (conn s)))"
proof -
  have "set (messages (conn (sql_prune_channel eng t c now))) \<subseteq> set (messages (conn t))" for t c now
    unfolding sql_prune_channel_def Let_def by (simp add: subset_trans [OF delete_where_set] delete_where_set)
  then show ?thesis unfolding sql_put_channel_message_def Let_def by (rule subset_trans) auto
qed

lemma sql_puts_ok:
  fixes eng :: engine and s :: sqlite_store and msgs :: "stored_message list"
  assumes "sql_ok s" "\<forall>m \<in> set (messages (conn s)) \<union> set msgs. message_valid m"
  defines "s' \<equiv> foldl (sql_put_channel_message eng) s msgs"
  shows "sql_ok s'" "\<forall>m \<in> set (messages (conn s')). message_valid m" "sq_history_max s' = sq_history_max s"
proof -
  have "sql_ok s' \<and> (\<forall>m \<in> set (messages (conn s')). message_valid m) \<and> sq_history_max s' = sq_history_max s"
    unfolding s'_def using assms(1,2)
  proof (induction msgs arbitrary: s)
    case (Cons m msgs)
    have "\<forall>x \<in> set (messages (conn (sql_put_channel_message eng s m))) \<union> set msgs. message_valid x"
      using Cons.prems(2) sql_put_rows [of eng s m] by auto
    with Cons.IH [OF sql_put_ok(1) [OF Cons.prems(1)]] sql_put_ok(2) [OF Cons.prems(1)] show ?case by simp
  qed simp
  then show "sql_ok s'" "\<forall>m \<in> set (messages (conn s')). message_valid m" "sq_history_max s' = sq_history_max s" by auto
qed

lemma find_key: "distinct (map f xs) \<Longrightarrow> m \<in> set xs \<Longrightarrow> find (\<lambda>x. f x = f m) xs = Some m"
  by (induction xs) (auto simp: image_iff)

lemma sql_history_shape:
  fixes eng :: engine and s :: sqlite_store and c :: rstring and limit :: nat
  assumes "sql_ok s" "\<forall>m \<in> set (messages (conn s)). message_valid m"
  defines "h \<equiv> sql_channel_history eng s c limit" and "rows \<equiv> filter (\<lambda>m. sm_channel m = c) (messages (conn s))"
  shows "sorted (map (\<lambda>m. sint (sm_timestamp_ms m)) h)" "distinct (map sm_digest h)" "length h = min limit (length rows)"
    "set h \<subseteq> set rows" "\<And>r m. r \<in> set rows \<Longrightarrow> r \<notin> set h \<Longrightarrow> m \<in> set h \<Longrightarrow> sint (sm_timestamp_ms r) \<le> sint (sm_timestamp_ms m)"
proof -
  let ?t = "\<lambda>m. sint (sm_timestamp_ms m)"
  define q where "q = rows_in (message_order eng HistoryQuery) rows"
  define top where "top = rows_in (message_order eng HistoryOuter) (newest limit ?t q)"
  have q: "mset q = mset rows" by (simp add: q_def)
  have set_top: "set top = set (newest limit ?t q)" by (simp add: top_def)
  have "\<forall>m \<in> set top. message_valid m"
    using assms(2) set_top mset_newest(1) [of limit ?t q] mset_eq_setD [OF q] by (auto simp: rows_def)
  then have h: "h = sort_key ?t top"
    unfolding h_def sql_channel_history_def rows_def [symmetric] q_def [symmetric] top_def [symmetric]
    by (intro map_idI) simp
  then show "sorted (map ?t h)" by simp
  have "mset top = mset (newest limit ?t q)" by (simp add: top_def)
  then have len: "length top = length (newest limit ?t q)" by (rule mset_eq_length)
  then show "length h = min limit (length rows)" using mset_eq_length [OF q] by (simp add: h newest_def)
  show "set h \<subseteq> set rows" using set_top mset_newest(1) [of limit ?t q] mset_eq_setD [OF q] by (auto simp: h)
  show "?t r \<le> ?t m" if "r \<in> set rows" "r \<notin> set h" "m \<in> set h" for r m
    using newest_dominates [of r q limit ?t m] that set_top mset_eq_setD [OF q] by (auto simp: h)
  have "distinct (map sm_digest rows)" using assms(1) by (simp add: rows_def sql_ok_def distinct_map_filter)
  then have "distinct (map sm_digest q)" using q by (metis mset_eq_imp_distinct_iff mset_map)
  then have "distinct (map sm_digest (newest limit ?t q))"
    by (simp add: newest_def take_map [symmetric] rev_map [symmetric] distinct_map_sort_key distinct_take)
  then have "distinct (map sm_digest top)" using \<open>mset top = _\<close> by (metis mset_eq_imp_distinct_iff mset_map)
  then show "distinct (map sm_digest h)" by (simp add: h distinct_map_sort_key)
qed

text \<open>C39: the channel history of the encrypted store, after any messages put into a fresh one: it is
  sorted by time, shows each digest once, is as long as the limit and the rows of the channel allow and
  never longer than the retention cap; every message in it can be looked up by its digest; and a
  message of the channel that it leaves out is no newer than any it shows.\<close>

theorem sql_history_newest_first:
  fixes eng :: engine and msgs :: "stored_message list" and c :: rstring and limit :: nat
  assumes "sql_open connect path key cap hms ettl emax = Inr s0" "connect path (pragma_key key) = Inr empty_database"
    and "\<forall>m \<in> set msgs. message_valid m"
  defines "s \<equiv> foldl (put_channel_message (sqlite_ops eng)) s0 msgs"
  defines "h \<equiv> channel_history (sqlite_ops eng) s c limit"
  shows "sorted (map (\<lambda>m. sint (sm_timestamp_ms m)) h) \<and> distinct (map sm_digest h)
    \<and> length h = min limit (length (channel_digests (sqlite_ops eng) s c)) \<and> length h \<le> cap
    \<and> (\<forall>m \<in> set h. has_message (sqlite_ops eng) s (sm_digest m)
          \<and> message_by_digest (sqlite_ops eng) s (sm_digest m) = Some m \<and> sm_channel m = c)
    \<and> (\<forall>d m' m. d \<in> set (channel_digests (sqlite_ops eng) s c) \<longrightarrow> message_by_digest (sqlite_ops eng) s d = Some m' \<longrightarrow>
          m' \<notin> set h \<longrightarrow> m \<in> set h \<longrightarrow> sint (sm_timestamp_ms m') \<le> sint (sm_timestamp_ms m))"
proof -
  let ?rows = "filter (\<lambda>m. sm_channel m = c) (messages (conn s))"
  have s0: "conn s0 = empty_database" "sq_history_max s0 = cap" using assms(1,2) by (auto simp: sql_open_def)
  have s: "s = foldl (sql_put_channel_message eng) s0 msgs" by (simp add: s_def sqlite_ops_def)
  have "sql_ok s0" "\<forall>m \<in> set (messages (conn s0)) \<union> set msgs. message_valid m"
    using assms(3) by (simp_all add: s0 sql_ok_def empty_database_def)
  from sql_puts_ok [OF this, of eng] have ok: "sql_ok s" and v: "\<forall>m \<in> set (messages (conn s)). message_valid m"
    and cap: "sq_history_max s = cap" by (simp_all add: s s0)
  have h: "h = sql_channel_history eng s c limit" by (simp add: h_def sqlite_ops_def)
  note sh = sql_history_shape [OF ok v, where eng = eng and c = c and limit = limit, folded h]
  have found: "find (\<lambda>x. sm_digest x = sm_digest m) (messages (conn s)) = Some m" if "m \<in> set (messages (conn s))" for m
    by (rule find_key [OF _ that]) (use ok in \<open>simp add: sql_ok_def\<close>)
  have digests: "channel_digests (sqlite_ops eng) s c = map (\<lambda>m. to_arr 8 (sm_digest m)) (rows_in (message_order eng DigestsQuery) ?rows)"
    by (simp add: sqlite_ops_def sql_channel_digests_def)
  have "length (channel_digests (sqlite_ops eng) s c) = length ?rows"
    using mset_eq_length [OF rows_in_mset, of "message_order eng DigestsQuery" ?rows] by (simp add: digests)
  then have len: "length h = min limit (length (channel_digests (sqlite_ops eng) s c))" using sh(3) by simp
  have le: "length h \<le> cap" using sh(3) ok cap by (simp add: sql_ok_def min.coboundedI2)
  have "\<forall>m \<in> set h. has_message (sqlite_ops eng) s (sm_digest m)
      \<and> message_by_digest (sqlite_ops eng) s (sm_digest m) = Some m \<and> sm_channel m = c"
    using sh(4) found v by (auto simp: sqlite_ops_def sql_has_message_def sql_message_by_digest_def list_ex_iff)
  moreover have "sint (sm_timestamp_ms m') \<le> sint (sm_timestamp_ms m)"
    if "d \<in> set (channel_digests (sqlite_ops eng) s c)" "message_by_digest (sqlite_ops eng) s d = Some m'" "m' \<notin> set h" "m \<in> set h" for d m' m
  proof -
    from that(1) v obtain r where r: "r \<in> set ?rows" "d = sm_digest r" by (auto simp: digests message_valid_def)
    then have "m' = r" using that(2) found v by (auto simp: sqlite_ops_def sql_message_by_digest_def)
    then show ?thesis using sh(5) r(1) that(3,4) by blast
  qed
  ultimately show ?thesis using sh(1,2) len le by blast
qed

definition sample_sql :: sqlite_store where
  "sample_sql = \<lparr>conn = empty_database, sq_path = ''mesh.db'', sq_history_max = 1, sq_history_ms = 0,
     sq_envelope_ttl_ms = 0, sq_envelope_max_per_peer = 1\<rparr>"

definition sample_engine :: engine where
  "sample_engine = \<lparr>message_order = (\<lambda>_ rows. rows), peer_order = (\<lambda>rows. rows)\<rparr>"

definition sample_message :: "u8 \<Rightarrow> u64 \<Rightarrow> stored_message" where
  "sample_message d t = \<lparr>sm_digest = replicate 8 d, sm_channel = [109, 101, 115, 104], sm_sender = replicate 8 1,
     sm_timestamp_ms = t, sm_body = [104, 105], sm_raw = []\<rparr>"

theorem sql_history_newest_first_witness:
  "length (channel_history (sqlite_ops sample_engine)
     (foldl (put_channel_message (sqlite_ops sample_engine)) sample_sql [sample_message 1 5, sample_message 2 9]) [109, 101, 115, 104] 4) \<le> 1"
proof -
  have o: "sql_open (\<lambda>_ _. Inr empty_database) ''mesh.db'' [] 1 0 0 1 = Inr sample_sql"
    by (simp add: sql_open_def sample_sql_def)
  have "\<forall>m \<in> set [sample_message 1 5, sample_message 2 9]. message_valid m" by (simp add: sample_message_def message_valid_def)
  from sql_history_newest_first [OF o refl this, of sample_engine "[109, 101, 115, 104]" 4] show ?thesis by blast
qed

end
