(* ===== verification/Threads.thy ===== *)
theory Threads
  imports SqlStore
begin

text \<open>
  Direct messages in the two stores: the rows that \<open>SqliteStore\<close> (\<open>crates/meshcore-store/src/lib.rs\<close>)
  keeps of a conversation are, in the order it returns them, the thread that \<open>MemoryStore\<close>
  (\<open>crates/meshcore/src/store.rs\<close>) keeps.  The relation \<open>same_dms\<close> is preserved by every operation on
  direct messages, so the two histories agree after any sequence of them.
\<close>

section \<open>Sorting\<close>

lemma filter_top:
  assumes "distinct (map f T)"
  shows "filter (\<lambda>r. f r \<in> f ` set (drop k T)) T = drop k T"
proof -
  have "filter (\<lambda>r. f r \<in> f ` set (drop k T)) (take k T @ drop k T) = drop k T"
  proof -
    have "set (map f (take k T)) \<inter> set (map f (drop k T)) = {}"
      using assms by (metis append_take_drop_id distinct_append map_append)
    then have "filter (\<lambda>r. f r \<in> f ` set (drop k T)) (take k T) = []" by (auto simp: filter_empty_conv)
    moreover have "filter (\<lambda>r. f r \<in> f ` set (drop k T)) (drop k T) = drop k T" by simp
    ultimately show ?thesis by (simp only: filter_append append_Nil)
  qed
  then show ?thesis by simp
qed

lemma sort_key_map: "sort_key f (map g xs) = map g (sort_key (f \<circ> g) xs)"
proof -
  have "insort_key f (g x) (map g ys) = map g (insort_key (f \<circ> g) x ys)" for x ys by (induction ys) auto
  then show ?thesis by (induction xs) auto
qed

lemma sort_key_le_cong:
  assumes "\<And>x y. x \<in> set xs \<Longrightarrow> y \<in> set xs \<Longrightarrow> (f x \<le> f y) = (g x \<le> g y)"
  shows "sort_key f xs = sort_key g xs"
proof -
  have ins: "(\<And>y. y \<in> set ys \<Longrightarrow> (f x \<le> f y) = (g x \<le> g y)) \<Longrightarrow> insort_key f x ys = insort_key g x ys" for x ys
    by (induction ys) auto
  show ?thesis
    using assms
  proof (induction xs)
    case (Cons a xs)
    then have "sort_key f xs = sort_key g xs" by simp
    moreover have "insort_key f a (sort_key g xs) = insort_key g a (sort_key g xs)" by (rule ins) (use Cons.prems in auto)
    ultimately show ?case by simp
  qed simp
qed

lemma sort_key_append_sorted: "sort_key f (sort_key f xs @ ys) = sort_key f (xs @ ys)"
proof (rule properties_for_sort_key)
  have st: "filter (\<lambda>x. f k = f x) (sort_key f zs) = filter (\<lambda>x. f k = f x) zs" for k zs
  proof -
    have "(\<lambda>x. f k = f x) = (\<lambda>x. f x = f k)" by auto
    then show ?thesis by (simp add: sort_key_stable)
  qed
  show "filter (\<lambda>x. f k = f x) (sort_key f (xs @ ys)) = filter (\<lambda>x. f k = f x) (sort_key f xs @ ys)" for k
    by (simp add: st)
qed simp_all

text \<open>The newest rows, put back in their order: the tail of the sorted table.\<close>

lemma sort_newest:
  assumes "distinct (map f F)" "sorted (map f F)"
  shows "sort_key g (filter (\<lambda>r. f r \<in> set (map f (newest n g F))) F) = drop (length F - n) (sort_key g F)"
    "sort_key f (newest n g F) = filter (\<lambda>r. f r \<in> set (map f (newest n g F))) F"
proof -
  let ?T = "sort_key g F"
  have top: "newest n g F = rev (drop (length F - n) ?T)" by (simp add: newest_def take_rev)
  have dT: "distinct (map f ?T)" using assms(1) by (simp only: distinct_map_sort_key)
  have "sort_key g (filter (\<lambda>r. f r \<in> set (map f (newest n g F))) F) = filter (\<lambda>r. f r \<in> set (map f (newest n g F))) ?T"
    by (simp add: filter_sort)
  also have "\<dots> = drop (length F - n) ?T" using filter_top [OF dT] by (simp add: top)
  finally show 1: "sort_key g (filter (\<lambda>r. f r \<in> set (map f (newest n g F))) F) = drop (length F - n) ?T" .
  let ?K = "filter (\<lambda>r. f r \<in> set (map f (newest n g F))) F"
  have "mset ?K = mset (sort_key g ?K)" by simp
  also have "\<dots> = mset (newest n g F)" unfolding 1 by (simp add: top)
  finally have m: "mset ?K = mset (newest n g F)" .
  show "sort_key f (newest n g F) = ?K"
  proof (rule properties_for_sort_key)
    show "mset ?K = mset (newest n g F)" by (rule m)
    show "sorted (map f ?K)" using assms(2) by (rule sorted_filter)
    show "filter (\<lambda>x. f k = f x) ?K = filter (\<lambda>x. f k = f x) (newest n g F)" if k: "k \<in> set ?K" for k
    proof -
      have dK: "distinct (map f ?K)" using assms(1) by (rule distinct_map_filter)
      have dN: "distinct (map f (newest n g F))" using dT by (simp add: top rev_map [symmetric] drop_map [symmetric])
      have one: "filter (\<lambda>x. f k = f x) xs = [k]" if "distinct (map f xs)" "k \<in> set xs" for xs
        using that by (induction xs) (auto simp: filter_empty_conv, metis image_eqI)
      have "k \<in> set (newest n g F)" using k m by (metis set_mset_mset)
      with one [OF dK k] one [OF dN] show ?thesis by simp
    qed
  qed
qed

section \<open>Direct messages, compared with MemoryStore\<close>

datatype dm_op = PutDm stored_dm | DeleteDms bytes bool | WipeStore

fun apply_dm :: "'s store_ops \<Rightarrow> 's \<Rightarrow> dm_op \<Rightarrow> 's" where
  "apply_dm ops s (PutDm dm) = put_dm ops s dm"
| "apply_dm ops s (DeleteDms fp only) = delete_dms ops s fp only"
| "apply_dm ops s WipeStore = store_wipe ops s"

definition dm_valid :: "dm_op \<Rightarrow> bool" where
  "dm_valid op = (case op of PutDm dm \<Rightarrow> length (dm_peer dm) = 32 \<and> unat (dm_timestamp_ms dm) < 2 ^ 63 | _ \<Rightarrow> True)"

definition dm_table_ok :: "database \<Rightarrow> bool" where
  "dm_table_ok db \<longleftrightarrow> distinct (map dm_id (dms db)) \<and> sorted (map dm_id (dms db))
     \<and> (\<forall>r \<in> set (dms db). dm_id r < next_dm db \<and> length (row_peer r) = 32 \<and> unat (row_timestamp_ms r) < 2 ^ 63)"

definition thread :: "database \<Rightarrow> bytes \<Rightarrow> dm_row list" where
  "thread db fp = sort_key row_timestamp_ms (filter (\<lambda>r. row_peer r = fp) (dms db))"

text \<open>The two stores hold the same conversations.\<close>

definition same_dms :: "sqlite_store \<Rightarrow> memory_store \<Rightarrow> bool" where
  "same_dms s m \<longleftrightarrow> dm_table_ok (conn s) \<and> sq_history_max s = history_max m
     \<and> (\<forall>fp. get_or_default (ms_dms m) fp = map row_to_dm (thread (conn s) fp))"

lemma sint_small: "unat (w :: u64) < 2 ^ 63 \<Longrightarrow> sint w = uint w"
proof -
  assume "unat w < 2 ^ 63"
  then have 1: "uint w < 2 ^ 63" unfolding unat_eq_nat_uint by (subst (asm) nat_less_iff) simp_all
  have "sint w = signed_take_bit 63 (uint w)" by (simp add: sint_uint)
  also have "\<dots> = uint w" using 1 by (intro signed_take_bit_int_eq_self) (simp_all add: order_trans [OF _ uint_ge_0])
  finally show ?thesis .
qed

lemma signed_time:
  assumes "dm_table_ok db" "set rows \<subseteq> set (dms db)"
  shows "sort_key (\<lambda>r. sint (row_timestamp_ms r)) rows = sort_key row_timestamp_ms rows"
proof (rule sort_key_le_cong)
  fix x y assume "x \<in> set rows" "y \<in> set rows"
  then have "unat (row_timestamp_ms x) < 2 ^ 63" "unat (row_timestamp_ms y) < 2 ^ 63"
    using assms by (auto simp: dm_table_ok_def subset_iff)
  then show "(sint (row_timestamp_ms x) \<le> sint (row_timestamp_ms y)) = (row_timestamp_ms x \<le> row_timestamp_ms y)"
    by (simp only: sint_small word_le_def)
qed

text \<open>What the database keeps and returns of a conversation, by \<open>thread\<close> alone.\<close>

lemma thread_rows: "set (thread db fp) = {r \<in> set (dms db). row_peer r = fp}"
  by (auto simp: thread_def)

lemma peer_rows:
  fixes fp :: bytes and db :: database
  assumes "dm_table_ok db"
  defines "rows \<equiv> filter (\<lambda>r. row_peer r = fp) (dms db)"
  shows "sort_key dm_id rows = rows" "distinct (map dm_id rows)" "sorted (map dm_id rows)"
    "sort_key (\<lambda>r. sint (row_timestamp_ms r)) rows = thread db fp"
proof -
  show "distinct (map dm_id rows)" using assms by (simp add: dm_table_ok_def distinct_map_filter)
  show s: "sorted (map dm_id rows)" using assms by (simp add: dm_table_ok_def sorted_filter)
  show "sort_key dm_id rows = rows" by (rule sort_key_id_if_sorted [OF s])
  show "sort_key (\<lambda>r. sint (row_timestamp_ms r)) rows = thread db fp"
    using signed_time [OF assms(1), of rows] by (simp add: rows_def thread_def)
qed

lemma sql_dm_history_eq:
  assumes "dm_table_ok (conn s)"
  shows "sql_dm_history s fp n = map row_to_dm (drop (length (thread (conn s) fp) - n) (thread (conn s) fp))"
proof -
  let ?F = "filter (\<lambda>r. row_peer r = fp) (dms (conn s))" and ?g = "\<lambda>r. sint (row_timestamp_ms r)"
  have "length ?F = length (thread (conn s) fp)" by (simp add: thread_def)
  moreover have "sort_key ?g (sort_key dm_id (newest n ?g ?F)) = drop (length ?F - n) (sort_key ?g ?F)"
    unfolding sort_newest(2) [OF peer_rows(2,3) [OF assms]] by (rule sort_newest(1) [OF peer_rows(2,3) [OF assms]])
  ultimately show ?thesis unfolding sql_dm_history_def by (simp only: peer_rows [OF assms])
qed

lemma dm_table_ok_delete: "dm_table_ok db \<Longrightarrow> dm_table_ok (db\<lparr>dms := delete_where P (dms db)\<rparr>)"
  by (auto simp: dm_table_ok_def delete_where_def distinct_map_filter sorted_filter)

definition sql_dm_row :: "database \<Rightarrow> stored_dm \<Rightarrow> dm_row" where
  "sql_dm_row db dm = \<lparr>dm_id = next_dm db, row_peer = dm_peer dm, row_mine = of_bool (dm_mine dm),
     row_timestamp_ms = dm_timestamp_ms dm, row_body = dm_body dm\<rparr>"

lemma dm_table_ok_insert:
  "dm_table_ok db \<Longrightarrow> dm_valid (PutDm dm) \<Longrightarrow>
   dm_table_ok (db\<lparr>dms := dms db @ [sql_dm_row db dm], next_dm := Suc (next_dm db)\<rparr>)"
  by (auto simp: dm_table_ok_def dm_valid_def sql_dm_row_def sorted_append less_Suc_eq less_imp_le)

lemma row_to_dm_new [simp]: "dm_valid (PutDm dm) \<Longrightarrow> row_to_dm (sql_dm_row db dm) = dm"
  by (simp add: row_to_dm_def sql_dm_row_def dm_valid_def)

lemma sql_put_dm_thread:
  fixes s :: sqlite_store
  assumes ok: "dm_table_ok (conn s)" and v: "dm_valid (PutDm dm)"
  defines "all \<equiv> sort_key row_timestamp_ms (thread (conn s) (dm_peer dm) @ [sql_dm_row (conn s) dm])"
  shows "dm_table_ok (conn (sql_put_dm s dm))" "sq_history_max (sql_put_dm s dm) = sq_history_max s"
    "thread (conn (sql_put_dm s dm)) fp = (if fp = dm_peer dm then drop (length all - sq_history_max s) all else thread (conn s) fp)"
proof -
  let ?p = "dm_peer dm" and ?g = "\<lambda>r. sint (row_timestamp_ms r)"
  define db1 where "db1 = (conn s)\<lparr>dms := dms (conn s) @ [sql_dm_row (conn s) dm], next_dm := Suc (next_dm (conn s))\<rparr>"
  let ?F = "filter (\<lambda>r. row_peer r = ?p) (dms db1)"
  define K where "K = set (map dm_id (newest (sq_history_max s) ?g ?F))"
  have ok1: "dm_table_ok db1" unfolding db1_def by (rule dm_table_ok_insert [OF ok v])
  have eq: "sql_put_dm s dm = s\<lparr>conn := db1\<lparr>dms := delete_where (\<lambda>r. row_peer r = ?p \<and> dm_id r \<notin> K) (dms db1)\<rparr>\<rparr>"
    using peer_rows(1) [OF ok1, of ?p] by (simp add: sql_put_dm_def Let_def K_def db1_def sql_dm_row_def)
  show "dm_table_ok (conn (sql_put_dm s dm))" using dm_table_ok_delete [OF ok1] by (simp add: eq)
  show "sq_history_max (sql_put_dm s dm) = sq_history_max s" by (simp add: eq)
  have old: "thread db1 fp = thread (conn s) fp" if "fp \<noteq> ?p"
    using that by (simp add: thread_def db1_def sql_dm_row_def)
  have new: "thread db1 ?p = all"
    unfolding all_def thread_def by (simp add: db1_def sort_key_append_sorted sql_dm_row_def)
  show "thread (conn (sql_put_dm s dm)) fp = (if fp = ?p then drop (length all - sq_history_max s) all else thread (conn s) fp)"
  proof (cases "fp = ?p")
    case True
    have "filter (\<lambda>r. row_peer r = ?p) (dms (conn (sql_put_dm s dm))) = filter (\<lambda>r. dm_id r \<in> K) ?F"
      by (auto simp: eq delete_where_def intro!: filter_cong)
    then have "thread (conn (sql_put_dm s dm)) ?p = sort_key row_timestamp_ms (filter (\<lambda>r. dm_id r \<in> K) ?F)"
      by (simp add: thread_def)
    also have "\<dots> = sort_key ?g (filter (\<lambda>r. dm_id r \<in> K) ?F)" by (rule signed_time [OF ok1, symmetric]) auto
    also have "\<dots> = drop (length ?F - sq_history_max s) (sort_key ?g ?F)"
      unfolding K_def by (rule sort_newest(1) [OF peer_rows(2,3) [OF ok1]])
    also have "\<dots> = drop (length all - sq_history_max s) all"
      unfolding peer_rows(4) [OF ok1] new [symmetric] by (simp add: thread_def)
    finally show ?thesis using True by simp
  next
    case False
    then have "filter (\<lambda>r. row_peer r = fp) (dms (conn (sql_put_dm s dm))) = filter (\<lambda>r. row_peer r = fp) (dms db1)"
      by (auto simp: eq delete_where_def intro!: filter_cong)
    then show ?thesis using False old by (simp add: thread_def)
  qed
qed

lemma sql_delete_dms_thread:
  assumes "dm_table_ok (conn s)"
  shows "dm_table_ok (conn (sql_delete_dms s fp' only))" "sq_history_max (sql_delete_dms s fp' only) = sq_history_max s"
    "thread (conn (sql_delete_dms s fp' only)) fp =
       (if fp = fp' then (if only then filter (\<lambda>r. \<not> is_control_dm (row_body r)) (thread (conn s) fp) else [])
        else thread (conn s) fp)"
proof -
  have ctl: "is_control_dm b \<longleftrightarrow> length b = 1 \<and> (b = [1] \<or> b = [2] \<or> b = [3])" for b
  proof (cases b)
    case (Cons a as)
    have "(1 \<le> a \<and> a \<le> 3) = (a = 1 \<or> a = 2 \<or> a = 3)"
      by (auto simp: word_le_nat_alt unat_arith_simps)
    with Cons show ?thesis by (auto simp: is_control_dm_def)
  qed (simp add: is_control_dm_def)
  show "dm_table_ok (conn (sql_delete_dms s fp' only))" using dm_table_ok_delete [OF assms]
    by (simp add: sql_delete_dms_def Let_def)
  show "sq_history_max (sql_delete_dms s fp' only) = sq_history_max s" by (simp add: sql_delete_dms_def Let_def)
  show "thread (conn (sql_delete_dms s fp' only)) fp =
       (if fp = fp' then (if only then filter (\<lambda>r. \<not> is_control_dm (row_body r)) (thread (conn s) fp) else [])
        else thread (conn s) fp)"
    by (auto simp: sql_delete_dms_def delete_where_def thread_def filter_sort ctl filter_empty_conv intro!: arg_cong [where f = "sort_key row_timestamp_ms"] filter_cong)
qed

lemma row_to_dm_sel [simp]: "dm_timestamp_ms \<circ> row_to_dm = row_timestamp_ms" "dm_body (row_to_dm r) = row_body r"
  by (auto simp: row_to_dm_def)

lemma same_dms_put:
  assumes "same_dms s m" "dm_valid (PutDm dm)"
  shows "same_dms (sql_put_dm s dm) (mem_put_dm m dm)"
proof -
  have ok: "dm_table_ok (conn s)" and cap: "sq_history_max s = history_max m"
    and th: "get_or_default (ms_dms m) fp = map row_to_dm (thread (conn s) fp)" for fp
    using assms(1) by (simp_all add: same_dms_def)
  note put = sql_put_dm_thread [OF ok assms(2)]
  have "sort_key dm_timestamp_ms (get_or_default (ms_dms m) (dm_peer dm) @ [dm]) =
      map row_to_dm (sort_key row_timestamp_ms (thread (conn s) (dm_peer dm) @ [sql_dm_row (conn s) dm]))"
    using sort_key_map [of dm_timestamp_ms row_to_dm "thread (conn s) (dm_peer dm) @ [sql_dm_row (conn s) dm]"] assms(2)
    by (simp add: th)
  then show ?thesis
    using put(1,2) cap by (simp add: same_dms_def mem_put_dm_def Let_def pop_front_while_eq put(3) th drop_map)
qed

lemma same_dms_delete:
  assumes "same_dms s m"
  shows "same_dms (sql_delete_dms s fp only) (mem_delete_dms m fp only)"
proof -
  have ok: "dm_table_ok (conn s)" and cap: "sq_history_max s = history_max m"
    and th: "get_or_default (ms_dms m) fp = map row_to_dm (thread (conn s) fp)" for fp
    using assms(1) by (simp_all add: same_dms_def)
  have "get_or_default (ms_dms (mem_delete_dms m fp only)) fp' =
      (if fp' = fp then (if only then filter (\<lambda>d. \<not> is_control_dm (dm_body d)) (get_or_default (ms_dms m) fp) else [])
       else get_or_default (ms_dms m) fp')" for fp'
    by (auto simp: mem_delete_dms_def get_or_default_def split: option.splits)
  moreover have "history_max (mem_delete_dms m fp only) = history_max m"
    by (simp add: mem_delete_dms_def split: option.splits)
  ultimately show ?thesis using sql_delete_dms_thread [OF ok] cap
    by (simp add: same_dms_def th filter_map o_def)
qed

lemma same_dms_step:
  assumes "same_dms s m" "dm_valid op"
  shows "same_dms (apply_dm (sqlite_ops eng) s op) (apply_dm (memory_ops order) m op)"
proof (cases op)
  case WipeStore
  then show ?thesis using assms
    by (simp add: same_dms_def sqlite_ops_def memory_ops_def sql_panic_wipe_def mem_panic_wipe_def thread_def dm_table_ok_def)
qed (use assms same_dms_put same_dms_delete in \<open>simp_all add: sqlite_ops_def memory_ops_def\<close>)

lemma same_dms_history:
  assumes "same_dms s m"
  shows "dm_history (sqlite_ops eng) s fp n = dm_history (memory_ops order) m fp n"
proof -
  have ok: "dm_table_ok (conn s)" and th: "get_or_default (ms_dms m) fp = map row_to_dm (thread (conn s) fp)"
    using assms by (simp_all add: same_dms_def)
  have "sort_key row_timestamp_ms (thread (conn s) fp) = thread (conn s) fp"
    by (rule sort_key_id_if_sorted) (simp add: thread_def)
  then show ?thesis
    by (simp add: sqlite_ops_def memory_ops_def sql_dm_history_eq [OF ok] mem_dm_history_def keep_last_def th sort_key_map drop_map not_less)
qed

text \<open>C25: after any sequence of stored, deleted and wiped direct messages, the encrypted store and the
  in-memory store show the same conversations, whatever limit is asked for: same messages, same order,
  same pruning at the cap.  Timestamps below \<open>2^63\<close>, where the signed column agrees with \<open>u64\<close>.\<close>

theorem dm_threads_agree:
  assumes "sql_open connect path key cap hms ettl emax = Inr s" "connect path (pragma_key key) = Inr empty_database"
    and "\<forall>op \<in> set ops. dm_valid op"
  shows "dm_history (sqlite_ops eng) (foldl (apply_dm (sqlite_ops eng)) s ops) fp n =
      dm_history (memory_ops order) (foldl (apply_dm (memory_ops order)) (memory_store_new cap hms ettl emax) ops) fp n"
proof -
  have "same_dms s (memory_store_new cap hms ettl emax)"
    using assms(1,2) by (auto simp: sql_open_def same_dms_def memory_store_new_def empty_database_def dm_table_ok_def thread_def)
  then have "same_dms (foldl (apply_dm (sqlite_ops eng)) s ops)
      (foldl (apply_dm (memory_ops order)) (memory_store_new cap hms ettl emax) ops)"
    using assms(3)
  proof (induction ops rule: rev_induct)
    case (snoc op ops)
    then show ?case using same_dms_step by simp
  qed simp
  then show ?thesis by (rule same_dms_history)
qed

definition sample_dm :: "u64 \<Rightarrow> stored_dm" where
  "sample_dm t = \<lparr>dm_peer = replicate 32 7, dm_mine = True, dm_timestamp_ms = t, dm_body = [104, 105]\<rparr>"

text \<open>Two messages in a store that keeps one: both stores show the second.\<close>

lemma sample_dms_kept:
  "dm_history (memory_ops id) (foldl (apply_dm (memory_ops id)) (memory_store_new 1 0 0 1)
     [PutDm (sample_dm 5), PutDm (sample_dm 9)]) (replicate 32 7) 4 = [sample_dm 9]"
  by (simp add: memory_ops_def mem_put_dm_def mem_dm_history_def memory_store_new_def get_or_default_def sample_dm_def
      keep_last_def pop_front_while_eq)

theorem dm_threads_agree_witness:
  "sql_open (\<lambda>_ _. Inr empty_database) ''mesh.db'' [] 1 0 0 1 = Inr sample_sql \<and>
   dm_history (sqlite_ops sample_engine) (foldl (apply_dm (sqlite_ops sample_engine)) sample_sql
     [PutDm (sample_dm 5), PutDm (sample_dm 9)]) (replicate 32 7) 4 = [sample_dm 9]"
proof
  show o: "sql_open (\<lambda>_ _. Inr empty_database) ''mesh.db'' [] 1 0 0 1 = Inr sample_sql"
    by (simp add: sql_open_def sample_sql_def)
  have "\<forall>op \<in> set [PutDm (sample_dm 5), PutDm (sample_dm 9)]. dm_valid op" by (simp add: dm_valid_def sample_dm_def)
  from dm_threads_agree [OF o refl this, of sample_engine "replicate 32 7" 4 id] sample_dms_kept
  show "dm_history (sqlite_ops sample_engine) (foldl (apply_dm (sqlite_ops sample_engine)) sample_sql
     [PutDm (sample_dm 5), PutDm (sample_dm 9)]) (replicate 32 7) 4 = [sample_dm 9]" by simp
qed

end
