(* ===== verification/Events.thy ===== *)
theory Events
  imports Trust
begin

text \<open>
  Relations on nodes across whole events.  The locale \<open>event_relation\<close> carries a relation from the
  elementary updates of \<open>handshake_relation\<close> and a few more to every transport event and to the timer.
  Its first interpretation says where a node sends: an event adds no link but its own, and the calls a
  node makes on its transport are on its links or on the link of the event.
\<close>

section \<open>Where a node sends\<close>

text \<open>A step adds no links but those of \<open>L\<close>, and makes no calls but on links of the node and of \<open>L\<close>.\<close>

definition calls_within :: "link_id set \<Rightarrow> ('hs, 'ts, 's) node \<Rightarrow> ('hs, 'ts, 's) node \<Rightarrow> bool" where
  "calls_within L n n' \<longleftrightarrow> fst ` set (links n') \<subseteq> fst ` set (links n) \<union> L
     \<and> call_link ` set (outbox n') \<subseteq> call_link ` set (outbox n) \<union> fst ` set (links n) \<union> L"

lemma calls_within_trans [trans]: "calls_within L n m \<Longrightarrow> calls_within L m k \<Longrightarrow> calls_within L n k"
  unfolding calls_within_def by (elim conjE, intro conjI) (meson Un_least Un_upper1 Un_upper2 order_trans)+

lemma calls_within_refl [simp]: "calls_within L n n"
  by (auto simp: calls_within_def)

lemma calls_within_mono: "calls_within L n m \<Longrightarrow> L \<subseteq> L' \<Longrightarrow> calls_within L' n m"
  unfolding calls_within_def by blast

lemma calls_within_sent:
  assumes "links n' = links n" "outbox n' = outbox n @ xs" "call_link ` set xs \<subseteq> fst ` set (links n) \<union> L"
  shows "calls_within L n n'"
  unfolding calls_within_def assms(1,2) set_append image_Un using assms(3) by blast

lemma calls_within_foldl: "(\<And>n x. calls_within L n (f n x)) \<Longrightarrow> calls_within L n (foldl f n xs)"
  by (induction xs arbitrary: n) (auto intro: calls_within_trans)

lemma bm_get_fst: "bm_get m k = Some v \<Longrightarrow> k \<in> fst ` set m"
  by (metis domI dom_map_of_conv_image_fst)

lemma resolve_link_within: "calls_within {} n (resolve_link E n p)"
  by (cases p) (auto simp: resolve_link_def calls_within_def dest: bm_get_fst split: option.splits)

lemma fst_bm_remove: "fst ` set (bm_remove k m) \<subseteq> fst ` set m"
  by (auto simp: bm_remove_def)

lemma foldl_close_within:
  assumes "set ids \<subseteq> L"
  shows "calls_within L n (foldl close_link n ids)"
  using assms
proof (induction ids arbitrary: n)
  case (Cons l ids)
  then have "calls_within L n (close_link n l)" using fst_bm_remove [of l "links n"] by (auto simp: calls_within_def close_link_def)
  with Cons show ?case by (auto intro: calls_within_trans)
qed simp

lemma links_by_fp_keys: "(fp, ids) \<in> set (links_by_fp ls) \<Longrightarrow> set ids \<subseteq> fst ` set ls"
proof -
  have ins: "x \<in> set (bm_insert k v m) \<Longrightarrow> x = (k, v) \<or> x \<in> set m" for x k v and m :: "(bytes, link_id list) bmap"
    by (induction k v m rule: bm_insert.induct) (auto split: if_splits)
  have "\<forall>(fp, ids) \<in> set (links_by_fp ls). set ids \<subseteq> fst ` set ls"
  proof (induction ls rule: rev_induct)
    case (snoc p ls)
    obtain l st where p: "p = (l, st)" by fastforce
    let ?m = "links_by_fp ls"
    have "set (get_or_default ?m fp) \<subseteq> fst ` set ls" for fp
    proof (cases "bm_get ?m fp")
      case (Some ids)
      then show ?thesis using snoc.IH map_of_SomeD [OF Some] by (auto simp: get_or_default_def)
    qed (simp add: get_or_default_def)
    moreover have "links_by_fp (ls @ [p]) = (case peer_fp st of None \<Rightarrow> ?m | Some fp \<Rightarrow> bm_insert fp (get_or_default ?m fp @ [l]) ?m)"
      unfolding links_by_fp_def p by simp
    ultimately show ?case using snoc.IH p by (fastforce dest: ins split: option.splits)
  qed (simp add: links_by_fp_def)
  then show "(fp, ids) \<in> set (links_by_fp ls) \<Longrightarrow> set ids \<subseteq> fst ` set ls" by blast
qed

lemma dedup_links_within:
  assumes "dedup_links E n = Ret n'"
  shows "calls_within {} n n'"
proof -
  have r: "calls_within {} n (resolved E n)" unfolding resolved_def by (rule calls_within_foldl) (rule resolve_link_within)
  have "set (redundant_links (resolved E n)) \<subseteq> fst ` set (links (resolved E n))"
    by (auto simp: redundant_links_def dest!: in_set_dropD subsetD [OF links_by_fp_keys])
  then have "calls_within (fst ` set (links (resolved E n))) (resolved E n) n'"
    using assms foldl_close_within by (auto simp: dedup_links_eq)
  then have "calls_within {} (resolved E n) n'" unfolding calls_within_def by blast
  with r show ?thesis by (rule calls_within_trans)
qed

lemma note_link_identity_within:
  assumes "note_link_identity E n l eph = Ret n'"
  shows "calls_within {} n n'"
proof -
  let ?n = "case bm_get (links n) l of None \<Rightarrow> n
        | Some s \<Rightarrow> if peer_eph s \<noteq> Some eph
            then n\<lparr>links := bm_insert l (s\<lparr>peer_eph := Some eph, peer_fp := None\<rparr>) (links n)\<rparr> else n"
  have "dedup_links E ?n = Ret n'" using assms by (simp add: note_link_identity_def)
  then have "calls_within {} ?n n'" by (rule dedup_links_within)
  moreover have "calls_within {} n ?n" by (auto simp: calls_within_def dest: bm_get_fst split: option.splits)
  ultimately show ?thesis by (rule calls_within_trans [rotated])
qed

lemma send_bytes_within: "calls_within {l} n (send_bytes n l bs d m)"
  by (rule calls_within_sent [of _ _ "frames_of l bs d m"]) (auto simp: send_bytes_eq dest: frames_of_link)

lemma handle_sync_request_within:
  assumes "handle_sync_request E n l pkt = Ret n'"
  shows "calls_within {l} n n'"
proof -
  obtain d where d: "decode_sync (p_payload pkt) = Ret d" using decode_sync_total by blast
  show ?thesis
  proof (cases d)
    case (Some remote)
    then have "n' = foldl (\<lambda>n d. case message_by_digest (store E) (n_store n) d of
                  Some m \<Rightarrow> if sm_raw m \<noteq> [] then send_bytes n l (sm_raw m) d (link_mtu n l) else n
                | None \<Rightarrow> n) n (missing_from (sync_filter_new (sf_channel remote)
        (channel_digests (store E) (n_store n) (sf_channel remote))) remote)"
      using assms d by (simp add: handle_sync_request_def Let_def)
    then show ?thesis by (auto intro!: calls_within_foldl send_bytes_within split: option.splits)
  qed (use assms d in \<open>simp add: handle_sync_request_def\<close>)
qed

lemma broadcast_within: "calls_within {} n (broadcast E n pkt ex)"
  by (rule calls_within_sent [of _ _ "broadcast_calls E n pkt ex"])
    (use broadcast_on_links [of n E pkt ex] in \<open>simp_all add: broadcast_eq on_links_def\<close>)

lemma announce_within: "calls_within {} n (announce E n)"
proof -
  have "calls_within {} n (observe_own E pkt n)" for pkt by (simp add: calls_within_def observe_own_def)
  then show ?thesis unfolding announce_def Let_def using broadcast_within calls_within_trans by blast
qed

lemma send_sync_requests_within: "calls_within {l} n (send_sync_requests E n l)"
  unfolding send_sync_requests_def Let_def send_on_link_def by (rule calls_within_foldl) (rule send_bytes_within)

lemma fire_relays_within: "calls_within {} n (foldl (fire_relay E) n ds)"
proof (rule calls_within_foldl)
  fix n :: "('a, 'b, 'c) node" and d
  have "calls_within {} n (n\<lparr>relays_fired := relays_fired n + 1\<rparr>)" by (simp add: calls_within_def)
  then show "calls_within {} n (fire_relay E n d)" unfolding fire_relay_def using broadcast_within calls_within_trans by blast
qed

section \<open>What arrives\<close>

text \<open>The link a transport event is about.\<close>

fun event_link :: "transport_event \<Rightarrow> link_id" where
  "event_link (LinkUp l _ _) = l"
| "event_link (MtuChanged l _) = l"
| "event_link (LinkDown l) = l"
| "event_link (FrameReceived l _) = l"

text \<open>An announce a node accepts: a well-formed packet, signed with the identity key it carries.\<close>

definition genuine :: "('hs, 'ts, 's) env \<Rightarrow> packet \<Rightarrow> bytes \<Rightarrow> bytes \<Rightarrow> rstring \<Rightarrow> bool" where
  "genuine E pkt pk dh nick \<longleftrightarrow> packet_ok pkt \<and> p_type pkt = Announce \<and> decode_announce (p_payload pkt) = Ret (Some (pk, dh, nick))
     \<and> vk_valid E pk \<and> packet_verify (ed_verify E) pkt pk = Inr ()"

text \<open>A relation that holds of handshakes and messages, of bookkeeping and of the two packets that change
  the store, holds of every transport event and of the timer.\<close>

locale event_relation = handshake_relation +
  fixes L :: "link_id set"
  assumes r_links: "calls_within L n (n\<lparr>links := ls, outbox := xs\<rparr>) \<Longrightarrow> R n (n\<lparr>links := ls, outbox := xs\<rparr>)"
    and r_caches: "R n (n\<lparr>seen := sc, rate := rl\<rparr>)"
    and r_frames: "R n (n\<lparr>n_reassembler := ra\<rparr>)"
    and r_relays: "R n (n\<lparr>n_rng := r, scheduler := sch\<rparr>)"
    and r_timer: "calls_within L n (n\<lparr>outbox := xs\<rparr>) \<Longrightarrow>
      R n (n\<lparr>scheduler := sch, relays_fired := k, outbox := xs, seen := sc, n_reassembler := ra\<rparr>)"
    and r_announced: "genuine E pkt pk dh nick \<Longrightarrow> R n (announced E n pkt pk dh nick)"
    and r_taken: "R n (n\<lparr>n_store := snd (take_envelopes (store E) (n_store n) fp)\<rparr>)"
    and r_channel: "R n (n\<lparr>n_store := put_channel_message (store E) (n_store n) msg\<rparr>)"
begin

lemma r_accept_announce:
  assumes "accept_announce E n pkt pk dh nick = Ret n'" "genuine E pkt pk dh nick"
  shows "R n n'"
proof -
  let ?a = "announced E n pkt pk dh nick" and ?fp = "sha256 E pk"
  obtain ls xs held st where eq: "accept_announce E n pkt pk dh nick =
      Ret (foldl (\<lambda>n bs. send_dm E n ?fp (from_utf8_lossy bs)) (?a\<lparr>links := ls, outbox := xs, n_store := st\<rparr>) held)"
    and t: "take_envelopes (store E) (n_store ?a) ?fp = (held, st)"
    and d: "dedup_links E ?a = Ret (?a\<lparr>links := ls, outbox := xs\<rparr>)"
    using accept_announce_eq [of E n pkt pk dh nick] by blast
  let ?b = "?a\<lparr>links := ls, outbox := xs\<rparr>"
  have "calls_within L ?a ?b" by (rule calls_within_mono [OF dedup_links_within [OF d]]) simp
  then have b: "R ?a ?b" by (rule r_links)
  have "R ?b (?b\<lparr>n_store := snd (take_envelopes (store E) (n_store ?b) ?fp)\<rparr>)" by (rule r_taken)
  then have "R n (?a\<lparr>links := ls, outbox := xs, n_store := st\<rparr>)"
    using r_trans [OF r_trans [OF r_announced [OF assms(2)] b]] t by simp
  then have "R n (foldl (\<lambda>n bs. send_dm E n ?fp (from_utf8_lossy bs)) (?a\<lparr>links := ls, outbox := xs, n_store := st\<rparr>) held)"
    by (rule r_trans) (rule r_foldl, rule r_send_dm)
  then show ?thesis using eq assms(1) by simp
qed

lemma r_outbox:
  assumes "calls_within L n (n\<lparr>outbox := xs\<rparr>)"
  shows "R n (n\<lparr>outbox := xs\<rparr>)"
  using r_links [where n = n and ls = "links n" and xs = xs] assms by simp

lemma r_dispatch:
  assumes "dispatch E n l pkt = Ret n'" "l \<in> L" "packet_ok pkt"
  shows "R n n'"
proof (cases "p_type pkt")
  case Announce
  obtain d where d: "decode_announce (p_payload pkt) = Ret d" using decode_announce_total by blast
  have h: "handle_announce E n pkt = Ret n'" using Announce assms(1) by (simp add: dispatch_def)
  show ?thesis
  proof (cases "\<exists>pk dh nick. genuine E pkt pk dh nick \<and> accept_announce E n pkt pk dh nick = Ret n'")
    case False
    with h have "n' = n" using Announce assms(3)
      by (auto simp: handle_announce_def d genuine_def split: option.splits prod.splits if_splits)
    then show ?thesis by (simp add: r_refl)
  qed (auto intro: r_accept_announce)
next
  case ChannelMessage
  obtain d where d: "decode_channel (lz4_decompress E) (p_payload pkt) (n_cfg n) = Ret d" using decode_channel_total by blast
  have h: "handle_channel E n pkt = Ret n'" using ChannelMessage assms(1) by (simp add: dispatch_def)
  show ?thesis
  proof (cases d)
    case (Some ct)
    then obtain c b where "d = Some (c, b)" by (cases ct) auto
    with h show ?thesis
      by (auto simp: handle_channel_def d Let_def intro: r_refl r_channel r_trans [OF r_channel r_event] split: if_splits)
  qed (use h d r_refl in \<open>simp add: handle_channel_def\<close>)
next
  case SyncRequest
  with assms(1) have h: "handle_sync_request E n l pkt = Ret n'" by (simp add: dispatch_def)
  then obtain xs where n': "n' = n\<lparr>outbox := xs\<rparr>" by (rule handle_sync_request_frame)
  have "calls_within L n n'" by (rule calls_within_mono [OF handle_sync_request_within [OF h]]) (simp add: assms(2))
  then show ?thesis unfolding n' by (rule r_outbox)
next
  case NoiseHandshake
  with assms(1) r_handle_noise_handshake [of n pkt] show ?thesis by (auto simp: dispatch_def)
next
  case DirectMessage
  with assms(1) r_handle_direct_message [of n pkt] show ?thesis by (auto simp: dispatch_def)
qed (use assms(1) r_refl in \<open>simp_all add: dispatch_def\<close>)

lemma r_on_packet:
  assumes "on_packet E n l pkt = Ret n'" "l \<in> L" "packet_ok pkt"
  shows "R n n'"
proof -
  obtain m where m: "(if p_type pkt = SyncRequest then note_link_identity E n l (p_sender pkt) else Ret n) = Ret m" "R n m"
  proof (cases "p_type pkt = SyncRequest")
    case True
    obtain m where k: "note_link_identity E n l (p_sender pkt) = Ret m" using note_link_identity_keeps by blast
    then obtain ls xs where m: "m = n\<lparr>links := ls, outbox := xs\<rparr>" by (rule note_link_identity_frame)
    have "calls_within L n m" by (rule calls_within_mono [OF note_link_identity_within [OF k]]) simp
    then have "R n m" unfolding m by (rule r_links)
    with True k that show ?thesis by simp
  qed (use that r_refl in auto)
  obtain obs sc where o1: "observe (seen m) (packet_digest (sha256 E) pkt) (clock m) = (obs, sc)" by fastforce
  let ?m = "m\<lparr>seen := sc\<rparr>"
  obtain ok rl where a: "allow (rate ?m) (p_sender pkt) (clock ?m) = (ok, rl)" by fastforce
  let ?mr = "m\<lparr>seen := sc, rate := rl\<rparr>"
  obtain k where k: "dispatch E ?mr l pkt = Ret k" using dispatch_keeps by blast
  have n': "n' = (if \<not> is_new obs then m\<lparr>seen := sc, rate := rate m\<rparr> else if \<not> ok then ?mr else maybe_relay E k l pkt)"
    using assms(1) unfolding on_packet_def m(1) and_then.simps o1 prod.case Let_def a k by (simp split: if_splits)
  obtain r sch where "maybe_relay E k l pkt = k\<lparr>n_rng := r, scheduler := sch\<rparr>" using maybe_relay_frame by blast
  then have "R ?mr (maybe_relay E k l pkt)" using r_trans [OF r_dispatch [OF k assms(2,3)] r_relays] by simp
  then have "R m (maybe_relay E k l pkt)" by (rule r_trans [OF r_caches])
  moreover have "R m (m\<lparr>seen := sc, rate := rl'\<rparr>)" for rl' by (rule r_caches)
  ultimately have "R m n'" unfolding n' by presburger
  with m(2) show ?thesis by (rule r_trans)
qed

lemma r_announce: "R n (announce E n)"
proof -
  obtain d xs where eq: "announce E n = n\<lparr>seen := snd (observe (seen n) d (clock n)), outbox := xs\<rparr>" using announce_eq by blast
  let ?m = "n\<lparr>seen := snd (observe (seen n) d (clock n)), rate := rate n\<rparr>"
  have "calls_within L ?m (?m\<lparr>outbox := xs\<rparr>)"
    using calls_within_mono [OF announce_within, of L n E] unfolding eq by (simp add: calls_within_def)
  from r_trans [OF r_caches r_outbox [OF this]] show ?thesis by (simp add: eq)
qed

lemma r_set_links:
  assumes "fst ` set ls \<subseteq> fst ` set (links n) \<union> L"
  shows "R n (n\<lparr>links := ls\<rparr>)"
proof -
  have "calls_within L n (n\<lparr>links := ls, outbox := outbox n\<rparr>)" using assms by (auto simp: calls_within_def)
  from r_links [OF this] show ?thesis by simp
qed

lemma r_on_transport_event:
  assumes "on_transport_event E n ev = Ret n'" "event_link ev \<in> L"
  shows "R n n'"
proof (cases ev)
  case (LinkUp l m h)
  let ?n = "n\<lparr>links := bm_insert l \<lparr>mtu = m, peer_eph = None, peer_fp = None\<rparr> (links n)\<rparr>"
  obtain xs where s: "send_sync_requests E (announce E ?n) l = (announce E ?n)\<lparr>outbox := xs\<rparr>" using send_sync_requests_frame by blast
  have l: "{l} \<subseteq> L" using assms(2) LinkUp by simp
  have "calls_within L (announce E ?n) ((announce E ?n)\<lparr>outbox := xs\<rparr>)"
    using calls_within_mono [OF send_sync_requests_within l] unfolding s [symmetric] .
  then have "R (announce E ?n) ((announce E ?n)\<lparr>outbox := xs\<rparr>)" by (rule r_outbox)
  moreover have "R n ?n" by (rule r_set_links) (use l in auto)
  moreover have "n' = (announce E ?n)\<lparr>outbox := xs\<rparr>" using assms(1) LinkUp s by (simp add: on_transport_event_def)
  ultimately show ?thesis using r_trans [OF r_trans [OF _ r_announce]] by blast
next
  case (FrameReceived l f)
  with assms(1) have "on_frame E n l f = Ret n'" by (simp add: on_transport_event_def)
  then show ?thesis
  proof (cases rule: on_frame_cases)
    case (2 ra bs pkt)
    from r_on_packet [OF this(2)] encode_decode [OF this(1)] assms(2) FrameReceived show ?thesis by (auto intro: r_trans [OF r_frames])
  qed (simp add: r_frames)
next
  case (MtuChanged l m)
  have "R n (n\<lparr>links := bm_insert l st (links n)\<rparr>)" for st by (rule r_set_links) (use assms(2) MtuChanged in auto)
  with assms(1) MtuChanged r_refl show ?thesis by (auto simp: on_transport_event_def split: option.splits)
next
  case (LinkDown l)
  have "R n (n\<lparr>links := bm_remove l (links n)\<rparr>)" 
    by (rule r_set_links) (rule le_supI1 [OF fst_bm_remove])
  with assms(1) LinkDown show ?thesis using r_trans [OF _ r_event] by (auto simp: on_transport_event_def)
qed

lemma r_tick:
  assumes "tick E n = Ret (d, n')"
  shows "R n n'"
proof -
  obtain out sch where du: "due (scheduler n) (clock n) (seen n) = Ret (out, sch)"
    using assms by (auto simp: tick_def and_then_eq_Ret)
  obtain k xs where f: "foldl (fire_relay E) (n\<lparr>scheduler := sch\<rparr>) out = n\<lparr>scheduler := sch, relays_fired := k, outbox := xs\<rparr>"
    using fire_all_eq [of E "n\<lparr>scheduler := sch\<rparr>" out] by simp
  have "calls_within L n (n\<lparr>outbox := xs\<rparr>)"
    using calls_within_mono [OF fire_relays_within, of L "n\<lparr>scheduler := sch\<rparr>" E out] unfolding f by (simp add: calls_within_def)
  note t = r_timer [OF this]
  have "n' = retry_stalled_handshakes E (n\<lparr>scheduler := sch, relays_fired := k, outbox := xs, seen := snd (evict_expired_seen (seen n) (clock n)),
     n_reassembler := snd (evict_expired_slots (n_reassembler n) (clock n))\<rparr>) (clock n)"
    using assms du f by (simp add: tick_def Let_def)
  then show ?thesis using r_trans [OF t r_retry_stalled] by simp
qed

end

section \<open>A node calls only on its links\<close>

interpretation cw: event_relation E "calls_within L" L for E L
proof
  fix n m k :: "('a, 'b, 'c) node"
  show "calls_within L n m \<Longrightarrow> calls_within L m k \<Longrightarrow> calls_within L n k" by (rule calls_within_trans)
  show "calls_within L n (n\<lparr>seen := snd (observe (seen n) d (clock n)), outbox := outbox n @ xs\<rparr>)" if "on_links n xs" for d xs
    by (rule calls_within_sent [of _ _ xs]) (use that in \<open>auto simp: on_links_def\<close>)
  show "calls_within L n (announced E n pkt pk dh nick)" for pkt pk dh nick
  proof -
    have "outbox (announced E n pkt pk dh nick) = outbox n"
      by (simp add: announced_def Let_def push_event_def store_dm_def split: option.splits)
    then show ?thesis by (auto simp: calls_within_def)
  qed
qed (auto simp: calls_within_def push_event_def)

lemmas event_calls_within = cw.r_on_transport_event
lemmas tick_calls_within = cw.r_tick

end
