(* ===== verification/Contacts.thy ===== *)
theory Contacts
  imports Sessions Threads Events
begin

text \<open>
  The contact list of a node (\<open>crates/meshcore/src/node.rs\<close> with either store): an interpretation of
  \<open>event_relation\<close> says that no transport event and no timer changes the name or the verified mark of a
  contact, and that a contact they add has neither.
\<close>

section \<open>The contact list\<close>

text \<open>Every contact is as it was, and a new one has no name and is not verified.\<close>

definition contact_grows :: "('hs, 'ts, 's) env \<Rightarrow> ('hs, 'ts, 's) node \<Rightarrow> ('hs, 'ts, 's) node \<Rightarrow> bool" where
  "contact_grows E n n' \<longleftrightarrow> (\<forall>fp. contact (store E) (n_store n') fp = contact (store E) (n_store n) fp
     \<or> contact (store E) (n_store n) fp = None \<and> contact (store E) (n_store n') fp = Some (None, False))"

lemma contact_grows_store: "n_store n' = n_store n \<Longrightarrow> contact_grows E n n'"
  by (simp add: contact_grows_def)

lemma contact_grows_same:
  "(\<And>fp. contact (store E) (n_store n') fp = contact (store E) (n_store n) fp) \<Longrightarrow> contact_grows E n n'"
  by (simp add: contact_grows_def)

lemma contact_grows_trans: "contact_grows E n m \<Longrightarrow> contact_grows E m k \<Longrightarrow> contact_grows E n k"
  unfolding contact_grows_def by metis

lemma contact_grows_announced:
  assumes "store_laws (store E)"
  shows "contact_grows E n (announced E n pkt pk dh nick)"
proof -
  note laws = store_laws.contact_upsert [OF assms] store_laws.contact_put_dm [OF assms]
  let ?fp = "sha256 E pk"
  have up: "contact (store E) (upsert_peer (store E) s
      \<lparr>pr_fingerprint = ?fp, petname = (case get_peer (store E) s ?fp of Some p \<Rightarrow> petname p | None \<Rightarrow> None),
       verified = (case get_peer (store E) s ?fp of Some p \<Rightarrow> verified p | None \<Rightarrow> False), last_eph = e, last_seen_ms = t\<rparr>) fp
     = (if fp = ?fp \<and> contact (store E) s ?fp = None then Some (None, False) else contact (store E) s fp)" for s e t fp
  proof (cases "get_peer (store E) s ?fp")
    case None
    then have "contact (store E) s ?fp = None" by (simp add: contact_def)
    with None show ?thesis by (simp add: laws)
  next
    case (Some q)
    then have "contact (store E) s ?fp = Some (petname q, verified q)" by (simp add: contact_def)
    with Some show ?thesis by (simp add: laws)
  qed
  obtain st where st: "\<And>fp. contact (store E) st fp = contact (store E) (n_store n) fp"
    and n': "n_store (announced E n pkt pk dh nick) = upsert_peer (store E) st
      \<lparr>pr_fingerprint = ?fp, petname = (case get_peer (store E) st ?fp of Some p \<Rightarrow> petname p | None \<Rightarrow> None),
       verified = (case get_peer (store E) st ?fp of Some p \<Rightarrow> verified p | None \<Rightarrow> False),
       last_eph = p_sender pkt, last_seen_ms = p_timestamp_ms pkt\<rparr>"
  proof (cases "\<exists>old. bm_get (peer_static_dh n) ?fp = Some old \<and> old \<noteq> dh \<and> get_peer (store E) (n_store n) ?fp \<noteq> None")
    case True
    then show ?thesis
      by (intro that [of "put_dm (store E) (n_store n) \<lparr>dm_peer = ?fp, dm_mine = False, dm_timestamp_ms = clock n, dm_body = [DM_KIND_KEY_CHANGED]\<rparr>"])
        (auto simp: laws announced_def Let_def push_event_def store_dm_def)
  next
    case False
    then show ?thesis
      by (intro that [of "n_store n"]) (auto simp: announced_def Let_def push_event_def split: option.splits)
  qed
  show ?thesis unfolding contact_grows_def n' up st by simp
qed

interpretation cg: event_relation E "\<lambda>n n'. store_laws (store E) \<longrightarrow> contact_grows E n n'" UNIV for E
proof (unfold_locales; intro impI)
  fix n m n' :: "('a, 'b, 'c) node" assume l: "store_laws (store E)"
  show "contact_grows E n n'" if "store_laws (store E) \<longrightarrow> contact_grows E n m" "store_laws (store E) \<longrightarrow> contact_grows E m n'"
    using that l contact_grows_trans by blast
  show "contact_grows E n (announced E n pkt pk dh nick)" for pkt pk dh nick by (rule contact_grows_announced [OF l])
qed (auto intro!: contact_grows_store contact_grows_same simp: push_event_def store_laws.contact_put_dm store_laws.contact_queue
    store_laws.contact_take store_laws.contact_put_channel)

text \<open>The commands with which the user edits the contact list.\<close>

definition contact_command :: "('hs, 'ts, 's) env \<Rightarrow> ('hs, 'ts, 's) node \<Rightarrow> ('hs, 'ts, 's) node \<Rightarrow> bool" where
  "contact_command E n n' \<longleftrightarrow>
     (\<exists>fp. n' = verify_peer E n fp \<or> n' = unverify_peer E n fp \<or> n' = forget_peer E n fp
        \<or> (\<exists>name. n' = set_petname E n fp name)) \<or> n' = panic_wipe E n"

lemma node_step_contacts:
  assumes "store_laws (store E)" "node_step E n n'" "\<not> contact_command E n n'"
  shows "contact_grows E n n'"
  using assms(2)
proof cases
  case (Event ev)
  then show ?thesis using cg.r_on_transport_event [of E n ev n'] assms(1) by blast
next
  case (Tick d)
  then show ?thesis using cg.r_tick assms(1) by blast
next
  case (SendChannel name t)
  then show ?thesis using assms(1)
    by (auto intro!: contact_grows_same simp: send_channel_message_def Let_def broadcast_eq observe_own_def store_laws.contact_put_channel)
next
  case Announce
  then show ?thesis using cg.r_announce assms(1) by blast
next
  case (SendDm fp t)
  then show ?thesis using cg.r_send_dm assms(1) by blast
next
  case (StartDm fp)
  have "contact_grows E n (begin_handshake E n fp)" using cg.r_begin_handshake assms(1) by blast
  then show ?thesis using StartDm by (auto simp: start_dm_session_def push_event_def intro: contact_grows_store)
qed (use assms(3) in \<open>auto simp: contact_command_def take_events_def reset_relays_fired_def join_channel_def intro!: contact_grows_store\<close>)

text \<open>A run either contains a step of one kind or is related by what the other steps keep.\<close>

lemma node_run_command:
  assumes "node_run E n hist m"
    and "\<And>a b. node_step E a b \<Longrightarrow> \<not> C a b \<Longrightarrow> R a b" "\<And>a. R a a" "\<And>a b c. R a b \<Longrightarrow> R b c \<Longrightarrow> R a c"
  shows "(\<exists>i. Suc i < length hist \<and> C (hist ! i) (hist ! Suc i)) \<or> R n m"
proof -
  have "hist \<noteq> [] \<and> last hist = m \<and> ((\<exists>i. Suc i < length hist \<and> C (hist ! i) (hist ! Suc i)) \<or> R n m)"
    using assms(1)
  proof (induction rule: node_run.induct)
    case (run_step n hist m k)
    then have ne: "hist \<noteq> []" and l: "last hist = m" by blast+
    consider i where "Suc i < length hist" "C (hist ! i) (hist ! Suc i)" | "C m k" | "R n m" "\<not> C m k" using run_step.IH by blast
    then have "(\<exists>i. Suc i < length (hist @ [k]) \<and> C ((hist @ [k]) ! i) ((hist @ [k]) ! Suc i)) \<or> R n k"
    proof cases
      case (1 i)
      then have "Suc i < length (hist @ [k]) \<and> C ((hist @ [k]) ! i) ((hist @ [k]) ! Suc i)" by (simp add: nth_append)
      then show ?thesis by blast
    next
      case 2
      then have "C ((hist @ [k]) ! (length hist - 1)) ((hist @ [k]) ! Suc (length hist - 1))"
        using ne l by (simp add: nth_append last_conv_nth)
      moreover have "Suc (length hist - 1) < length (hist @ [k])" using ne by (cases hist) auto
      ultimately show ?thesis by blast
    next
      case 3
      from assms(4) [OF 3(1) assms(2) [OF run_step.hyps(2) 3(2)]] show ?thesis by (rule disjI2)
    qed
    then show ?case by simp
  qed (simp add: assms(3))
  then show ?thesis by simp
qed

text \<open>C10: in every run, the name and the verified mark of a contact change only by a command of the user:
  if they differ at the end, or a contact is verified or named that was unknown, then some step of the
  run is one of the commands on contacts.  Nothing a peer sends can do it.  Both stores of the
  repository satisfy the laws assumed of the store.\<close>

theorem contacts_only_by_user:
  assumes "store_laws (store E)" "node_run E n hist m"
    and "contact (store E) (n_store m) fp \<noteq> contact (store E) (n_store n) fp"
    and "contact (store E) (n_store n) fp \<noteq> None \<or> contact (store E) (n_store m) fp \<noteq> Some (None, False)"
  shows "\<exists>i. Suc i < length hist \<and> contact_command E (hist ! i) (hist ! Suc i)"
proof (rule ccontr)
  assume "\<not> ?thesis"
  then have "contact_grows E n m"
    using node_run_command [where C = "contact_command E" and R = "contact_grows E", OF assms(2)]
      node_step_contacts [OF assms(1)] contact_grows_trans contact_grows_store by blast
  then have "contact (store E) (n_store m) fp = contact (store E) (n_store n) fp
     \<or> contact (store E) (n_store n) fp = None \<and> contact (store E) (n_store m) fp = Some (None, False)"
    unfolding contact_grows_def by (rule spec)
  with assms(3,4) show False by simp
qed

theorem contacts_only_by_user_witness:
  "\<exists>hist i. node_run sample_env (sample_node 1) hist (verify_peer sample_env (sample_node 1) (replicate 32 9))
     \<and> contact_command sample_env (hist ! i) (hist ! Suc i)"
proof -
  let ?n = "sample_node 1" and ?fp = "replicate 32 9 :: bytes"
  let ?m = "verify_peer sample_env ?n ?fp"
  have l: "store_laws (store sample_env)" using mem.store_laws_axioms [of id] by (simp add: sample_env_def)
  have r: "node_run sample_env ?n ([?n] @ [?m]) ?m" by (rule run_step [OF run_refl node_step.VerifyPeer])
  have "contact (store sample_env) (n_store ?n) ?fp = None"
    by (simp add: sample_node_def node_new_def sample_env_def memory_ops_def memory_store_new_def contact_def mem_get_peer_def)
  moreover have "contact (store sample_env) (n_store ?m) ?fp = Some (None, True)"
  proof -
    have "\<not> session_ready (?n\<lparr>n_store := st, notice_pending := np\<rparr>) ?fp" for st np by (simp add: session_ready_def)
    then have "n_store ?m = delete_dms (store sample_env) (upsert_peer (store sample_env) (n_store ?n)
        ((peer_or_new sample_env ?n ?fp)\<lparr>verified := True\<rparr>)) ?fp True"
      by (simp add: verify_peer_def Let_def try_send_verify_notice_def)
    moreover have "peer_or_new sample_env ?n ?fp = \<lparr>pr_fingerprint = ?fp, petname = None, verified = False, last_eph = replicate 8 0,
        last_seen_ms = clock ?n\<rparr>"
      by (simp add: peer_or_new_def sample_node_def node_new_def sample_env_def memory_ops_def memory_store_new_def mem_get_peer_def)
    ultimately show ?thesis by (simp add: mem.contact_delete_dms mem.contact_upsert)
  qed
  ultimately have "\<exists>i. Suc i < length ([?n] @ [?m]) \<and> contact_command sample_env (([?n] @ [?m]) ! i) (([?n] @ [?m]) ! Suc i)"
    by (intro contacts_only_by_user [OF l r, of ?fp]) simp_all
  with r show ?thesis by blast
qed

end
