(* ===== verification/Peers.thy ===== *)
theory Peers
  imports Sessions Events
begin

text \<open>
  The tables in which a node keeps what it knows of its peers: the identity key of an address, the address
  of a fingerprint and the static key of a fingerprint.
\<close>

section \<open>The invariant\<close>

text \<open>The entries have the sizes of the arrays of the code, and the tables fit together: the fingerprint of
  a known identity key has a static key, and the address of a fingerprint is known.\<close>

definition peers_ok :: "('hs, 'ts, 's) env \<Rightarrow> ('hs, 'ts, 's) node \<Rightarrow> bool" where
  "peers_ok E n \<longleftrightarrow> bm_ok (eph_keys n) \<and> bm_ok (fp_to_eph n) \<and> bm_ok (peer_static_dh n)
     \<and> (\<forall>e pk. bm_get (eph_keys n) e = Some pk \<longrightarrow>
          length e = 8 \<and> length pk = 32 \<and> vk_valid E pk \<and> bm_contains (peer_static_dh n) (sha256 E pk))
     \<and> (\<forall>fp e. bm_get (fp_to_eph n) fp = Some e \<longrightarrow> bm_contains (eph_keys n) e \<and> bm_contains (peer_static_dh n) fp)
     \<and> (\<forall>fp dh. bm_get (peer_static_dh n) fp = Some dh \<longrightarrow>
          length dh = 32 \<and> (\<exists>pk. length pk = 32 \<and> vk_valid E pk \<and> fp = sha256 E pk))"

definition peers_keep :: "('hs, 'ts, 's) env \<Rightarrow> ('hs, 'ts, 's) node \<Rightarrow> ('hs, 'ts, 's) node \<Rightarrow> bool" where
  "peers_keep E n n' \<longleftrightarrow> (peers_ok E n \<longrightarrow> peers_ok E n')"

lemma peers_keep_same:
  "eph_keys n' = eph_keys n \<Longrightarrow> fp_to_eph n' = fp_to_eph n \<Longrightarrow> peer_static_dh n' = peer_static_dh n \<Longrightarrow> peers_keep E n n'"
  by (simp add: peers_keep_def peers_ok_def)

lemma peers_keep_announced:
  assumes "genuine E pkt pk dh nick"
  shows "peers_keep E n (announced E n pkt pk dh nick)"
proof -
  have "length pk = 32" "length dh = 32" "length (p_sender pkt) = 8" "vk_valid E pk"
    using assms decode_announce_total [of "p_payload pkt"] by (auto simp: genuine_def packet_ok_def)
  then show ?thesis by (auto simp: peers_keep_def peers_ok_def bm_contains_def)
qed

interpretation pk: event_relation E "peers_keep E" UNIV for E
proof
  fix n m n' :: "('a, 'b, 'c) node"
  show "peers_keep E n m \<Longrightarrow> peers_keep E m n' \<Longrightarrow> peers_keep E n n'" by (simp add: peers_keep_def)
qed (auto intro: peers_keep_same peers_keep_announced simp: push_event_def)

lemma node_step_peers:
  assumes "node_step E n n'"
  shows "peers_keep E n n'"
  using assms
proof cases
  case (Event ev)
  then show ?thesis using pk.r_on_transport_event [of E n ev n'] by simp
next
  case (Tick d)
  then show ?thesis using pk.r_tick by blast
next
  case (SendChannel name t)
  then show ?thesis by (auto intro!: peers_keep_same simp: send_channel_message_def Let_def broadcast_eq observe_own_def)
next
  case Announce
  then show ?thesis using pk.r_announce by blast
next
  case (SendDm fp t)
  then show ?thesis using pk.r_send_dm by blast
next
  case (StartDm fp)
  then show ?thesis using pk.r_begin_handshake [of E n fp] by (auto simp: start_dm_session_def push_event_def intro: peers_keep_same)
next
  case (VerifyPeer fp)
  then show ?thesis unfolding verify_peer_def Let_def by (auto intro: pk.r_trans [OF peers_keep_same pk.r_try_send_verify_notice])
next
  case (ForgetPeer fp)
  then show ?thesis by (auto simp: forget_peer_def drop_peer_session_state_def Let_def peers_keep_def peers_ok_def)
qed (auto intro: peers_keep_same simp: take_events_def reset_relays_fired_def join_channel_def unverify_peer_def
    drop_peer_session_state_def set_petname_def Let_def panic_wipe_def peers_keep_def peers_ok_def)

lemma node_run_peers: "node_run E n hist m \<Longrightarrow> peers_ok E n \<Longrightarrow> peers_ok E m"
  by (induction rule: node_run.induct) (auto simp: peers_keep_def dest: node_step_peers)

text \<open>C9: the arrays of the tables of peers keep their sizes in every run, whatever the peers send: addresses
  have 8 bytes, identity keys, static keys and fingerprints 32, and every identity key is a valid one.
  Besides, the tables fit together: a packet is attributed only to a peer whose static key is recorded,
  so the check that binds a session to that key never lacks it, and the address on record of a peer
  is one whose identity key is known.\<close>

theorem peer_tables_typed:
  assumes "\<And>bs. length (sha256 E bs) = 32" "node_run E (node_new li cfg now st nick) hist n"
  shows "(\<forall>e pk. bm_get (eph_keys n) e = Some pk \<longrightarrow> length e = 8 \<and> length pk = 32 \<and> vk_valid E pk)
    \<and> (\<forall>fp dh. bm_get (peer_static_dh n) fp = Some dh \<longrightarrow> length fp = 32 \<and> length dh = 32)
    \<and> (\<forall>e fp. eph_to_fp E n e = Some fp \<longrightarrow> (\<exists>dh. bm_get (peer_static_dh n) fp = Some dh))
    \<and> (\<forall>fp e. bm_get (fp_to_eph n) fp = Some e \<longrightarrow> length fp = 32 \<and> length e = 8
         \<and> (\<exists>pk dh. bm_get (eph_keys n) e = Some pk \<and> bm_get (peer_static_dh n) fp = Some dh))"
proof -
  have "peers_ok E (node_new li cfg now st nick)" by (simp add: peers_ok_def node_new_def)
  then have p: "peers_ok E n" by (rule node_run_peers [OF assms(2)])
  then have fp: "length fp = 32 \<and> length dh = 32" if "bm_get (peer_static_dh n) fp = Some dh" for fp dh
    using that assms(1) unfolding peers_ok_def by metis
  have "\<exists>dh. bm_get (peer_static_dh n) fp = Some dh" if "eph_to_fp E n e = Some fp" for e fp
    using that p by (auto simp: peers_ok_def eph_to_fp_def bm_contains_def)
  moreover have "length e = 8 \<and> (\<exists>pk dh. bm_get (eph_keys n) e = Some pk \<and> bm_get (peer_static_dh n) fp = Some dh)"
    if "bm_get (fp_to_eph n) fp = Some e" for fp e
    using that p unfolding peers_ok_def bm_contains_def by (metis option.exhaust_sel)
  ultimately show ?thesis using p fp unfolding peers_ok_def by blast
qed

text \<open>A node that has taken in the announce of another.\<close>

theorem peer_tables_typed_witness:
  "\<exists>hist n dh. node_run sample_env (sample_node 1) hist n \<and> eph_to_fp sample_env n (replicate 8 2) = Some (replicate 32 2)
     \<and> bm_get (peer_static_dh n) (replicate 32 2) = Some dh"
proof (rule sample_met)
  fix n assume n: "node_run sample_env (sample_node 1) [sample_node 1, n] n" "knows sample_env n (sample_node 2)"
  have sha: "length (sha256 sample_env bs) = 32" for bs by simp
  have fp: "eph_to_fp sample_env n (replicate 8 2) = Some (replicate 32 2)"
    using n(2) by (simp add: knows_def eph_to_fp_def pad32_def)
  with peer_tables_typed [OF sha n(1) [unfolded sample_node_def]] n(1) show ?thesis by blast
qed

end
