(* ===== verification/Glare.thy ===== *)
theory Glare
  imports Delivery
begin

text \<open>
  First messages that cross: both nodes have opened a handshake when the first message of the other arrives,
  and the order of their fingerprints decides which of them gives way.
\<close>

section \<open>The two sides\<close>

text \<open>A handshake a node has opened is one it is the initiator of.\<close>

lemma write_handshake_initiator: "write_handshake sn s = (r, s') \<Longrightarrow> initiator s' = initiator s"
  by (auto simp: write_handshake_def maybe_transition_def split: inner.splits prod.splits sum.splits if_splits)

lemma opening_initiator:
  "new_initiator sn k e = Inr s0 \<Longrightarrow> write_handshake sn s0 = (r, s1) \<Longrightarrow> initiator s1"
  by (auto simp: new_initiator_def dest!: write_handshake_initiator split: if_splits sum.splits)

text \<open>The lower fingerprint keeps its handshake, the higher one answers that of the other.\<close>

lemma glare_kept:
  assumes "knows E n peer" "carries p (node_eph_id peer) (node_eph_id n) msg" "talking n (node_fingerprint E peer) s ps"
    "is_handshaking s" "initiator s" "length msg = XX_MSG1_LEN" "node_fingerprint E n < node_fingerprint E peer"
  shows "handle_noise_handshake E n p = Ret n"
proof -
  have "\<not> session_ready n (node_fingerprint E peer)"
    using talking_ready [OF assms(3)] handshaking_not_ready [OF assms(4)] by simp
  then show ?thesis
    using assms knows_fp [OF assms(1)] by (simp add: handle_noise_handshake_def carries_def glare_def talking_def)
qed

lemma glare_yields:
  assumes "knows E n peer" "carries p (node_eph_id peer) (node_eph_id n) msg" "talking n (node_fingerprint E peer) s ps"
    "is_handshaking s" "initiator s" "length msg = XX_MSG1_LEN" "node_fingerprint E peer < node_fingerprint E n"
  shows "handle_noise_handshake E n p =
    answer_handshake E (n\<lparr>noise_sessions := bm_remove (node_fingerprint E peer) (noise_sessions n)\<rparr>) (node_fingerprint E peer) msg"
proof -
  have "\<not> session_ready n (node_fingerprint E peer)"
    using talking_ready [OF assms(3)] handshaking_not_ready [OF assms(4)] by simp
  moreover have "\<not> node_fingerprint E n < node_fingerprint E peer" using less_asym [OF assms(7)] by blast
  ultimately show ?thesis
    using assms(2-6) knows_fp [OF assms(1)] by (simp add: handle_noise_handshake_def carries_def glare_def talking_def)
qed

lemma yields_and_answers:
  assumes "knows E b a" "carries p (node_eph_id a) (node_eph_id b) m1" "talking b (node_fingerprint E a) s ps"
    "is_handshaking s" "initiator s" "length m1 = XX_MSG1_LEN" "node_fingerprint E a < node_fingerprint E b"
    "new_responder (snow E) (dh_secret (identity b)) (entropy b) = Inr q0" "read_handshake (snow E) q0 m1 = (Inr (), q1)"
    "is_handshaking q1" "write_handshake (snow E) q1 = (Inr m2, q2)" "is_handshaking q2"
  obtains b1 where "handle_noise_handshake E b p = Ret b1" "talking b1 (node_fingerprint E a) q2 ps" "talk_keeps b b1"
    "sends E b b1 NoiseHandshake (node_eph_id a) m2"
proof -
  let ?fp = "node_fingerprint E a"
  let ?b = "b\<lparr>noise_sessions := bm_remove ?fp (noise_sessions b)\<rparr>"
  have k: "talk_keeps b ?b" by (simp add: talk_keeps_def)
  have t: "bm_get (fp_to_eph ?b) ?fp = Some (node_eph_id a)" "bm_get (noise_sessions ?b) ?fp = None" "get_or_default (pending_dms ?b) ?fp = ps"
    "bm_get (pending_inbound_dms ?b) ?fp = None" "bm_get (notice_pending ?b) ?fp = None"
    "new_responder (snow E) (dh_secret (identity ?b)) (entropy ?b) = Inr q0"
    using assms(1,3,8) by (simp_all add: knows_def talking_def)
  obtain b1 where b1: "answer_handshake E ?b ?fp m1 = Ret b1" "talking b1 ?fp q2 ps" "talk_keeps ?b b1" "sends E ?b b1 NoiseHandshake (node_eph_id a) m2"
    by (rule answer_opens [OF t assms(9-12)])
  show ?thesis
  proof (rule that)
    show "handle_noise_handshake E b p = Ret b1" unfolding glare_yields [OF assms(1-7)] by (rule b1(1))
    show "talking b1 ?fp q2 ps" by (rule b1(2))
    show "talk_keeps b b1" by (rule tk.r_trans [OF k b1(3)])
    show "sends E b b1 NoiseHandshake (node_eph_id a) m2" by (rule sends_before [OF k b1(4)])
  qed
qed

text \<open>The side that gave way, after the third message: the text that waited goes out.\<close>

lemma responder_finishes_text:
  fixes E :: "('hs, 'ts, 's) env"
  assumes "knows E n peer" "carries p (node_eph_id peer) (node_eph_id n) m3"
    "talking n (node_fingerprint E peer) q2 [txt]" "is_handshaking q2" "\<not> initiator q2"
    "read_handshake (snow E) q2 m3 = (Inr (), \<lparr>inner = Transport tB, initiator = False\<rparr>)"
    "ts_remote_static (snow E) tB = Some (dh_public (x_public E) (identity peer))" "length (dh_public (x_public E) (identity peer)) = 32"
    "encrypt (snow E) \<lparr>inner = Transport tB, initiator = False\<rparr> (DM_KIND_TEXT # txt) = (Inr c, s5)"
  obtains n' where "handle_noise_handshake E n p = Ret n'" "DmSession (node_fingerprint E peer) True \<in> set (events n')"
    "talking n' (node_fingerprint E peer) s5 []" "talk_keeps n n'" "sends E n n' DirectMessage (node_eph_id peer) c"
proof -
  let ?fp = "node_fingerprint E peer"
  obtain m where m: "handle_noise_handshake E n p = Ret (finish_session E m ?fp)"
    "talking m ?fp \<lparr>inner = Transport tB, initiator = False\<rparr> [txt]" "talk_keeps n m" "session_bound E m ?fp" "bm_get (fp_to_eph m) ?fp = Some (node_eph_id peer)"
    by (rule responder_reads [OF assms(1-8)])
  obtain n' where n': "finish_session E m ?fp = n'" "talking n' ?fp s5 []" "talk_keeps m n'" "DmSession ?fp True \<in> set (events n')"
    "sends E m n' DirectMessage (node_eph_id peer) c"
    by (rule finish_bound_message [OF m(2,4) assms(9) m(5)])
  show ?thesis
  proof (rule that)
    show "handle_noise_handshake E n p = Ret n'" using m(1) n'(1) by simp
    show "DmSession ?fp True \<in> set (events n')" "talking n' ?fp s5 []" by (rule n'(4), rule n'(2))
    show "talk_keeps n n'" by (rule tk.r_trans [OF m(3) n'(3)])
    show "sends E n n' DirectMessage (node_eph_id peer) c" by (rule sends_before [OF m(3) n'(5)])
  qed
qed

text \<open>A side of a session that has encrypted is still a side of it, and reads from where it did.\<close>

lemma encrypt_side:
  assumes "snow_ok sn" "cipher_pair sn A B" "A ts" "encrypt sn \<lparr>inner = Transport ts, initiator = i\<rparr> p = (Inr c, s')"
  obtains ts' where "s' = \<lparr>inner = Transport ts', initiator = i\<rparr>" "A ts'" "receiving_nonce sn ts' = receiving_nonce sn ts"
proof -
  obtain c' ts' where w: "ts_write_message sn ts p (length p + 64) = (Inr c', ts')" and s': "s' = \<lparr>inner = Transport ts', initiator = i\<rparr>"
    using assms(4) by (auto simp: encrypt_def Let_def split: prod.splits sum.splits)
  have "A ts'" using assms(2,3) w unfolding cipher_pair_def by blast
  then show ?thesis by (rule that [OF s']) (use snow_ok_write [OF assms(1) w] in simp)
qed


lemma send_dm_entropy:
  assumes "bm_get (fp_to_eph n) fp = Some r" "idle n fp"
    "new_initiator (snow E) (dh_secret (identity n)) (entropy n) = Inr s0" "write_handshake (snow E) s0 = (Inr msg, s1)"
  shows "entropy (send_dm E n fp txt) = Suc (entropy n)"
proof -
  have "entropy (send_directed E n t fp payload) = entropy n" for n :: "('a, 'b, 'c) node" and t payload
    by (auto simp: send_directed_def Let_def observe_own_def broadcast_eq split: option.splits)
  then show ?thesis
    using assms by (simp add: send_dm_def Let_def store_dm_def session_ready_def idle_def bm_contains_def begin_handshake_def)
qed

lemma talk_keeps_names:
  assumes "talk_keeps n m"
  shows "node_eph_id m = node_eph_id n" "node_fingerprint E m = node_fingerprint E n"
  using talk_keepsD(1) [OF assms] by (simp_all add: node_eph_id_def node_fingerprint_def)

text \<open>What a first message does to its sender.\<close>

lemma dm_opens:
  fixes E n peer body
  defines "n1 \<equiv> send_dm E n (node_fingerprint E peer) body"
  assumes "knows E n peer" "idle n (node_fingerprint E peer)"
    "new_initiator (snow E) (dh_secret (identity n)) (entropy n) = Inr s0" "write_handshake (snow E) s0 = (Inr msg, s1)"
  shows "talking n1 (node_fingerprint E peer) s1 [body]" "sends E n n1 NoiseHandshake (node_eph_id peer) msg" "knows E n1 peer"
    "identity n1 = identity n" "entropy n1 = Suc (entropy n)" "node_eph_id n1 = node_eph_id n" "node_fingerprint E n1 = node_fingerprint E n"
proof -
  have r: "bm_get (fp_to_eph n) (node_fingerprint E peer) = Some (node_eph_id peer)" using assms(2) by (simp add: knows_def)
  have k: "talk_keeps n n1" unfolding n1_def by (rule tk.r_send_dm)
  show "talking n1 (node_fingerprint E peer) s1 [body]" "sends E n n1 NoiseHandshake (node_eph_id peer) msg" "entropy n1 = Suc (entropy n)"
    unfolding n1_def by (rule send_dm_opens [OF r assms(3-5)] send_dm_entropy [OF r assms(3-5)])+
  show "knows E n1 peer" "identity n1 = identity n" by (rule knows_cong [OF assms(2) k refl], rule talk_keepsD(1) [OF k])
  show "node_eph_id n1 = node_eph_id n" "node_fingerprint E n1 = node_fingerprint E n" by (rule talk_keeps_names [OF k])+
qed

text \<open>Both sides have encrypted a text before they read that of the other.\<close>

lemma crossed_texts:
  assumes "snow_ok sn" "cipher_pair sn A B" "cipher_pair sn B A" "A tA" "B tB"
    "receiving_nonce sn tB \<le> sending_nonce sn tA" "receiving_nonce sn tA \<le> sending_nonce sn tB"
    "encrypt sn \<lparr>inner = Transport tA, initiator = True\<rparr> x = (Inr ca, sA)" "encrypt sn \<lparr>inner = Transport tB, initiator = False\<rparr> y = (Inr cb, sB)"
  obtains uA uB rA rB where "sA = \<lparr>inner = Transport uA, initiator = True\<rparr>" "sB = \<lparr>inner = Transport uB, initiator = False\<rparr>"
    "decrypt sn sB ca = (Inr x, rB)" "decrypt sn sA cb = (Inr y, rA)"
proof -
  obtain uA where uA: "sA = \<lparr>inner = Transport uA, initiator = True\<rparr>" "A uA" "receiving_nonce sn uA = receiving_nonce sn tA"
    by (rule encrypt_side [OF assms(1,2,4,8)])
  obtain uB where uB: "sB = \<lparr>inner = Transport uB, initiator = False\<rparr>" "B uB" "receiving_nonce sn uB = receiving_nonce sn tB"
    by (rule encrypt_side [OF assms(1,3,5,9)])
  have "\<exists>rB. decrypt sn sB ca = (Inr x, rB)"
    using encrypt_decrypt [OF assms(1,2) _ assms(4) _ uB(2) _ assms(8), of sB] assms(6) uB(1,3) by auto
  moreover have "\<exists>rA. decrypt sn sA cb = (Inr y, rA)"
    using encrypt_decrypt [OF assms(1,3) _ assms(5) _ uA(2) _ assms(9), of sA] assms(7) uA(1,3) by auto
  ultimately show ?thesis using that uA(1) uB(1) by blast
qed


section \<open>The property\<close>

text \<open>C3: two first messages that cross.  When two nodes that know each other each send the other a first
  message before anything of the other's has arrived, both are initiators.  The one with the lower
  fingerprint ignores the first handshake message of the other; the other one gives up its own attempt and
  answers.  The three messages of that handshake make both sessions verified, and both texts arrive, that
  of the node that gave way too.\<close>

theorem crossing_messages_delivered:
  fixes E :: "('hs, 'ts, 's) env"
  assumes "snow_ok (snow E)" "cipher_pair (snow E) A B" "cipher_pair (snow E) B A" "A tA" "B tB"
    and "receiving_nonce (snow E) tB \<le> sending_nonce (snow E) tA" "receiving_nonce (snow E) tA \<le> sending_nonce (snow E) tB"
    and "xx_exchange (snow E) (dh_secret (identity a), entropy a) (dh_secret (identity b), Suc (entropy b)) (m1, m2, m3) (tA, tB)
          (dh_public (x_public E) (identity a), dh_public (x_public E) (identity b))"
    and "new_initiator (snow E) (dh_secret (identity b)) (entropy b) = Inr z0" "write_handshake (snow E) z0 = (Inr w1, z1)" "is_handshaking z1"
    and "length m1 = XX_MSG1_LEN" "length w1 = XX_MSG1_LEN"
    and "knows E a b" "knows E b a" "idle a (node_fingerprint E b)" "idle b (node_fingerprint E a)"
    and "node_fingerprint E a < node_fingerprint E b"
    and "encrypt (snow E) \<lparr>inner = Transport tA, initiator = True\<rparr> (DM_KIND_TEXT # ta) = (Inr ca, sA)" "valid_utf8 ta"
    and "encrypt (snow E) \<lparr>inner = Transport tB, initiator = False\<rparr> (DM_KIND_TEXT # tb) = (Inr cb, sB)" "valid_utf8 tb"
    and "carries p1 (node_eph_id a) (node_eph_id b) m1" "carries r1 (node_eph_id b) (node_eph_id a) w1"
    and "carries p2 (node_eph_id b) (node_eph_id a) m2" "carries p3 (node_eph_id a) (node_eph_id b) m3"
    and "carries p4 (node_eph_id a) (node_eph_id b) ca" "carries r4 (node_eph_id b) (node_eph_id a) cb"
    and "a1 = send_dm E a (node_fingerprint E b) ta" "b1 = send_dm E b (node_fingerprint E a) tb"
  shows "\<exists>b2 a2 b3. sends E a a1 NoiseHandshake (node_eph_id b) m1 \<and> sends E b b1 NoiseHandshake (node_eph_id a) w1
    \<and> handle_noise_handshake E a1 r1 = Ret a1
    \<and> handle_noise_handshake E b1 p1 = Ret b2 \<and> sends E b1 b2 NoiseHandshake (node_eph_id a) m2
    \<and> handle_noise_handshake E a1 p2 = Ret a2 \<and> sends E a1 a2 NoiseHandshake (node_eph_id b) m3 \<and> sends E a1 a2 DirectMessage (node_eph_id b) ca
    \<and> handle_noise_handshake E b2 p3 = Ret b3 \<and> sends E b2 b3 DirectMessage (node_eph_id a) cb
    \<and> DmSession (node_fingerprint E b) True \<in> set (events a2) \<and> DmSession (node_fingerprint E a) True \<in> set (events b3)
    \<and> DmReceived (node_fingerprint E a) (node_eph_id a) ta DM_KIND_TEXT \<in> set (events (handle_direct_message E b3 p4))
    \<and> DmReceived (node_fingerprint E b) (node_eph_id b) tb DM_KIND_TEXT \<in> set (events (handle_direct_message E a2 r4))"
proof -
  let ?fa = "node_fingerprint E a" and ?fb = "node_fingerprint E b"
  have facts: "length m2 \<noteq> XX_MSG1_LEN" "length (dh_public (x_public E) (identity a)) = 32" "length (dh_public (x_public E) (identity b)) = 32"
    "ts_remote_static (snow E) tA = Some (dh_public (x_public E) (identity b))"
    "ts_remote_static (snow E) tB = Some (dh_public (x_public E) (identity a))"
    using assms(8) unfolding xx_exchange_def by auto
  obtain s0 s1 s2 q0 q1 q2 where
    s: "new_initiator (snow E) (dh_secret (identity a)) (entropy a) = Inr s0" "write_handshake (snow E) s0 = (Inr m1, s1)" "is_handshaking s1"
    and q: "new_responder (snow E) (dh_secret (identity b)) (Suc (entropy b)) = Inr q0" "read_handshake (snow E) q0 m1 = (Inr (), q1)"
      "is_handshaking q1" "write_handshake (snow E) q1 = (Inr m2, q2)" "is_handshaking q2" "\<not> initiator q2"
    and u: "read_handshake (snow E) s1 m2 = (Inr (), s2)" "is_handshaking s2"
      "write_handshake (snow E) s2 = (Inr m3, \<lparr>inner = Transport tA, initiator = True\<rparr>)"
    and q3: "read_handshake (snow E) q2 m3 = (Inr (), \<lparr>inner = Transport tB, initiator = False\<rparr>)"
    by (rule xx_exchange_sessions [OF assms(8)])
  note oa = dm_opens [OF assms(14,16) s(1,2), where body = ta, folded assms(29)] and ob = dm_opens [OF assms(15,17,9,10), where body = tb, folded assms(30)]
  have kept: "handle_noise_handshake E a1 r1 = Ret a1"
    by (rule glare_kept [OF oa(3) _ oa(1) s(3) opening_initiator [OF s(1,2)] assms(13)]) (use assms(18,24) oa(6,7) in simp_all)
  have eb: "new_responder (snow E) (dh_secret (identity b1)) (entropy b1) = Inr q0" using q(1) ob(4,5) by simp
  obtain b2 where b2: "handle_noise_handshake E b1 p1 = Ret b2" "talking b2 ?fa q2 [tb]" "talk_keeps b1 b2"
    "sends E b1 b2 NoiseHandshake (node_eph_id a) m2"
    by (rule yields_and_answers [OF ob(3) _ ob(1) assms(11) opening_initiator [OF assms(9,10)] assms(12) _ eb q(2-5), of p1])
      (use assms(18,23) ob(6,7) in simp_all)
  obtain a2 where a2: "handle_noise_handshake E a1 p2 = Ret a2" "DmSession ?fb True \<in> set (events a2)"
    "sends E a1 a2 NoiseHandshake (node_eph_id b) m3" "sends E a1 a2 DirectMessage (node_eph_id b) ca" "talking a2 ?fb sA []" "talk_keeps a1 a2"
    by (rule initiator_finishes [OF oa(3) _ oa(1) s(3) facts(1) u facts(4,3) assms(19), of p2]) (use assms(25) oa(6) in simp_all)
  have kb2: "knows E b2 a" by (rule knows_cong [OF ob(3) b2(3) refl])
  note nb2 = talk_keeps_names [OF b2(3), unfolded ob(6,7)]
  obtain b3 where b3: "handle_noise_handshake E b2 p3 = Ret b3" "DmSession ?fa True \<in> set (events b3)" "talking b3 ?fa sB []"
    "talk_keeps b2 b3" "sends E b2 b3 DirectMessage (node_eph_id a) cb"
    by (rule responder_finishes_text [OF kb2 _ b2(2) q(5,6) q3 facts(5,2) assms(21), of p3]) (use assms(26) nb2 in simp_all)
  obtain uA uB rA rB where t: "sA = \<lparr>inner = Transport uA, initiator = True\<rparr>" "sB = \<lparr>inner = Transport uB, initiator = False\<rparr>"
    "decrypt (snow E) sB ca = (Inr (DM_KIND_TEXT # ta), rB)" "decrypt (snow E) sA cb = (Inr (DM_KIND_TEXT # tb), rA)"
    by (rule crossed_texts [OF assms(1-7,19,21)])
  have "DmReceived ?fa (node_eph_id a) ta DM_KIND_TEXT \<in> set (events (handle_direct_message E b3 p4))"
    by (rule text_shown [OF knows_cong [OF kb2 b3(4) refl] _ b3(3) [unfolded t(2)] t(3) [unfolded t(2)] assms(20)])
      (use assms(27) talk_keeps_names(1) [OF b3(4)] nb2 in simp)
  moreover have "DmReceived ?fb (node_eph_id b) tb DM_KIND_TEXT \<in> set (events (handle_direct_message E a2 r4))"
    by (rule text_shown [OF knows_cong [OF oa(3) a2(6) refl] _ a2(5) [unfolded t(1)] t(4) [unfolded t(1)] assms(22)])
      (use assms(28) talk_keeps_names(1) [OF a2(6)] oa(6) in simp)
  ultimately show ?thesis using oa(2) ob(2) kept b2(1,4) a2(1-4) b3(1,2,5) by blast
qed

text \<open>Two nodes that write to each other at once.\<close>

theorem crossing_messages_delivered_witness:
  "\<exists>b2 a2 b3. handle_noise_handshake sample_env (send_dm sample_env (met 1 2) (replicate 32 2) [104, 105])
        (signed_packet sample_env (met 2 1) NoiseHandshake 10 (Some (replicate 8 1)) (replicate 32 0))
      = Ret (send_dm sample_env (met 1 2) (replicate 32 2) [104, 105])
    \<and> handle_noise_handshake sample_env (send_dm sample_env (met 2 1) (replicate 32 1) [111, 107])
        (signed_packet sample_env (met 1 2) NoiseHandshake 10 (Some (replicate 8 2)) (replicate 32 0)) = Ret b2
    \<and> handle_noise_handshake sample_env (send_dm sample_env (met 1 2) (replicate 32 2) [104, 105])
        (signed_packet sample_env (met 2 1) NoiseHandshake 10 (Some (replicate 8 1)) (1 # replicate 32 2)) = Ret a2
    \<and> handle_noise_handshake sample_env b2
        (signed_packet sample_env (met 1 2) NoiseHandshake 10 (Some (replicate 8 2)) (1 # replicate 32 1)) = Ret b3
    \<and> DmReceived (replicate 32 1) (replicate 8 1) [104, 105] DM_KIND_TEXT \<in> set (events (handle_direct_message sample_env b3
        (signed_packet sample_env (met 1 2) DirectMessage 10 (Some (replicate 8 2)) (u64_to_be 0 @ u64_to_be 0 @ [DM_KIND_TEXT, 104, 105]))))
    \<and> DmReceived (replicate 32 2) (replicate 8 2) [111, 107] DM_KIND_TEXT \<in> set (events (handle_direct_message sample_env a2
        (signed_packet sample_env (met 2 1) DirectMessage 10 (Some (replicate 8 1)) (u64_to_be 0 @ u64_to_be 0 @ [DM_KIND_TEXT, 111, 107]))))"
proof -
  let ?a = "met 1 2" and ?b = "met 2 1"
  have x: "xx_exchange (snow sample_env) (dh_secret (identity ?a), entropy ?a) (dh_secret (identity ?b), Suc (entropy ?b))
      (replicate 32 0, 1 # replicate 32 2, 1 # replicate 32 1) ((Some (replicate 32 2), 0, 0), (Some (replicate 32 1), 0, 0))
      (dh_public (x_public sample_env) (identity ?a), dh_public (x_public sample_env) (identity ?b))"
    unfolding sample_snow met_facts by (rule xx_snow_exchange) simp_all
  have e: "encrypt (snow sample_env) \<lparr>inner = Transport (k, 0, 0), initiator = i\<rparr> (DM_KIND_TEXT # t) =
      (Inr (u64_to_be 0 @ u64_to_be 0 @ DM_KIND_TEXT # t), \<lparr>inner = Transport (k, 1, 0), initiator = i\<rparr>)" for k i t
    by (simp add: encrypt_def xx_snow_def Let_def)
  have z: "new_initiator (snow sample_env) (dh_secret (identity ?b)) (entropy ?b) =
      Inr \<lparr>inner = Handshake (True, 0, replicate 32 2, None), initiator = True\<rparr>"
    "write_handshake (snow sample_env) \<lparr>inner = Handshake (True, 0, replicate 32 2, None), initiator = True\<rparr> =
      (Inr (replicate 32 0), \<lparr>inner = Handshake (True, 1, replicate 32 2, None), initiator = True\<rparr>)"
    "is_handshaking (\<lparr>inner = Handshake (True, 1, replicate 32 2, None), initiator = True\<rparr> :: (xx_hs, xx_ts) noise_session)"
    by (simp_all add: new_initiator_def write_handshake_def maybe_transition_def is_handshaking_def xx_snow_def)
  have v: "valid_utf8 [104, 105]" "valid_utf8 [111, 107]" by code_simp+
  have c: "carries (signed_packet sample_env (met k k') t ttl (Some (replicate 8 k')) p) (node_eph_id (met k k')) (node_eph_id (met k' k)) p"
    for k k' t ttl p by (simp add: carries_def)
  have sn: "snow_ok (snow sample_env)" "cipher_pair (snow sample_env) (\<lambda>_. True) (\<lambda>_. True)"
    "receiving_nonce (snow sample_env) (k, 0, 0) \<le> sending_nonce (snow sample_env) (k', 0, 0)" for k k'
    using xx_snow_ok xx_snow_pair by (simp_all add: xx_snow_def)
  have m: "length (replicate 32 (0 :: u8)) = XX_MSG1_LEN" by (simp add: XX_MSG1_LEN_def)
  have lt: "node_fingerprint sample_env ?a < node_fingerprint sample_env ?b" unfolding met_facts by code_simp
  show ?thesis
    using crossing_messages_delivered [OF sn(1,2,2) TrueI TrueI sn(3,3) x z m m met_knows met_knows met_facts(7) met_facts(7) lt e v(1) e v(2)
        c c c c c c refl refl, of NoiseHandshake 10 NoiseHandshake 10 NoiseHandshake 10 NoiseHandshake 10 DirectMessage 10 DirectMessage 10]
    unfolding met_facts by blast
qed

end
