(* ===== verification/Retry.thy ===== *)
theory Retry
  imports Glare Events Sessions
begin

text \<open>
  The timer and handshakes that got no answer: which of them it opens anew, and which it has lost track of.
\<close>

section \<open>Opening a handshake anew\<close>

text \<open>What a node keeps of a handshake with one peer.\<close>

definition handshake_of :: "('hs, 'ts, 's) node \<Rightarrow> bytes \<Rightarrow> ('hs, 'ts) noise_session option \<times> u32 option \<times> millis option
    \<times> rstring list option \<times> eph_id option \<times> bytes list option \<times> unit option" where
  "handshake_of n fp = (bm_get (noise_sessions n) fp, bm_get (handshake_attempts n) fp, bm_get (handshake_last_ms n) fp,
     bm_get (pending_dms n) fp, bm_get (fp_to_eph n) fp, bm_get (pending_inbound_dms n) fp, bm_get (notice_pending n) fp)"

lemma send_directed_same [simp]:
  "noise_sessions (send_directed E n t fp payload) = noise_sessions n" "pending_dms (send_directed E n t fp payload) = pending_dms n"
  "handshake_attempts (send_directed E n t fp payload) = handshake_attempts n" "entropy (send_directed E n t fp payload) = entropy n"
  "handshake_last_ms (send_directed E n t fp payload) = handshake_last_ms n" "clock (send_directed E n t fp payload) = clock n"
  "fp_to_eph (send_directed E n t fp payload) = fp_to_eph n" "notice_pending (send_directed E n t fp payload) = notice_pending n"
  "pending_inbound_dms (send_directed E n t fp payload) = pending_inbound_dms n"
  by (auto simp: send_directed_def Let_def observe_own_def broadcast_eq split: option.splits)

lemma retry_other: "fp' \<noteq> fp \<Longrightarrow> handshake_of (retry_handshake E n fp') fp = handshake_of n fp"
  by (auto simp: retry_handshake_def begin_handshake_def Let_def handshake_of_def split: sum.splits prod.splits)

lemma retry_others: "fp \<notin> set fps \<Longrightarrow> handshake_of (foldl (retry_handshake E) n fps) fp = handshake_of n fp"
  by (induction fps arbitrary: n) (auto simp: retry_other)

text \<open>The timer: the state in which it looks for stalled handshakes, and what it does then.\<close>

lemma tick_retries:
  assumes "tick E n = Ret (d, n')"
  obtains m xs where "n' = retry_stalled_handshakes E m (clock n)" "outbox m = outbox n @ xs" "links m = links n" "identity m = identity n"
    "clock m = clock n" "handshake_attempts m = handshake_attempts n" "handshake_of m = handshake_of n"
    "eph_keys m = eph_keys n" "peer_static_dh m = peer_static_dh n"
proof -
  obtain out sch where du: "due (scheduler n) (clock n) (seen n) = Ret (out, sch)"
    using assms by (auto simp: tick_def and_then_eq_Ret)
  note f = fire_all_eq [of E "n\<lparr>scheduler := sch\<rparr>" out]
  let ?m = "(foldl (fire_relay E) (n\<lparr>scheduler := sch\<rparr>) out)\<lparr>seen := snd (evict_expired_seen (seen n) (clock n)),
     n_reassembler := snd (evict_expired_slots (n_reassembler n) (clock n))\<rparr>"
  show ?thesis
  proof (rule that)
    show "n' = retry_stalled_handshakes E ?m (clock n)" using assms du by (simp add: tick_def Let_def f)
  qed (simp_all add: f handshake_of_def fun_eq_iff)
qed

lemma stalled_cong: "handshake_of m = handshake_of n \<Longrightarrow> stalled m t fp = stalled n t fp"
  by (auto simp: handshake_of_def stalled_def session_ready_def bm_contains_def fun_eq_iff)

text \<open>When the timer takes a handshake up, in numbers.\<close>

lemma stalled_iff: "stalled n t fp \<longleftrightarrow>
    \<not> (\<exists>s. bm_get (noise_sessions n) fp = Some s \<and> is_ready s) \<and> bm_get (fp_to_eph n) fp \<noteq> None
    \<and> (case bm_get (handshake_attempts n) fp of None \<Rightarrow> True | Some k \<Rightarrow> unat k < 12)
    \<and> (case bm_get (handshake_last_ms n) fp of None \<Rightarrow> 0 | Some l \<Rightarrow> unat l) + 2000 \<le> unat t"
  by (auto simp: stalled_def session_ready_def bm_contains_def DM_HANDSHAKE_MAX_ATTEMPTS_def DM_HANDSHAKE_RETRY_MS_def
      waited_at_least word_le_nat_alt split: option.splits)

text \<open>Iterating a hash map yields each of its keys once.\<close>

definition hash_order_ok :: "('hs, 'ts, 's) env \<Rightarrow> bool" where
  "hash_order_ok E \<longleftrightarrow> (\<forall>xs. mset (hash_order E xs) = mset xs)"

lemma hash_order_okD:
  assumes "hash_order_ok E"
  shows "set (hash_order E xs) = set xs" "distinct xs \<Longrightarrow> distinct (hash_order E xs)"
  using assms mset_eq_setD [of "hash_order E xs" xs] mset_eq_imp_distinct_iff [of "hash_order E xs" xs] by (simp_all add: hash_order_ok_def)

text \<open>A handshake the timer takes up again: a new first message, one more attempt, and the time noted.\<close>

definition opens_anew :: "('hs, 'ts, 's) env \<Rightarrow> ('hs, 'ts, 's) node \<Rightarrow> bytes \<Rightarrow> eph_id \<Rightarrow> ('hs, 'ts, 's) node \<Rightarrow> bool" where
  "opens_anew E n fp r n' \<longleftrightarrow> (\<exists>e s0 msg s1. new_initiator (snow E) (dh_secret (identity n)) e = Inr s0 \<and> write_handshake (snow E) s0 = (Inr msg, s1)
     \<and> handshake_of n' fp = (Some s1, Some ((case bm_get (handshake_attempts n) fp of Some k \<Rightarrow> k | None \<Rightarrow> 0) + 1), Some (clock n),
         bm_get (pending_dms n) fp, Some r, bm_get (pending_inbound_dms n) fp, bm_get (notice_pending n) fp)
     \<and> sends E n n' NoiseHandshake r msg)"

lemma retry_opens_anew:
  assumes "bm_get (fp_to_eph n) fp = Some r"
    and "new_initiator (snow E) (dh_secret (identity n)) (entropy n) = Inr s0" "write_handshake (snow E) s0 = (Inr msg, s1)"
  shows "opens_anew E n fp r (retry_handshake E n fp)"
proof -
  let ?n = "n\<lparr>noise_sessions := bm_remove fp (noise_sessions n)\<rparr>"
  let ?m = "?n\<lparr>entropy := Suc (entropy ?n), noise_sessions := bm_insert fp s1 (noise_sessions ?n)\<rparr>"
  let ?d = "send_directed E ?m NoiseHandshake fp msg"
  have eq: "retry_handshake E n fp = ?d\<lparr>handshake_last_ms := bm_insert fp (clock ?d) (handshake_last_ms ?d),
      handshake_attempts := bm_insert fp ((case bm_get (handshake_attempts ?d) fp of Some k \<Rightarrow> k | None \<Rightarrow> 0) + 1) (handshake_attempts ?d)\<rparr>"
    using assms(2,3) by (simp add: retry_handshake_def begin_handshake_def Let_def)
  have "talk_keeps n ?m" by (simp add: talk_keeps_def)
  moreover have "bm_get (fp_to_eph ?m) fp = Some r" using assms(1) by simp
  ultimately have "sends E n ?d NoiseHandshake r msg" by (rule sends_before [OF _ send_directed_sends])
  then have "sends E n (retry_handshake E n fp) NoiseHandshake r msg" unfolding eq by (rule sends_after) (simp add: talk_keeps_def)
  moreover have "handshake_of (retry_handshake E n fp) fp =
      (Some s1, Some ((case bm_get (handshake_attempts n) fp of Some k \<Rightarrow> k | None \<Rightarrow> 0) + 1), Some (clock n), bm_get (pending_dms n) fp, Some r,
       bm_get (pending_inbound_dms n) fp, bm_get (notice_pending n) fp)"
    unfolding eq using assms(1) by (simp add: handshake_of_def)
  ultimately show ?thesis using assms(2,3) unfolding opens_anew_def by blast
qed

lemma opens_anew_cong:
  assumes "opens_anew E m fp r n'" "identity m = identity n" "clock m = clock n" "handshake_of m fp = handshake_of n fp"
    and "\<And>msg. sends E m n' NoiseHandshake r msg \<Longrightarrow> sends E n n' NoiseHandshake r msg"
  shows "opens_anew E n fp r n'"
proof -
  let ?k = "\<lambda>n. case bm_get (handshake_attempts n) fp of Some k \<Rightarrow> k | None \<Rightarrow> 0"
  obtain e s0 msg s1 where o: "new_initiator (snow E) (dh_secret (identity m)) e = Inr s0" "write_handshake (snow E) s0 = (Inr msg, s1)"
    "handshake_of n' fp = (Some s1, Some (?k m + 1), Some (clock m), bm_get (pending_dms m) fp, Some r, bm_get (pending_inbound_dms m) fp,
       bm_get (notice_pending m) fp)" "sends E m n' NoiseHandshake r msg"
    using assms(1) unfolding opens_anew_def by blast
  have "bm_get (handshake_attempts m) fp = bm_get (handshake_attempts n) fp" "bm_get (pending_dms m) fp = bm_get (pending_dms n) fp"
    "bm_get (pending_inbound_dms m) fp = bm_get (pending_inbound_dms n) fp" "bm_get (notice_pending m) fp = bm_get (notice_pending n) fp"
    using assms(4) by (simp_all add: handshake_of_def)
  with o assms(2,3) have "handshake_of n' fp = (Some s1, Some (?k n + 1), Some (clock n), bm_get (pending_dms n) fp, Some r,
      bm_get (pending_inbound_dms n) fp, bm_get (notice_pending n) fp)" by simp
  moreover have "new_initiator (snow E) (dh_secret (identity n)) e = Inr s0" using o(1) assms(2) by simp
  ultimately show ?thesis unfolding opens_anew_def using o(2) assms(5) [OF o(4)] by blast
qed

lemma retry_keeps: "talk_keeps n (retry_handshake E n fp)"
proof -
  have "talk_keeps n (n\<lparr>noise_sessions := bm_remove fp (noise_sessions n)\<rparr>)" by (simp add: talk_keeps_def)
  then show ?thesis unfolding retry_handshake_def by (rule tk.r_trans) (rule tk.r_begin_handshake)
qed

lemma retries_keep: "talk_keeps n (foldl (retry_handshake E) n fps)"
  by (rule tk.r_foldl) (rule retry_keeps)

text \<open>Each handshake on the list is opened anew, once, whatever comes before and after it.\<close>

lemma retries_open_anew:
  assumes "fp \<in> set fps" "distinct fps" "bm_get (fp_to_eph n) fp = Some r"
    and "\<And>e. \<exists>s0 msg s1. new_initiator (snow E) (dh_secret (identity n)) e = Inr s0 \<and> write_handshake (snow E) s0 = (Inr msg, s1)"
  shows "opens_anew E n fp r (foldl (retry_handshake E) n fps)"
proof -
  obtain us vs where fps: "fps = us @ fp # vs" "fp \<notin> set us" "fp \<notin> set vs" using split_list [OF assms(1)] assms(2) by auto
  let ?m = "foldl (retry_handshake E) n us"
  let ?n' = "foldl (retry_handshake E) (retry_handshake E ?m fp) vs"
  have h: "handshake_of ?m fp = handshake_of n fp" by (rule retry_others [OF fps(2)])
  have k: "talk_keeps n ?m" by (rule retries_keep)
  obtain s0 msg s1 where "new_initiator (snow E) (dh_secret (identity ?m)) (entropy ?m) = Inr s0" "write_handshake (snow E) s0 = (Inr msg, s1)"
    using assms(4) talk_keepsD(1) [OF k] by metis
  from retry_opens_anew [OF _ this] assms(3) h have o: "opens_anew E ?m fp r (retry_handshake E ?m fp)" by (simp add: handshake_of_def)
  have "handshake_of ?n' fp = handshake_of (retry_handshake E ?m fp) fp" by (rule retry_others [OF fps(3)])
  with o have "opens_anew E ?m fp r ?n'" unfolding opens_anew_def using sends_after [OF _ retries_keep] by metis
  then have "opens_anew E n fp r ?n'"
    by (rule opens_anew_cong) (use h talk_keepsD(1,3) [OF k] sends_before [OF k] in simp_all)
  then show ?thesis by (simp add: fps(1))
qed

lemma retried:
  assumes "hash_order_ok E" "node_ok n" "bm_ok (handshake_attempts n)"
    and "\<And>e. \<exists>s0 msg s1. new_initiator (snow E) (dh_secret (identity n)) e = Inr s0 \<and> write_handshake (snow E) s0 = (Inr msg, s1)"
  shows "\<exists>d n'. tick E n = Ret (d, n') \<and> (\<forall>fp.
    if bm_contains (handshake_attempts n) fp \<and> stalled n (clock n) fp
    then \<exists>r. bm_get (fp_to_eph n) fp = Some r \<and> opens_anew E n fp r n' else handshake_of n' fp = handshake_of n fp)"
proof -
  obtain d n' where t: "tick E n = Ret (d, n')" using tick_ok [OF assms(2)] by blast
  obtain m xs where m: "n' = retry_stalled_handshakes E m (clock n)" "outbox m = outbox n @ xs" "links m = links n" "identity m = identity n"
    "clock m = clock n" "handshake_attempts m = handshake_attempts n" "handshake_of m = handshake_of n"
    "eph_keys m = eph_keys n" "peer_static_dh m = peer_static_dh n"
    by (rule tick_retries [OF t])
  let ?fps = "filter (stalled m (clock n)) (hash_order E (map fst (handshake_attempts m)))"
  have n': "n' = foldl (retry_handshake E) m ?fps" by (simp add: m(1) retry_stalled_handshakes_def)
  have fps: "distinct ?fps" "fp \<in> set ?fps \<longleftrightarrow> bm_contains (handshake_attempts n) fp \<and> stalled n (clock n) fp" for fp
    using hash_order_okD [OF assms(1)] bm_ok_distinct [OF assms(3)] by (force simp: m(6) stalled_cong [OF m(7)] bm_contains_def dest: bm_get_fst)+
  have calls: "broadcast_calls E m = broadcast_calls E n" "signed_packet E m = signed_packet E n"
    using m(3-5) by (simp_all add: broadcast_calls_def signed_packet_def node_eph_id_def fun_eq_iff)
  have "\<exists>r. bm_get (fp_to_eph n) fp = Some r \<and> opens_anew E n fp r n'" if "fp \<in> set ?fps" for fp
  proof -
    have "stalled n (clock n) fp" using that fps(2) by blast
    then obtain r where r: "bm_get (fp_to_eph n) fp = Some r" by (auto simp: stalled_def bm_contains_def)
    then have "bm_get (fp_to_eph m) fp = Some r" using m(7) by (simp add: handshake_of_def fun_eq_iff)
    then have "opens_anew E m fp r n'" unfolding n' by (rule retries_open_anew [OF that fps(1)]) (use assms(4) m(4) in simp)
    then have "opens_anew E n fp r n'"
    proof (rule opens_anew_cong)
      show "sends E n n' NoiseHandshake r msg" if "sends E m n' NoiseHandshake r msg" for msg
        using that unfolding sends_def calls m(2) by (metis append.assoc)
    qed (simp_all add: m)
    with r show ?thesis by blast
  qed
  moreover have "handshake_of n' fp = handshake_of n fp" if "fp \<notin> set ?fps" for fp
    unfolding n' retry_others [OF that] m(7) ..
  ultimately have "if fp \<in> set ?fps then \<exists>r. bm_get (fp_to_eph n) fp = Some r \<and> opens_anew E n fp r n' else handshake_of n' fp = handshake_of n fp"
    for fp by simp
  then show ?thesis unfolding fps(2) using t by blast
qed

section \<open>Retries that stop\<close>

text \<open>A handshake the node has opened, waiting for an answer, that the timer does not know of.\<close>

definition wedged :: "('hs, 'ts, 's) node \<Rightarrow> bytes \<Rightarrow> ('hs, 'ts) noise_session \<Rightarrow> rstring \<Rightarrow> bool" where
  "wedged n fp s body \<longleftrightarrow> bm_get (noise_sessions n) fp = Some s \<and> is_handshaking s \<and> initiator s \<and> bm_contains (fp_to_eph n) fp
     \<and> bm_get (handshake_attempts n) fp = None \<and> body \<in> set (get_or_default (pending_dms n) fp)"

text \<open>What can happen while a node waits for the answer of \<open>fp\<close>: time and its timer, further commands of the
  user for that peer, and packets of the peer that do not continue the handshake.\<close>

inductive waits :: "('hs, 'ts, 's) env \<Rightarrow> bytes \<Rightarrow> ('hs, 'ts, 's) node \<Rightarrow> ('hs, 'ts, 's) node \<Rightarrow> bool"
  for E :: "('hs, 'ts, 's) env" and fp :: bytes where
  WaitTick: "tick E n = Ret (d, n') \<Longrightarrow> waits E fp n n'"
| WaitClock: "waits E fp n (n\<lparr>clock := t\<rparr>)"
| WaitSend: "waits E fp n (send_dm E n fp body)"
| WaitStart: "waits E fp n (start_dm_session E n fp)"
| WaitOpening: "eph_to_fp E n (p_sender pkt) = Some fp \<Longrightarrow> length (p_payload pkt) = XX_MSG1_LEN \<Longrightarrow> node_fingerprint E n < fp \<Longrightarrow>
    handle_noise_handshake E n pkt = Ret n' \<Longrightarrow> waits E fp n n'"
| WaitMessage: "eph_to_fp E n (p_sender pkt) = Some fp \<Longrightarrow> waits E fp n (handle_direct_message E n pkt)"

lemma wedged_not_ready: "wedged n fp s body \<Longrightarrow> \<not> session_ready n fp"
  by (simp add: wedged_def session_ready_def handshaking_not_ready)

lemma wedged_send:
  assumes "bm_get (noise_sessions n) fp = Some s" "is_handshaking s" "initiator s" "bm_contains (fp_to_eph n) fp"
  shows "wedged (send_dm E n fp body) fp s body" "outbox (send_dm E n fp body) = outbox n"
  using assms by (simp_all add: wedged_def send_dm_def Let_def store_dm_def session_ready_def handshaking_not_ready bm_contains_def get_or_default_def)

lemma wedged_waits:
  assumes "hash_order_ok E" "waits E fp n n'" "wedged n fp s body"
  shows "wedged n' fp s body"
  using assms(2)
proof cases
  case (WaitTick d)
  from tick_retries [OF this] obtain m where m: "n' = retry_stalled_handshakes E m (clock n)" "handshake_attempts m = handshake_attempts n"
    "handshake_of m = handshake_of n" by metis
  have "fp \<notin> fst ` set (handshake_attempts n)"
    using assms(3) by (metis bm_contains_def dom_map_of_conv_image_fst domIff wedged_def)
  then have "handshake_of n' fp = handshake_of n fp"
    unfolding m(1) retry_stalled_handshakes_def m(2) using hash_order_okD(1) [OF assms(1)] m(3) by (subst retry_others) auto
  then show ?thesis using assms(3) by (simp add: wedged_def handshake_of_def bm_contains_def get_or_default_def)
next
  case (WaitSend body')
  then show ?thesis using assms(3) wedged_not_ready [OF assms(3)]
    by (auto simp: wedged_def send_dm_def Let_def store_dm_def session_ready_def bm_contains_def get_or_default_def)
next
  case WaitStart
  then show ?thesis using assms(3) wedged_not_ready [OF assms(3)] by (auto simp: wedged_def start_dm_session_def bm_contains_def)
next
  case (WaitOpening pkt)
  then have "n' = n" using assms(3) wedged_not_ready [OF assms(3)]
    by (auto simp: wedged_def handle_noise_handshake_def glare_def split: if_splits)
  then show ?thesis using assms(3) by simp
next
  case (WaitMessage pkt)
  then show ?thesis using assms(3) wedged_not_ready [OF assms(3)]
    by (auto simp: wedged_def handle_direct_message_def Let_def bm_contains_def)
qed (use assms(3) in \<open>simp add: wedged_def\<close>)

section \<open>Properties of retries\<close>

text \<open>C4: the timer takes up exactly the stalled handshakes.  A peer on the list of attempts whose address is known,
  with which there is no ready session, on which fewer than twelve attempts were made, and for which at
  least two seconds have passed since its last progress (since time zero, where none is noted), gets a new first message, on every
  link, over a new session, and the attempt and its time are noted; the handshake with any other peer stays as it is.\<close>

theorem stalled_handshakes_retried:
  assumes "hash_order_ok E" "node_ok n" "bm_ok (handshake_attempts n)"
    and "\<And>e. \<exists>s0 msg s1. new_initiator (snow E) (dh_secret (identity n)) e = Inr s0 \<and> write_handshake (snow E) s0 = (Inr msg, s1)"
  shows "\<exists>d n'. tick E n = Ret (d, n') \<and> (\<forall>fp.
    case (bm_get (handshake_attempts n) fp, bm_get (fp_to_eph n) fp) of
      (Some k, Some r) \<Rightarrow>
        if \<not> (\<exists>s. bm_get (noise_sessions n) fp = Some s \<and> is_ready s) \<and> unat k < 12
          \<and> (case bm_get (handshake_last_ms n) fp of None \<Rightarrow> 0 | Some t \<Rightarrow> unat t) + 2000 \<le> unat (clock n)
        then opens_anew E n fp r n' else handshake_of n' fp = handshake_of n fp
    | _ \<Rightarrow> handshake_of n' fp = handshake_of n fp)"
proof -
  obtain d n' where n': "tick E n = Ret (d, n')" and h: "\<And>fp. if bm_contains (handshake_attempts n) fp \<and> stalled n (clock n) fp
      then \<exists>r. bm_get (fp_to_eph n) fp = Some r \<and> opens_anew E n fp r n' else handshake_of n' fp = handshake_of n fp"
    using retried [OF assms] by blast
  show ?thesis
  proof (rule exI [of _ d], rule exI [of _ n'], intro conjI allI, rule n')
    fix fp
    show "case (bm_get (handshake_attempts n) fp, bm_get (fp_to_eph n) fp) of
      (Some k, Some r) \<Rightarrow>
        if \<not> (\<exists>s. bm_get (noise_sessions n) fp = Some s \<and> is_ready s) \<and> unat k < 12
          \<and> (case bm_get (handshake_last_ms n) fp of None \<Rightarrow> 0 | Some t \<Rightarrow> unat t) + 2000 \<le> unat (clock n)
        then opens_anew E n fp r n' else handshake_of n' fp = handshake_of n fp
    | _ \<Rightarrow> handshake_of n' fp = handshake_of n fp"
      using h [of fp] by (cases "bm_get (handshake_attempts n) fp"; cases "bm_get (fp_to_eph n) fp")
        (auto simp: stalled_iff bm_contains_def simp del: not_ex split: if_splits)
  qed
qed

text \<open>A first message whose handshake is lost, and the timer two seconds later.\<close>

lemma sample_dm:
  defines "n \<equiv> send_dm sample_env (met 1 2) (replicate 32 2) [104, 105]"
  shows "noise_sessions n = [(replicate 32 2, sample_opening)]" "handshake_attempts n = [(replicate 32 2, 1)]"
    "handshake_last_ms n = [(replicate 32 2, 1000)]" "fp_to_eph n = [(replicate 32 2, replicate 8 2)]" "node_ok n" "identity n = identity (met 1 2)"
proof -
  have i: "idle (met 1 2) (replicate 32 2)" "bm_get (fp_to_eph (met 1 2)) (replicate 32 2) = Some (replicate 8 2)"
    "noise_sessions (met 1 2) = []" "handshake_attempts (met 1 2) = []" "handshake_last_ms (met 1 2) = []" "clock (met 1 2) = 1000"
    "fp_to_eph (met 1 2) = [(replicate 32 2, replicate 8 2)]"
    by (simp_all add: met_def sample_node_def node_new_def idle_def)
  note f = send_dm_def Let_def store_dm_def session_ready_def begin_handshake_def bm_contains_def xx_sessions(1,2)
  show "noise_sessions n = [(replicate 32 2, sample_opening)]" "handshake_attempts n = [(replicate 32 2, 1)]"
    "handshake_last_ms n = [(replicate 32 2, 1000)]" "fp_to_eph n = [(replicate 32 2, replicate 8 2)]"
    using i by (simp_all add: n_def f)
  have "keeps (met 1 2) n" unfolding n_def by (rule keeps_send_dm)
  moreover have "node_ok (sample_node 1)" by (simp add: sample_node_def node_new_ok)
  then have "node_ok (met 1 2)" by (simp add: met_def node_ok_def parts_ok_def)
  ultimately show "node_ok n" by (rule keeps_node_ok)
  show "identity n = identity (met 1 2)" unfolding n_def by (rule talk_keepsD(1) [OF tk.r_send_dm])
qed

theorem stalled_handshakes_retried_witness:
  "\<exists>d n'. tick sample_env ((send_dm sample_env (met 1 2) (replicate 32 2) [104, 105])\<lparr>clock := 3000\<rparr>) = Ret (d, n')
    \<and> opens_anew sample_env ((send_dm sample_env (met 1 2) (replicate 32 2) [104, 105])\<lparr>clock := 3000\<rparr>) (replicate 32 2) (replicate 8 2) n'"
proof -
  let ?n = "(send_dm sample_env (met 1 2) (replicate 32 2) [104, 105])\<lparr>clock := 3000\<rparr>" and ?fp = "replicate 32 2 :: bytes"
  have o: "hash_order_ok sample_env" by (simp add: hash_order_ok_def sample_env_def)
  have ok: "node_ok ?n" "bm_ok (handshake_attempts ?n)" using sample_dm(2,5) by (simp_all add: node_ok_def parts_ok_def bm_ok_def)
  have new: "\<exists>s0 msg s1. new_initiator (snow sample_env) (dh_secret (identity ?n)) e = Inr s0 \<and> write_handshake (snow sample_env) s0 = (Inr msg, s1)" for e
    using xx_sessions(1,2) by auto
  obtain d n' where t: "tick sample_env ?n = Ret (d, n')" and h: "case (bm_get (handshake_attempts ?n) ?fp, bm_get (fp_to_eph ?n) ?fp) of
      (Some k, Some r) \<Rightarrow>
        if \<not> (\<exists>s. bm_get (noise_sessions ?n) ?fp = Some s \<and> is_ready s) \<and> unat k < 12
          \<and> (case bm_get (handshake_last_ms ?n) ?fp of None \<Rightarrow> 0 | Some t \<Rightarrow> unat t) + 2000 \<le> unat (clock ?n)
        then opens_anew sample_env ?n ?fp r n' else handshake_of n' ?fp = handshake_of ?n ?fp
    | _ \<Rightarrow> handshake_of n' ?fp = handshake_of ?n ?fp"
    using stalled_handshakes_retried [OF o ok new] by blast
  have "opens_anew sample_env ?n ?fp (replicate 8 2) n'" using h sample_dm(1-4) by (simp add: is_ready_def)
  with t show ?thesis by blast
qed
text \<open>C6: a second message ends the retries.  A message to a peer whose handshake is still waiting for an answer
  takes the peer off the list the timer goes through, and sends nothing: from then on, for as long as only
  time passes, the timer runs, the user writes to the peer or opens a session with it, and the peer
  sends messages of its own or, having the higher fingerprint, first handshake messages, the session stays the one that waits,
  the handshake is never tried again, and the text is never sent.\<close>

theorem second_message_ends_retries:
  assumes "hash_order_ok E"
    and "bm_get (noise_sessions n) fp = Some s" "is_handshaking s" "initiator s" "bm_contains (fp_to_eph n) fp"
    and "(waits E fp)\<^sup>*\<^sup>* (send_dm E n fp body) n'"
  shows "outbox (send_dm E n fp body) = outbox n \<and> bm_get (noise_sessions n') fp = Some s \<and> bm_get (handshake_attempts n') fp = None
    \<and> body \<in> set (get_or_default (pending_dms n') fp)"
proof -
  note w = wedged_send [OF assms(2-5), of E body]
  from assms(6) have "wedged n' fp s body"
    by (induction rule: rtranclp_induct) (use w(1) wedged_waits [OF assms(1)] in blast)+
  with w(2) show ?thesis by (simp add: wedged_def)
qed

text \<open>Two messages in a row to a peer that has not answered, and a day of timers.\<close>

theorem second_message_ends_retries_witness:
  "\<exists>d n'. tick sample_env ((send_dm sample_env (send_dm sample_env (met 1 2) (replicate 32 2) [104, 105]) (replicate 32 2) [63])\<lparr>clock := 86400000\<rparr>) = Ret (d, n')
    \<and> bm_get (noise_sessions n') (replicate 32 2) = Some sample_opening \<and> [63] \<in> set (get_or_default (pending_dms n') (replicate 32 2))"
proof -
  let ?fp = "replicate 32 2 :: bytes"
  let ?n = "send_dm sample_env (met 1 2) ?fp [104, 105]"
  let ?m = "(send_dm sample_env ?n ?fp [63])\<lparr>clock := 86400000\<rparr>"
  have "node_ok (send_dm sample_env ?n ?fp [63])" by (rule keeps_node_ok [OF keeps_send_dm sample_dm(5)])
  then have "node_ok ?m" by (simp add: node_ok_def parts_ok_def)
  then obtain d n' where t: "tick sample_env ?m = Ret (d, n')" using tick_ok by blast
  have r: "(waits sample_env ?fp)\<^sup>*\<^sup>* (send_dm sample_env ?n ?fp [63]) n'"
    using waits.WaitClock waits.WaitTick [OF t] by (rule converse_rtranclp_into_rtranclp [OF _ r_into_rtranclp])
  have o: "hash_order_ok sample_env" by (simp add: hash_order_ok_def sample_env_def)
  have s: "bm_get (noise_sessions ?n) ?fp = Some sample_opening" "is_handshaking sample_opening" "initiator sample_opening"
    "bm_contains (fp_to_eph ?n) ?fp"
    using sample_dm(1,4) by (simp_all add: is_handshaking_def bm_contains_def)
  from second_message_ends_retries [OF o s r] t show ?thesis by blast
qed

end
