(* ===== verification/Resync.thy ===== *)
theory Resync
  imports Retry
begin

text \<open>
  A pair of nodes of which one has lost its half of a session: its first handshake is passed over, and when the
  timer opens it anew the peer gives up the session nobody can use and answers.
\<close>

section \<open>The two sides\<close>

text \<open>The count and the time of a first attempt.\<close>

lemma send_dm_counts:
  assumes "bm_get (fp_to_eph n) fp = Some r" "idle n fp"
    "new_initiator (snow E) (dh_secret (identity n)) (entropy n) = Inr s0" "write_handshake (snow E) s0 = (Inr msg, s1)"
    "bm_get (handshake_attempts n) fp = None"
  shows "handshake_attempts (send_dm E n fp body) = bm_insert fp 1 (handshake_attempts n)"
    "handshake_last_ms (send_dm E n fp body) = bm_insert fp (clock n) (handshake_last_ms n)"
  using assms by (simp_all add: send_dm_def Let_def store_dm_def session_ready_def idle_def bm_contains_def begin_handshake_def)

text \<open>A handshake that was opened two seconds ago and got no answer is opened anew.\<close>

lemma reopens:
  fixes E :: "('hs, 'ts, 's) env"
  assumes "hash_order_ok E" "node_ok n" "bm_ok (handshake_attempts n)"
    and "\<And>e. \<exists>s0 msg s1. new_initiator (snow E) (dh_secret (identity n)) e = Inr s0 \<and> write_handshake (snow E) s0 = (Inr msg, s1)"
    and "knows E n peer" "talking n (node_fingerprint E peer) s ps" "\<not> is_ready s" "bm_get (handshake_attempts n) (node_fingerprint E peer) = Some 1"
    and "bm_get (handshake_last_ms n) (node_fingerprint E peer) = Some t0" "DM_HANDSHAKE_RETRY_MS \<le> saturating_sub (clock n) t0"
  obtains d n' e s0 msg s1 where "tick E n = Ret (d, n')" "new_initiator (snow E) (dh_secret (identity n)) e = Inr s0"
    "write_handshake (snow E) s0 = (Inr msg, s1)" "sends E n n' NoiseHandshake (node_eph_id peer) msg"
    "talking n' (node_fingerprint E peer) s1 ps" "knows E n' peer" "node_eph_id n' = node_eph_id n"
proof -
  let ?fp = "node_fingerprint E peer"
  have k: "bm_get (fp_to_eph n) ?fp = Some (node_eph_id peer)" using assms(5) by (simp add: knows_def)
  have st: "bm_contains (handshake_attempts n) ?fp \<and> stalled n (clock n) ?fp"
    using assms(6-10) k talking_ready [OF assms(6)]
    by (simp add: stalled_def bm_contains_def DM_HANDSHAKE_MAX_ATTEMPTS_def word_le_nat_alt)
  obtain d n' where t: "tick E n = Ret (d, n')" and o: "opens_anew E n ?fp (node_eph_id peer) n'"
    using retried [OF assms(1-4)] st k by (metis option.inject)
  obtain e s0 msg s1 where s: "new_initiator (snow E) (dh_secret (identity n)) e = Inr s0" "write_handshake (snow E) s0 = (Inr msg, s1)"
    "sends E n n' NoiseHandshake (node_eph_id peer) msg"
    and h: "handshake_of n' ?fp = (Some s1, Some (1 + 1), Some (clock n), bm_get (pending_dms n) ?fp, Some (node_eph_id peer),
      bm_get (pending_inbound_dms n) ?fp, bm_get (notice_pending n) ?fp)"
    using o assms(8) unfolding opens_anew_def by auto
  obtain m where m: "n' = retry_stalled_handshakes E m (clock n)" "identity m = identity n" "handshake_of m = handshake_of n"
    "eph_keys m = eph_keys n" "peer_static_dh m = peer_static_dh n"
    using tick_retries [OF t] by metis
  have km: "talk_keeps m n'" unfolding m(1) by (rule tk.r_retry_stalled)
  show ?thesis
  proof (rule that [OF t s])
    show "talking n' ?fp s1 ps" using h assms(6) by (simp add: talking_def handshake_of_def get_or_default_def)
    have "knows E m peer" using assms(5) m by (simp add: knows_def handshake_of_def fun_eq_iff)
    then show "knows E n' peer" by (rule knows_cong [OF _ km refl])
    show "node_eph_id n' = node_eph_id n" using talk_keepsD(1) [OF km] m(2) by (simp add: node_eph_id_def)
  qed
qed

text \<open>A ready session: the first message of a new handshake is passed over, the second one is answered.\<close>

lemma passes_over:
  assumes "knows E b a" "talking b (node_fingerprint E a) z ps" "is_ready z" "bm_get (resync_pending b) (node_fingerprint E a) = None"
    "carries p (node_eph_id a) (node_eph_id b) msg"
  shows "handle_noise_handshake E b p = Ret (b\<lparr>resync_pending := bm_insert (node_fingerprint E a) 1 (resync_pending b)\<rparr>)"
  using assms knows_fp [OF assms(1)] talking_ready [OF assms(2)]
  by (simp add: handle_noise_handshake_def carries_def RESYNC_HANDSHAKE_THRESHOLD_def)

lemma gives_up_and_answers:
  assumes "knows E b a" "talking b (node_fingerprint E a) z ps" "is_ready z" "bm_get (resync_pending b) (node_fingerprint E a) = Some 1"
    "carries p (node_eph_id a) (node_eph_id b) m1"
    "new_responder (snow E) (dh_secret (identity b)) (entropy b) = Inr q0" "read_handshake (snow E) q0 m1 = (Inr (), q1)"
    "is_handshaking q1" "write_handshake (snow E) q1 = (Inr m2, q2)" "is_handshaking q2"
  obtains b1 where "handle_noise_handshake E b p = Ret b1" "talking b1 (node_fingerprint E a) q2 ps" "talk_keeps b b1"
    "sends E b b1 NoiseHandshake (node_eph_id a) m2"
proof -
  let ?fp = "node_fingerprint E a"
  let ?b = "b\<lparr>resync_pending := bm_remove ?fp (resync_pending b), noise_sessions := bm_remove ?fp (noise_sessions b)\<rparr>"
  have k: "talk_keeps b ?b" by (simp add: talk_keeps_def)
  have t: "bm_get (fp_to_eph ?b) ?fp = Some (node_eph_id a)" "bm_get (noise_sessions ?b) ?fp = None" "get_or_default (pending_dms ?b) ?fp = ps"
    "bm_get (pending_inbound_dms ?b) ?fp = None" "bm_get (notice_pending ?b) ?fp = None"
    "new_responder (snow E) (dh_secret (identity ?b)) (entropy ?b) = Inr q0"
    using assms(1,2,6) by (simp_all add: knows_def talking_def)
  have h: "handle_noise_handshake E b p = answer_handshake E ?b ?fp m1"
    using assms(1-5) knows_fp [OF assms(1)] talking_ready [OF assms(2)]
    by (simp add: handle_noise_handshake_def carries_def RESYNC_HANDSHAKE_THRESHOLD_def glare_def)
  obtain b1 where b1: "answer_handshake E ?b ?fp m1 = Ret b1" "talking b1 ?fp q2 ps" "talk_keeps ?b b1" "sends E ?b b1 NoiseHandshake (node_eph_id a) m2"
    by (rule answer_opens [OF t assms(7-10)])
  show ?thesis by (rule that) (use h b1 tk.r_trans [OF k b1(3)] sends_before [OF k b1(4)] in simp_all)
qed

text \<open>Both first messages, one after the other.\<close>

lemma stale_session_answers:
  assumes "knows E b a" "talking b (node_fingerprint E a) z ps" "is_ready z" "bm_get (resync_pending b) (node_fingerprint E a) = None"
    "carries p0 (node_eph_id a) (node_eph_id b) m0" "carries p1 (node_eph_id a) (node_eph_id b) m1"
    "new_responder (snow E) (dh_secret (identity b)) (entropy b) = Inr q0" "read_handshake (snow E) q0 m1 = (Inr (), q1)"
    "is_handshaking q1" "write_handshake (snow E) q1 = (Inr m2, q2)" "is_handshaking q2"
  obtains b0 b1 where "handle_noise_handshake E b p0 = Ret b0" "noise_sessions b0 = noise_sessions b"
    "handle_noise_handshake E b0 p1 = Ret b1" "sends E b0 b1 NoiseHandshake (node_eph_id a) m2"
    "knows E b1 a" "node_eph_id b1 = node_eph_id b" "talking b1 (node_fingerprint E a) q2 ps"
proof -
  let ?fa = "node_fingerprint E a"
  let ?b0 = "b\<lparr>resync_pending := bm_insert ?fa 1 (resync_pending b)\<rparr>"
  have b0: "knows E ?b0 a" "talking ?b0 ?fa z ps" "bm_get (resync_pending ?b0) ?fa = Some 1" "node_eph_id ?b0 = node_eph_id b"
    "new_responder (snow E) (dh_secret (identity ?b0)) (entropy ?b0) = Inr q0"
    using assms(1,2,7) by (simp_all add: knows_def talking_def node_eph_id_def)
  obtain b1 where b1: "handle_noise_handshake E ?b0 p1 = Ret b1" "talking b1 ?fa q2 ps" "talk_keeps ?b0 b1"
    "sends E ?b0 b1 NoiseHandshake (node_eph_id a) m2"
    by (rule gives_up_and_answers [OF b0(1,2) assms(3) b0(3) assms(6) [folded b0(4)] b0(5) assms(8-11)])
  show ?thesis
    by (rule that [OF passes_over [OF assms(1-5)] _ b1(1,4) knows_cong [OF b0(1) b1(3) refl] _ b1(2)])
      (use talk_keeps_names(1) [OF b1(3)] b0(4) in simp_all)
qed

text \<open>A first message that gets no answer for two seconds.\<close>

lemma dm_reopens:
  fixes E :: "('hs, 'ts, 's) env" and a1 :: "('hs, 'ts, 's) node"
  assumes "hash_order_ok E" "node_ok a" "bm_ok (handshake_attempts a)"
    and "\<And>e. \<exists>s0 msg s1. new_initiator (snow E) (dh_secret (identity a)) e = Inr s0 \<and> write_handshake (snow E) s0 = (Inr msg, s1) \<and> is_handshaking s1"
    and "knows E a b" "idle a (node_fingerprint E b)" "bm_get (handshake_attempts a) (node_fingerprint E b) = None"
    and "DM_HANDSHAKE_RETRY_MS \<le> saturating_sub t (clock a)" "a1 = send_dm E a (node_fingerprint E b) body"
  obtains d a2 e s0 msg s1 where "tick E (a1\<lparr>clock := t\<rparr>) = Ret (d, a2)" "new_initiator (snow E) (dh_secret (identity a)) e = Inr s0"
    "write_handshake (snow E) s0 = (Inr msg, s1)" "sends E (a1\<lparr>clock := t\<rparr>) a2 NoiseHandshake (node_eph_id b) msg"
    "talking a2 (node_fingerprint E b) s1 [body]" "knows E a2 b" "node_eph_id a2 = node_eph_id a"
proof -
  let ?fb = "node_fingerprint E b" and ?a1 = "a1\<lparr>clock := t\<rparr>"
  obtain z0 m z1 where z: "new_initiator (snow E) (dh_secret (identity a)) (entropy a) = Inr z0" "write_handshake (snow E) z0 = (Inr m, z1)" "is_handshaking z1"
    using assms(4) by blast
  have r: "bm_get (fp_to_eph a) ?fb = Some (node_eph_id b)" using assms(5) by (simp add: knows_def)
  note o1 = dm_opens [OF assms(5,6) z(1,2), where body = body, folded assms(9)]
  note count = send_dm_counts [OF r assms(6) z(1,2) assms(7), of body, folded assms(9)]
  have ok: "node_ok ?a1" "bm_ok (handshake_attempts ?a1)"
    using keeps_node_ok [OF keeps_send_dm assms(2), of E ?fb body] assms(3) by (simp_all add: count node_ok_def parts_ok_def flip: assms(9))
  have new: "\<exists>s0 msg s1. new_initiator (snow E) (dh_secret (identity ?a1)) e = Inr s0 \<and> write_handshake (snow E) s0 = (Inr msg, s1)" for e
    using assms(4) [of e] o1(4) by auto
  have h: "knows E ?a1 b" "talking ?a1 ?fb z1 [body]" "\<not> is_ready z1" "bm_get (handshake_attempts ?a1) ?fb = Some 1"
    "bm_get (handshake_last_ms ?a1) ?fb = Some (clock a)" "DM_HANDSHAKE_RETRY_MS \<le> saturating_sub (clock ?a1) (clock a)"
    using o1(1,3) handshaking_not_ready [OF z(3)] assms(8) by (simp_all add: knows_def talking_def count)
  obtain d a2 e s0 msg s1 where a2: "tick E ?a1 = Ret (d, a2)" "new_initiator (snow E) (dh_secret (identity ?a1)) e = Inr s0"
    "write_handshake (snow E) s0 = (Inr msg, s1)" "sends E ?a1 a2 NoiseHandshake (node_eph_id b) msg"
    "talking a2 ?fb s1 [body]" "knows E a2 b" "node_eph_id a2 = node_eph_id ?a1"
    by (rule reopens [OF assms(1) ok new h])
  have "new_initiator (snow E) (dh_secret (identity a)) e = Inr s0" using a2(2) o1(4) by simp
  moreover have "node_eph_id a2 = node_eph_id a" using a2(7) o1(6) by (simp add: node_eph_id_def)
  ultimately show ?thesis using that a2(1,3-6) by blast
qed

text \<open>The states of an exchange that begins with a given opening.\<close>

lemma xx_exchange_opens:
  assumes "xx_exchange sn (a, ea) (b, eb) (m1, m2, m3) (tA, tB) (pa, pb)" "new_initiator sn a ea = Inr s0" "write_handshake sn s0 = (Inr msg, s1)"
  obtains s2 q0 q1 q2 where "msg = m1" "is_handshaking s1" "new_responder sn b eb = Inr q0" "read_handshake sn q0 m1 = (Inr (), q1)"
    "is_handshaking q1" "write_handshake sn q1 = (Inr m2, q2)" "is_handshaking q2" "\<not> initiator q2"
    "read_handshake sn s1 m2 = (Inr (), s2)" "is_handshaking s2"
    "write_handshake sn s2 = (Inr m3, \<lparr>inner = Transport tA, initiator = True\<rparr>)"
    "read_handshake sn q2 m3 = (Inr (), \<lparr>inner = Transport tB, initiator = False\<rparr>)"
proof (rule xx_exchange_sessions [OF assms(1)])
  fix s0' s1' s2 q0 q1 q2
  assume o: "new_initiator sn a ea = Inr s0'" "write_handshake sn s0' = (Inr m1, s1')" "is_handshaking s1'"
    and r: "new_responder sn b eb = Inr q0" "read_handshake sn q0 m1 = (Inr (), q1)" "is_handshaking q1"
      "write_handshake sn q1 = (Inr m2, q2)" "is_handshaking q2" "\<not> initiator q2"
    and u: "read_handshake sn s1' m2 = (Inr (), s2)" "is_handshaking s2" "write_handshake sn s2 = (Inr m3, \<lparr>inner = Transport tA, initiator = True\<rparr>)"
    and w: "read_handshake sn q2 m3 = (Inr (), \<lparr>inner = Transport tB, initiator = False\<rparr>)"
  have "s1' = s1" "msg = m1" using o(1,2) assms(2,3) by auto
  then show ?thesis using that o(3) r u w by blast
qed

lemma xx_exchange_initiator:
  assumes "xx_exchange sn (a, ea) (b, eb) (m1, m2, m3) (tA, tB) (pa, pb)"
  obtains s0 s1 where "new_initiator sn a ea = Inr s0" "write_handshake sn s0 = (Inr m1, s1)" "is_handshaking s1"
  by (rule xx_exchange_sessions [OF assms])

section \<open>The property\<close>

text \<open>A peer \<open>b\<close> that still has its half of a session, and \<open>a\<close>, in the state \<open>a2\<close>, which has opened a handshake for the
  second time: the first attempt leaves \<open>b\<close> as it is, the second one replaces its session, and the text arrives.\<close>

definition resumes :: "('hs, 'ts, 's) env \<Rightarrow> ('hs, 'ts, 's) node \<Rightarrow> ('hs, 'ts, 's) node \<Rightarrow> ('hs, 'ts, 's) node \<Rightarrow> rstring \<Rightarrow> bytes
    \<Rightarrow> bytes \<times> bytes \<times> bytes \<times> bytes \<Rightarrow> bool" where
  "resumes E a b a2 text m0 = (\<lambda>(m1, m2, m3, c). \<forall>p0 p1 p2 p3 p4.
     carries p0 (node_eph_id a) (node_eph_id b) m0 \<and> carries p1 (node_eph_id a) (node_eph_id b) m1
     \<and> carries p2 (node_eph_id b) (node_eph_id a) m2 \<and> carries p3 (node_eph_id a) (node_eph_id b) m3 \<and> carries p4 (node_eph_id a) (node_eph_id b) c \<longrightarrow>
     (\<exists>b0 b1 a3 b3. handle_noise_handshake E b p0 = Ret b0 \<and> noise_sessions b0 = noise_sessions b
        \<and> handle_noise_handshake E b0 p1 = Ret b1 \<and> sends E b0 b1 NoiseHandshake (node_eph_id a) m2
        \<and> handle_noise_handshake E a2 p2 = Ret a3 \<and> sends E a2 a3 NoiseHandshake (node_eph_id b) m3 \<and> sends E a2 a3 DirectMessage (node_eph_id b) c
        \<and> handle_noise_handshake E b1 p3 = Ret b3 \<and> DmSession (node_fingerprint E a) True \<in> set (events b3)
        \<and> DmReceived (node_fingerprint E a) (node_eph_id a) text DM_KIND_TEXT \<in> set (events (handle_direct_message E b3 p4))))"

text \<open>C5: a node that restarted gets through.  It has no session with a peer that still holds one, and writes to
  it.  The peer passes over the first handshake message, so a stray one cannot cost it its session.  When two
  seconds have passed the timer of the node opens the handshake anew, the peer gives its stale session up and
  answers, the exchange goes on to a verified session, and the text arrives.\<close>

theorem restarted_peer_recovers:
  fixes E :: "('hs, 'ts, 's) env"
  assumes "snow_ok (snow E)" "cipher_pair (snow E) A B" "\<And>e. A (tA e)" "\<And>e. B (tB e)"
    and "\<And>e. receiving_nonce (snow E) (tB e) \<le> sending_nonce (snow E) (tA e)"
    and "\<And>e. xx_exchange (snow E) (dh_secret (identity a), e) (dh_secret (identity b), entropy b) (m1 e, m2 e, m3 e) (tA e, tB e)
          (dh_public (x_public E) (identity a), dh_public (x_public E) (identity b))"
    and "\<And>e. encrypt (snow E) \<lparr>inner = Transport (tA e), initiator = True\<rparr> (DM_KIND_TEXT # txt) = (Inr (c e), sA e)" "valid_utf8 txt"
    and "knows E a b" "knows E b a" "idle a (node_fingerprint E b)" "bm_get (handshake_attempts a) (node_fingerprint E b) = None"
    and "talking b (node_fingerprint E a) z []" "is_ready z" "bm_get (resync_pending b) (node_fingerprint E a) = None"
    and "hash_order_ok E" "node_ok a" "bm_ok (handshake_attempts a)"
    and "DM_HANDSHAKE_RETRY_MS \<le> saturating_sub t (clock a)" "a1 = send_dm E a (node_fingerprint E b) txt"
  shows "\<exists>e d a2. sends E a a1 NoiseHandshake (node_eph_id b) (m1 (entropy a))
    \<and> tick E (a1\<lparr>clock := t\<rparr>) = Ret (d, a2) \<and> sends E (a1\<lparr>clock := t\<rparr>) a2 NoiseHandshake (node_eph_id b) (m1 e)
    \<and> resumes E a b a2 txt (m1 (entropy a)) (m1 e, m2 e, m3 e, c e)"
proof -
  let ?fa = "node_fingerprint E a" and ?fb = "node_fingerprint E b" and ?a1 = "a1\<lparr>clock := t\<rparr>"
  obtain z0 z1 where z: "new_initiator (snow E) (dh_secret (identity a)) (entropy a) = Inr z0" "write_handshake (snow E) z0 = (Inr (m1 (entropy a)), z1)"
    by (rule xx_exchange_initiator [OF assms(6)])
  have new: "\<exists>s0 msg s1. new_initiator (snow E) (dh_secret (identity a)) e = Inr s0 \<and> write_handshake (snow E) s0 = (Inr msg, s1) \<and> is_handshaking s1" for e
    by (rule xx_exchange_initiator [OF assms(6), of e]) blast
  obtain d a2 e s0 msg s1 where a2: "tick E ?a1 = Ret (d, a2)" "new_initiator (snow E) (dh_secret (identity a)) e = Inr s0"
    "write_handshake (snow E) s0 = (Inr msg, s1)" "sends E ?a1 a2 NoiseHandshake (node_eph_id b) msg"
    "talking a2 ?fb s1 [txt]" "knows E a2 b" "node_eph_id a2 = node_eph_id a"
    by (rule dm_reopens [OF assms(16-18) new assms(9,11,12,19,20)])
  obtain s2 q0 q1 q2 where s1: "msg = m1 e" "is_handshaking s1"
    and q: "new_responder (snow E) (dh_secret (identity b)) (entropy b) = Inr q0" "read_handshake (snow E) q0 (m1 e) = (Inr (), q1)"
      "is_handshaking q1" "write_handshake (snow E) q1 = (Inr (m2 e), q2)" "is_handshaking q2" "\<not> initiator q2"
    and u: "read_handshake (snow E) s1 (m2 e) = (Inr (), s2)" "is_handshaking s2"
      "write_handshake (snow E) s2 = (Inr (m3 e), \<lparr>inner = Transport (tA e), initiator = True\<rparr>)"
    and w: "read_handshake (snow E) q2 (m3 e) = (Inr (), \<lparr>inner = Transport (tB e), initiator = False\<rparr>)"
    by (rule xx_exchange_opens [OF assms(6) a2(2,3)])
  have "resumes E a b a2 txt (m1 (entropy a)) (m1 e, m2 e, m3 e, c e)"
    unfolding resumes_def prod.case
  proof (intro allI impI, elim conjE)
    fix p0 p1 p2 p3 p4
    assume p: "carries p0 (node_eph_id a) (node_eph_id b) (m1 (entropy a))" "carries p1 (node_eph_id a) (node_eph_id b) (m1 e)"
      "carries p2 (node_eph_id b) (node_eph_id a) (m2 e)" "carries p3 (node_eph_id a) (node_eph_id b) (m3 e)"
      "carries p4 (node_eph_id a) (node_eph_id b) (c e)"
    obtain b0 b1 where b: "handle_noise_handshake E b p0 = Ret b0" "noise_sessions b0 = noise_sessions b"
      "handle_noise_handshake E b0 p1 = Ret b1" "sends E b0 b1 NoiseHandshake (node_eph_id a) (m2 e)"
      "knows E b1 a" "node_eph_id b1 = node_eph_id b" "talking b1 ?fa q2 []"
      by (rule stale_session_answers [OF assms(10,13-15) p(1,2) q(1-5)])
    obtain a3 b3 where "handle_noise_handshake E a2 p2 = Ret a3" "sends E a2 a3 NoiseHandshake (node_eph_id b) (m3 e)"
      "sends E a2 a3 DirectMessage (node_eph_id b) (c e)" "handle_noise_handshake E b1 p3 = Ret b3"
      "DmSession ?fb True \<in> set (events a3)" "DmSession ?fa True \<in> set (events b3)"
      "DmReceived ?fa (node_eph_id a) txt DM_KIND_TEXT \<in> set (events (handle_direct_message E b3 p4))"
      by (rule exchange_ends [OF assms(1-6) a2(6,7,5) s1(2) u b(5-7) q(5,6) w assms(7,8) p(3-5)])
    with b(1-4) show "\<exists>b0 b1 a3 b3. handle_noise_handshake E b p0 = Ret b0 \<and> noise_sessions b0 = noise_sessions b
        \<and> handle_noise_handshake E b0 p1 = Ret b1 \<and> sends E b0 b1 NoiseHandshake (node_eph_id a) (m2 e)
        \<and> handle_noise_handshake E a2 p2 = Ret a3 \<and> sends E a2 a3 NoiseHandshake (node_eph_id b) (m3 e) \<and> sends E a2 a3 DirectMessage (node_eph_id b) (c e)
        \<and> handle_noise_handshake E b1 p3 = Ret b3 \<and> DmSession ?fa True \<in> set (events b3)
        \<and> DmReceived ?fa (node_eph_id a) txt DM_KIND_TEXT \<in> set (events (handle_direct_message E b3 p4))" by blast
  qed
  moreover have "sends E a a1 NoiseHandshake (node_eph_id b) (m1 (entropy a))"
    using dm_opens(2) [OF assms(9,11) z] by (simp add: assms(20))
  ultimately show ?thesis using a2(1,4) s1(1) by blast
qed

text \<open>A node that has lost its half of a session writes to the peer that still has the other.\<close>

theorem restarted_peer_recovers_witness:
  "\<exists>e d a2. tick sample_env ((send_dm sample_env (met 1 2) (replicate 32 2) [104, 105])\<lparr>clock := 3000\<rparr>) = Ret (d, a2)
    \<and> (\<exists>b0 b1 a3 b3. handle_noise_handshake sample_env ((met 2 1)\<lparr>noise_sessions := [(replicate 32 1, \<lparr>inner = Transport (None, 5, 5), initiator = True\<rparr>)]\<rparr>)
           (signed_packet sample_env (met 1 2) NoiseHandshake 10 (Some (replicate 8 2)) (replicate 32 0)) = Ret b0
      \<and> handle_noise_handshake sample_env b0 (signed_packet sample_env (met 1 2) NoiseHandshake 10 (Some (replicate 8 2)) (replicate 32 0)) = Ret b1
      \<and> handle_noise_handshake sample_env a2 (signed_packet sample_env (met 2 1) NoiseHandshake 10 (Some (replicate 8 1)) (1 # replicate 32 2)) = Ret a3
      \<and> handle_noise_handshake sample_env b1 (signed_packet sample_env (met 1 2) NoiseHandshake 10 (Some (replicate 8 2)) (1 # replicate 32 1)) = Ret b3
      \<and> DmReceived (replicate 32 1) (replicate 8 1) [104, 105] DM_KIND_TEXT \<in> set (events (handle_direct_message sample_env b3
          (signed_packet sample_env (met 1 2) DirectMessage 10 (Some (replicate 8 2)) (u64_to_be 0 @ u64_to_be 0 @ [DM_KIND_TEXT, 104, 105])))))"
proof -
  let ?a = "met 1 2" and ?b = "(met 2 1)\<lparr>noise_sessions := [(replicate 32 1, \<lparr>inner = Transport (None, 5, 5), initiator = True\<rparr>)]\<rparr>"
  have id: "identity ?b = identity (met 2 1)" "node_eph_id ?b = node_eph_id (met 2 1)" "node_fingerprint sample_env ?b = node_fingerprint sample_env (met 2 1)"
    by (simp_all add: node_eph_id_def node_fingerprint_def)
  have x: "xx_exchange (snow sample_env) (dh_secret (identity ?a), e) (dh_secret (identity ?b), entropy ?b)
      (replicate 32 0, 1 # replicate 32 2, 1 # replicate 32 1) ((Some (replicate 32 2), 0, 0), (Some (replicate 32 1), 0, 0))
      (dh_public (x_public sample_env) (identity ?a), dh_public (x_public sample_env) (identity ?b))" for e
    unfolding sample_snow id met_facts by (rule xx_snow_exchange) simp_all
  have enc: "encrypt (snow sample_env) \<lparr>inner = Transport (Some (replicate 32 2), 0, 0), initiator = True\<rparr> (DM_KIND_TEXT # [104, 105]) =
      (Inr (u64_to_be 0 @ u64_to_be 0 @ [DM_KIND_TEXT, 104, 105]), \<lparr>inner = Transport (Some (replicate 32 2), 1, 0), initiator = True\<rparr>)"
    by (simp add: encrypt_def xx_snow_def Let_def)
  have v: "valid_utf8 [104, 105]" by code_simp
  have c: "carries (signed_packet sample_env (met k k') t ttl (Some (replicate 8 k')) p) (node_eph_id (met k k')) (node_eph_id (met k' k)) p"
    for k k' t ttl p by (simp add: carries_def)
  have sn: "snow_ok (snow sample_env)" "cipher_pair (snow sample_env) (\<lambda>_. True) (\<lambda>_. True)"
    "receiving_nonce (snow sample_env) (Some (replicate 32 1), 0, 0) \<le> sending_nonce (snow sample_env) (Some (replicate 32 2), 0, 0)"
    using xx_snow_ok xx_snow_pair by (simp_all add: xx_snow_def)
  have kn: "knows sample_env ?a ?b" "knows sample_env ?b ?a"
    using met_knows [of 1 2] met_knows [of 2 1] unfolding knows_def id by simp_all
  have b: "talking ?b (node_fingerprint sample_env ?a) \<lparr>inner = Transport (None, 5, 5), initiator = True\<rparr> []"
    "is_ready (\<lparr>inner = Transport (None, 5, 5), initiator = True\<rparr> :: (xx_hs, xx_ts) noise_session)"
    "bm_get (resync_pending ?b) (node_fingerprint sample_env ?a) = None"
    unfolding met_facts by (simp_all add: talking_def is_ready_def met_def sample_node_def node_new_def get_or_default_def)
  have a: "bm_get (handshake_attempts ?a) (node_fingerprint sample_env ?b) = None" "node_ok ?a" "bm_ok (handshake_attempts ?a)"
    "DM_HANDSHAKE_RETRY_MS \<le> saturating_sub 3000 (clock ?a)"
    using node_new_ok by (simp_all add: met_def sample_node_def node_new_def node_ok_def parts_ok_def saturating_sub_def DM_HANDSHAKE_RETRY_MS_def word_le_nat_alt)
  have o: "hash_order_ok sample_env" by (simp add: hash_order_ok_def sample_env_def)
  have i: "idle ?a (node_fingerprint sample_env ?b)" unfolding id met_facts by (rule met_facts(7))
  note r = restarted_peer_recovers [OF sn(1,2) TrueI TrueI sn(3) x enc v kn i a(1) b o a(2-4) refl, unfolded id met_facts]
  obtain e d a2 where t: "tick sample_env ((send_dm sample_env ?a (replicate 32 2) [104, 105])\<lparr>clock := 3000\<rparr>) = Ret (d, a2)"
    "resumes sample_env ?a ?b a2 [104, 105] (replicate 32 0) (replicate 32 0, 1 # replicate 32 2, 1 # replicate 32 1, u64_to_be 0 @ u64_to_be 0 @ [DM_KIND_TEXT, 104, 105])"
    using r by blast
  note c' = c [unfolded met_facts]
  from t(2) [unfolded resumes_def prod.case id met_facts, rule_format, OF conjI [OF c' conjI [OF c' conjI [OF c' conjI [OF c' c']]]],
      of NoiseHandshake 10 NoiseHandshake 10 NoiseHandshake 10 NoiseHandshake 10 DirectMessage 10] t(1)
  show ?thesis by blast
qed

end
