(* ===== verification/Gossip.thy ===== *)
theory Gossip
  imports Delivery Events
begin

text \<open>
  How channel messages spread: from a sender to its neighbour, and from a node that holds a message to
  a neighbour that asks for what it lacks when a link comes up.  The nodes use MemoryStore, as in the
  simulator; what the parameters must do is in \<open>crypto_ok\<close> and \<open>lz4_roundtrip\<close>.
\<close>

section \<open>The packet of a channel message\<close>

text \<open>The packet of a channel message.\<close>

definition channel_packet :: "('hs, 'ts, 's) env \<Rightarrow> ('hs, 'ts, 's) node \<Rightarrow> rstring \<Rightarrow> rstring \<Rightarrow> packet" where
  "channel_packet E n channel body = signed_packet E n ChannelMessage (origin_ttl (n_cfg n) ChannelMessage (length (links n))) None
     (encode_channel (lz4_compress E) channel body (n_cfg n))"

lemma channel_packet_fields [simp]:
  "p_type (channel_packet E n c b) = ChannelMessage" "p_sender (channel_packet E n c b) = node_eph_id n"
  "p_recipient (channel_packet E n c b) = None"
  "p_payload (channel_packet E n c b) = encode_channel (lz4_compress E) c b (n_cfg n)"
  "p_timestamp_ms (channel_packet E n c b) = clock n"
  by (simp_all add: channel_packet_def)

text \<open>The message a node keeps of a packet.\<close>

definition kept_message :: "('hs, 'ts, 's) env \<Rightarrow> packet \<Rightarrow> rstring \<Rightarrow> rstring \<Rightarrow> stored_message" where
  "kept_message E pkt channel body = \<lparr>sm_digest = packet_digest (sha256 E) pkt, sm_channel = channel, sm_sender = p_sender pkt,
     sm_timestamp_ms = p_timestamp_ms pkt, sm_body = body, sm_raw = encode pkt\<rparr>"

lemma send_channel_message_sends:
  fixes E n name body
  defines "c \<equiv> normalize (uni_lower E) name"
  defines "p \<equiv> channel_packet E n c body"
  shows "send_channel_message E n name body = (packet_digest (sha256 E) p,
    n\<lparr>subscribed := bm_insert c () (subscribed n), n_store := put_channel_message (store E) (n_store n) (kept_message E p c body),
      seen := snd (observe (seen n) (packet_digest (sha256 E) p) (clock n)),
      outbox := outbox n @ broadcast_calls E n p None\<rparr>)"
proof -
  have "signed_packet E (n\<lparr>subscribed := sb\<rparr>) = signed_packet E n" for sb
    by (intro ext) (simp add: signed_packet_def node_eph_id_def)
  moreover have "node_eph_id (n\<lparr>subscribed := sb\<rparr>) = node_eph_id n" for sb by (simp add: node_eph_id_def)
  ultimately show ?thesis
    by (simp add: send_channel_message_def channel_packet_def kept_message_def p_def c_def Let_def broadcast_eq observe_own_def
        broadcast_calls_def)
qed

lemma encode_channel_length: "length (encode_channel cmp c b cfg) \<le> 257 + length b"
  using maybe_compress_SomeD [of cmp b cfg] by (auto simp: encode_channel_def Let_def split: option.splits)

lemma channel_packet_ok:
  assumes "crypto_ok E" "length (node_eph_id a) = 8" "length b + 257 < 2 ^ 16"
  shows "packet_ok (channel_packet E a c b)"
  unfolding channel_packet_def
  by (rule signed_packet_ok [OF assms(1)])
    (use assms encode_channel_length [of "lz4_compress E" c b "n_cfg a"] in auto)

section \<open>A channel packet that arrives\<close>

text \<open>Whether the receiver knows a usable key for the sender's address, and that such a key verifies the packet.\<close>

definition key_known :: "('hs, 'ts, 's) env \<Rightarrow> ('hs, 'ts, 's) node \<Rightarrow> packet \<Rightarrow> bool" where
  "key_known E n pkt \<longleftrightarrow> (\<exists>vk. bm_get (eph_keys n) (p_sender pkt) = Some vk \<and> vk_valid E vk)"

definition unforged :: "('hs, 'ts, 's) env \<Rightarrow> ('hs, 'ts, 's) node \<Rightarrow> packet \<Rightarrow> bool" where
  "unforged E n pkt \<longleftrightarrow> (\<forall>vk. bm_get (eph_keys n) (p_sender pkt) = Some vk \<and> vk_valid E vk \<longrightarrow> packet_verify (ed_verify E) pkt vk = Inr ())"

lemma dispatch_channel:
  assumes "p_type pkt = ChannelMessage" "decode_channel (lz4_decompress E) (p_payload pkt) (n_cfg n) = Ret (Some (c, body))" "unforged E n pkt"
  shows "dispatch E n l pkt = Ret (let n' = n\<lparr>n_store := put_channel_message (store E) (n_store n) (kept_message E pkt c body)\<rparr> in
    if bm_contains (subscribed n) c
    then push_event (MessageReceived c (p_sender pkt) body (p_timestamp_ms pkt) (key_known E n pkt)) n' else n')"
  using assms(3) unfolding dispatch_def assms(1) msg_type.case handle_channel_def assms(2) and_then.simps option.case prod.case
  by (auto simp: Let_def kept_message_def key_known_def unforged_def split: option.splits)

text \<open>What a node that has never heard a packet needs to take it in.\<close>

definition receptive :: "('hs, 'ts, memory_store) env \<Rightarrow> ('hs, 'ts, memory_store) node \<Rightarrow> packet \<Rightarrow> rstring \<Rightarrow> bool" where
  "receptive E n pkt c \<longleftrightarrow> node_ok n \<and> unforged E n pkt
     \<and> length (encode pkt) \<le> reassembly_max_bytes (r_cfg (n_reassembler n))
     \<and> bm_get (slots (n_reassembler n)) (packet_digest (sha256 E) pkt) = None
     \<and> hear_count (seen n) (packet_digest (sha256 E) pkt) = 0 \<and> fst (allow (rate n) (p_sender pkt) (clock n))
     \<and> length (get_or_default (ms_channels (n_store n)) c) < history_max (n_store n)
     \<and> \<not> has_message (store E) (n_store n) (packet_digest (sha256 E) pkt)"

text \<open>The node once the handler is done, before it decides whether to relay.\<close>

definition taken :: "('hs, 'ts, 's) env \<Rightarrow> ('hs, 'ts, 's) node \<Rightarrow> packet \<Rightarrow> rstring \<Rightarrow> rstring \<Rightarrow> ('hs, 'ts, 's) node" where
  "taken E n pkt c body =
     (let n' = (admitted E n pkt)\<lparr>n_store := put_channel_message (store E) (n_store n) (kept_message E pkt c body)\<rparr>
      in if bm_contains (subscribed n) c
         then push_event (MessageReceived c (p_sender pkt) body (p_timestamp_ms pkt) (key_known E n pkt)) n' else n')"

lemma on_channel_packet:
  assumes "p_type pkt = ChannelMessage" "decode_channel (lz4_decompress E) (p_payload pkt) (n_cfg n) = Ret (Some (c, body))" "unforged E n pkt"
    and "node_ok n" "hear_count (seen n) (packet_digest (sha256 E) pkt) = 0" "fst (allow (rate n) (p_sender pkt) (clock n))"
  shows "on_packet E n l pkt = Ret (maybe_relay E (taken E n pkt c body) l pkt)"
proof -
  let ?n = "admitted E n pkt"
  have o: "on_packet E n l pkt = and_then (dispatch E ?n l pkt) (\<lambda>n. Ret (maybe_relay E n l pkt))"
    by (rule on_packet_admitted) (use assms in \<open>auto simp: node_ok_def parts_ok_def\<close>)
  have k: "unforged E ?n pkt" "key_known E ?n pkt = key_known E n pkt" using assms(3) by (simp_all add: unforged_def key_known_def admitted_def)
  have "decode_channel (lz4_decompress E) (p_payload pkt) (n_cfg ?n) = Ret (Some (c, body))" using assms(2) by (simp add: admitted_def)
  from dispatch_channel [OF assms(1) this k(1), of l] have "dispatch E ?n l pkt = Ret (taken E n pkt c body)"
    unfolding k(2) by (simp add: taken_def admitted_def Let_def)
  with o show ?thesis by simp
qed

text \<open>A channel with room keeps a new message, whatever its age.\<close>

lemma put_with_room:
  assumes "length (get_or_default (ms_channels s) (sm_channel m)) < history_max s" "\<not> mem_has_message s (sm_digest m)"
  shows "mem_has_message (mem_put_channel_message s m) (sm_digest m)
    \<and> m \<in> set (mem_channel_history (mem_put_channel_message s m) (sm_channel m) (history_max s))"
proof -
  let ?v = "sort_key sm_timestamp_ms (get_or_default (ms_channels s) (sm_channel m) @ [m])"
  let ?k = "if 0 < history_ms s then filter (\<lambda>x. saturating_sub (sm_timestamp_ms m) (sm_timestamp_ms x) < history_ms s) ?v else ?v"
  have "length ?k \<le> length ?v" by (cases "0 < history_ms s") (simp_all only: if_True if_False length_filter_le order_refl)
  also have "\<dots> \<le> history_max s" using assms(1) by simp
  finally have l: "length ?k \<le> history_max s" .
  then have p: "pop_front_while (history_max s) ?k = ([], ?k)" by (simp add: pop_front_while_eq)
  have "mem_put_channel_message s m = s\<lparr>ms_digests := insert (sm_digest m) (ms_digests s),
      ms_channels := bm_insert (sm_channel m) ?k (bm_insert (sm_channel m) ?v (ms_channels s))\<rparr>"
    using assms(2) unfolding mem_put_channel_message_def prune_channel_def Let_def mem_has_message_def
    by (cases "0 < history_ms s") (use p in simp_all)
  moreover have "m \<in> set ?k" by (simp add: saturating_sub_def)
  moreover have "keep_last (history_max s) (sort_key sm_timestamp_ms ?k) = sort_key sm_timestamp_ms ?k"
    using l by (simp add: keep_last_eq)
  ultimately show ?thesis by (simp add: mem_has_message_def mem_channel_history_def)
qed

lemma split_fits:
  assumes "FRAG_HEADER < m" "length bs \<le> (m - FRAG_HEADER) * 65535"
  shows "\<exists>fs. frag_split bs d m = Inr fs"
proof -
  have "(length bs + (m - FRAG_HEADER) - 1) div (m - FRAG_HEADER) < 65536"
    using assms by (subst div_less_iff_less_mult) auto
  then show ?thesis using assms(1) by (auto simp: frag_split_def Let_def div_ceil_def)
qed

lemma split_nonempty: "frag_split bs d m = Inr fs \<Longrightarrow> fs \<noteq> []"
  by (auto simp: frag_split_def Let_def enumerate_eq_zip length_chunks div_ceil_def chunks.simps [of _ bs] split: if_splits)

lemma broadcast_calls_frames:
  assumes "(l, st) \<in> set (links n)" "frag_split (encode p) (packet_digest (sha256 E) p) (mtu st) = Inr fs"
  shows "\<exists>xs ys. broadcast_calls E n p None = xs @ map (Send l) fs @ ys"
proof -
  obtain us vs where "links n = us @ (l, st) # vs" using assms(1) by (meson split_list)
  then have "broadcast_calls E n p None = broadcast_calls E (n\<lparr>links := us\<rparr>) p None @ map (Send l) fs @ broadcast_calls E (n\<lparr>links := vs\<rparr>) p None"
    using assms(2) by (simp add: broadcast_calls_def frames_of_def)
  then show ?thesis by blast
qed


text \<open>What a node has and shows after it has taken in a channel packet.\<close>

definition took_in :: "('hs, 'ts, memory_store) env \<Rightarrow> ('hs, 'ts, memory_store) node \<Rightarrow> packet \<Rightarrow> rstring \<Rightarrow> rstring
    \<Rightarrow> ('hs, 'ts, memory_store) node \<Rightarrow> bool" where
  "took_in E n pkt c body n' \<longleftrightarrow> node_ok n'
     \<and> has_message (store E) (n_store n') (packet_digest (sha256 E) pkt)
     \<and> \<lparr>sm_digest = packet_digest (sha256 E) pkt, sm_channel = c, sm_sender = p_sender pkt, sm_timestamp_ms = p_timestamp_ms pkt,
         sm_body = body, sm_raw = encode pkt\<rparr> \<in> set (channel_history (store E) (n_store n') c (history_max (n_store n)))
     \<and> (bm_contains (subscribed n) c \<longrightarrow>
          MessageReceived c (p_sender pkt) body (p_timestamp_ms pkt) (key_known E n pkt) \<in> set (events n'))"

lemma channel_frames_handled:
  assumes "\<And>bs. length (sha256 E bs) = 32" "packet_ok pkt" "p_type pkt = ChannelMessage" "receptive E n pkt c"
    and "decode_channel (lz4_decompress E) (p_payload pkt) (n_cfg n) = Ret (Some (c, body))"
    and "frag_split (encode pkt) (packet_digest (sha256 E) pkt) m = Inr fs"
    and "insert j (set is) = {..<length fs}" "j \<notin> set is"
  obtains ra where "reassembler_ok ra"
    "on_frames E n l (map (\<lambda>i. fs ! i) (is @ [j])) = Ret (maybe_relay E (taken E (n\<lparr>n_reassembler := ra\<rparr>) pkt c body) l pkt)"
proof -
  let ?d = "packet_digest (sha256 E) pkt"
  have d8: "length ?d = 8" using assms(1) by (simp add: packet_digest_def)
  have r: "reassembler_ok (n_reassembler n)" "bm_get (slots (n_reassembler n)) ?d = None"
    "length (encode pkt) \<le> reassembly_max_bytes (r_cfg (n_reassembler n))" and ok: "node_ok n"
    using assms(4) by (auto simp: receptive_def node_ok_def)
  obtain ra where ra: "reassembler_ok ra"
    and f: "on_frames E n l (map (\<lambda>i. fs ! i) (is @ [j])) = on_packet E (n\<lparr>n_reassembler := ra\<rparr>) l pkt"
    using deliver_split [OF assms(6) d8 assms(2) r assms(7,8)] by blast
  have "unforged E (n\<lparr>n_reassembler := ra\<rparr>) pkt" "node_ok (n\<lparr>n_reassembler := ra\<rparr>)"
    using assms(4) ra ok by (simp_all add: receptive_def unforged_def node_ok_def parts_ok_def)
  from on_channel_packet [OF assms(3) _ this] assms(4,5) f ra that show ?thesis by (simp add: receptive_def)
qed

lemma taken_took_in:
  assumes "store E = memory_ops order" "receptive E n pkt c" "reassembler_ok ra" "p_type pkt = ChannelMessage"
    and "decode_channel (lz4_decompress E) (p_payload pkt) (n_cfg n) = Ret (Some (c, body))"
  shows "took_in E n pkt c body (maybe_relay E (taken E (n\<lparr>n_reassembler := ra\<rparr>) pkt c body) l pkt)"
proof -
  let ?n = "n\<lparr>n_reassembler := ra\<rparr>" and ?m = "kept_message E pkt c body"
  let ?t = "taken E ?n pkt c body"
  obtain r sch where m: "maybe_relay E ?t l pkt = ?t\<lparr>n_rng := r, scheduler := sch\<rparr>" using maybe_relay_frame by blast
  have n: "unforged E ?n pkt" "key_known E ?n pkt = key_known E n pkt" "node_ok ?n"
    using assms(2,3) by (simp_all add: receptive_def unforged_def key_known_def node_ok_def parts_ok_def)
  have "on_packet E ?n l pkt = Ret (maybe_relay E ?t l pkt)"
    by (rule on_channel_packet [OF assms(4) _ n(1,3)]) (use assms(2,5) in \<open>auto simp: receptive_def\<close>)
  with on_packet_ok [OF n(3), of E l pkt] have "node_ok (maybe_relay E ?t l pkt)" by simp
  moreover have st: "n_store ?t = put_channel_message (store E) (n_store n) ?m"
    by (simp add: taken_def Let_def push_event_def)
  moreover have "has_message (store E) (n_store ?t) (packet_digest (sha256 E) pkt)
      \<and> ?m \<in> set (channel_history (store E) (n_store ?t) c (history_max (n_store n)))"
    unfolding st using put_with_room [of "n_store n" ?m] assms(1,2) by (simp add: receptive_def kept_message_def memory_ops_def)
  moreover have "bm_contains (subscribed n) c \<longrightarrow>
      MessageReceived c (p_sender pkt) body (p_timestamp_ms pkt) (key_known E n pkt) \<in> set (events ?t)"
    using n(2) by (simp add: taken_def Let_def push_event_def)
  ultimately show ?thesis unfolding m by (simp add: took_in_def kept_message_def)
qed

lemma channel_frames_taken_in:
  assumes "store E = memory_ops order" "\<And>bs. length (sha256 E bs) = 32"
    and "packet_ok pkt" "p_type pkt = ChannelMessage" "receptive E n pkt c"
    and "decode_channel (lz4_decompress E) (p_payload pkt) (n_cfg n) = Ret (Some (c, body))"
    and "frag_split (encode pkt) (packet_digest (sha256 E) pkt) m = Inr fs"
    and "insert j (set is) = {..<length fs}" "j \<notin> set is"
  shows "\<exists>n'. on_frames E n l (map (\<lambda>i. fs ! i) (is @ [j])) = Ret n' \<and> took_in E n pkt c body n'"
proof -
  obtain ra where "reassembler_ok ra"
    "on_frames E n l (map (\<lambda>i. fs ! i) (is @ [j])) = Ret (maybe_relay E (taken E (n\<lparr>n_reassembler := ra\<rparr>) pkt c body) l pkt)"
    by (rule channel_frames_handled [OF assms(2-9)])
  with taken_took_in [OF assms(1,5) _ assms(4,6)] show ?thesis by blast
qed

section \<open>A channel message between neighbours\<close>

text \<open>C13: a channel message gets through.  A node that sends on a channel hands to each of its links whose
  MTU leaves room for two bytes of payload the frames of one packet, signed for its own address; when
  these reach a neighbour, in any order, and it can take the packet in (it has not heard it, grants the
  sender its rate, knows no other key for the sender's address and has room in the channel), then the
  neighbour keeps exactly the text that was sent under the digest the sender got back, with the bytes it
  received, and shows the message if its user follows the channel, marked as verified exactly when it
  knew the sender's key.\<close>

theorem channel_message_reaches_peer:
  fixes E :: "('hs, 'ts, memory_store) env"
  assumes "crypto_ok E" "lz4_roundtrip (lz4_compress E) (lz4_decompress E)" "store E = memory_ops order"
    and "send_channel_message E a name body = (d, a')" "c = normalize (uni_lower E) name"
    and "length (node_eph_id a) = 8" "(l, st) \<in> set (links a)" "FRAG_HEADER + 2 \<le> mtu st"
    and "length c \<le> 255" "valid_utf8 c" "valid_utf8 body" "length body + 257 < 2 ^ 16"
    and "length body \<le> decompress_max_bytes (n_cfg b)" "receptive E b (channel_packet E a c body) c"
  shows "\<exists>fs xs ys. outbox a' = xs @ map (Send l) fs @ ys \<and> d = packet_digest (sha256 E) (channel_packet E a c body)
    \<and> frag_split (encode (channel_packet E a c body)) d (mtu st) = Inr fs \<and>
    (\<forall>is j. insert j (set is) = {..<length fs} \<and> j \<notin> set is \<longrightarrow>
      (\<exists>b'. on_frames E b k (map (\<lambda>i. fs ! i) (is @ [j])) = Ret b' \<and> took_in E b (channel_packet E a c body) c body b'))"
proof -
  let ?p = "channel_packet E a c body"
  have a': "d = packet_digest (sha256 E) ?p" "outbox a' = outbox a @ broadcast_calls E a ?p None"
    using assms(4) unfolding send_channel_message_sends assms(5) [symmetric] by auto
  have ok: "packet_ok ?p" by (rule channel_packet_ok [OF assms(1,6,12)])
  have "length (encode ?p) \<le> length body + 343"
    using encode_length [OF ok] encode_channel_length [of "lz4_compress E" c body "n_cfg a"] by simp
  then have "length (encode ?p) \<le> (mtu st - FRAG_HEADER) * 65535" using assms(8,12) by auto
  moreover have "FRAG_HEADER < mtu st" using assms(8) by simp
  ultimately obtain fs where fs: "frag_split (encode ?p) d (mtu st) = Inr fs" using split_fits by blast
  obtain xs ys where out: "broadcast_calls E a ?p None = xs @ map (Send l) fs @ ys"
    using broadcast_calls_frames [OF assms(7) fs [unfolded a'(1)]] by blast
  have sha: "\<And>bs. length (sha256 E bs) = 32" using assms(1) by (simp add: crypto_ok_def)
  have "length body < 2 ^ 32" using assms(12) by simp
  then have "decode_channel (lz4_decompress E) (p_payload ?p) (n_cfg b) = Ret (Some (c, body))"
    using decode_encode_channel [OF assms(9,2,13)] from_utf8_lossy_valid assms(10,11) by simp
  note taken = channel_frames_taken_in [OF assms(3) sha ok channel_packet_fields(1) assms(14) this fs [unfolded a'(1)]]
  have "outbox a' = (outbox a @ xs) @ map (Send l) fs @ ys" using a'(2) out by simp
  with a'(1) fs taken show ?thesis by blast
qed


lemma sample_lz4: "lz4_roundtrip (lz4_compress sample_env) (lz4_decompress sample_env)"
  by (simp add: lz4_roundtrip_def sample_env_def)

lemma sample_tables: "n_reassembler (sample_node k) = reassembler_new default_tunables" "eph_keys (sample_node k) = []"
  by (simp_all add: sample_node_def node_new_def)

lemma sample_receptive:
  assumes "length (encode p) \<le> 1048576"
  shows "receptive sample_env (sample_node k) p c"
proof -
  have "node_ok (sample_node k)" by (simp add: sample_node_def node_new_ok)
  moreover have "fst (allow (rate_limiter_new default_tunables) s t)" for s t by (rule fresh_allowed) simp
  ultimately show ?thesis using assms
    by (simp add: receptive_def unforged_def seen_cache_new_def hear_count_def get_or_default_def memory_ops_def
        mem_has_message_def memory_store_new_def sample_tables reassembler_new_def)
qed

text \<open>All frames in the order they were cut are one of the orders of a delivery.\<close>

lemma in_order:
  assumes "fs \<noteq> []"
  shows "map (\<lambda>i. fs ! i) ([0..<length fs - 1] @ [length fs - 1]) = fs"
    "insert (length fs - 1) (set [0..<length fs - 1]) = {..<length fs} \<and> length fs - 1 \<notin> set [0..<length fs - 1]"
proof -
  show "map (\<lambda>i. fs ! i) ([0..<length fs - 1] @ [length fs - 1]) = fs"
    using assms map_nth [of fs] upt_Suc_append [of 0 "length fs - 1"] by simp
  show "insert (length fs - 1) (set [0..<length fs - 1]) = {..<length fs} \<and> length fs - 1 \<notin> set [0..<length fs - 1]"
    using assms by (cases fs) auto
qed

text \<open>Two new nodes, one of them with a link of MTU 600.\<close>

theorem channel_message_reaches_peer_witness:
  "\<exists>d a' fs xs ys b'. send_channel_message sample_env ((sample_node 2)\<lparr>links := [(7, \<lparr>mtu = 600, peer_eph = None, peer_fp = None\<rparr>)]\<rparr>)
       DEFAULT_CHANNEL [104, 105] = (d, a') \<and> outbox a' = xs @ map (Send 7) fs @ ys
     \<and> on_frames sample_env (sample_node 1) 7 fs = Ret b' \<and> has_message (store sample_env) (n_store b') d
     \<and> MessageReceived DEFAULT_CHANNEL (replicate 8 2) [104, 105] 1000 False \<in> set (events b')"
proof -
  let ?st = "\<lparr>mtu = 600, peer_eph = None, peer_fp = None\<rparr>"
  let ?a = "(sample_node 2)\<lparr>links := [(7, ?st)]\<rparr>" and ?b = "sample_node 1"
  let ?p = "channel_packet sample_env ?a DEFAULT_CHANNEL [104, 105]"
  obtain d a' where s: "send_channel_message sample_env ?a DEFAULT_CHANNEL [104, 105] = (d, a')" by fastforce
  have c: "DEFAULT_CHANNEL = normalize (uni_lower sample_env) DEFAULT_CHANNEL" by (simp add: sample_env_def) code_simp
  have v: "valid_utf8 DEFAULT_CHANNEL" "valid_utf8 [104, 105]" "length DEFAULT_CHANNEL \<le> 255" by code_simp+
  have eph: "length (node_eph_id ?a) = 8" by (simp add: node_eph_id_def sample_node_def node_new_def)
  have "length (encode ?p) \<le> 1048576"
    using encode_length [OF channel_packet_ok [OF sample_crypto_ok eph, of "[104, 105]" DEFAULT_CHANNEL]]
      encode_channel_length [of "lz4_compress sample_env" DEFAULT_CHANNEL "[104, 105]" "n_cfg ?a"] by simp
  note rec = sample_receptive [OF this, of 1 DEFAULT_CHANNEL]
  have "\<exists>fs xs ys. outbox a' = xs @ map (Send 7) fs @ ys \<and> d = packet_digest (sha256 sample_env) ?p
    \<and> frag_split (encode ?p) d (mtu ?st) = Inr fs \<and>
    (\<forall>is j. insert j (set is) = {..<length fs} \<and> j \<notin> set is \<longrightarrow>
      (\<exists>b'. on_frames sample_env ?b 7 (map (\<lambda>i. fs ! i) (is @ [j])) = Ret b' \<and> took_in sample_env ?b ?p DEFAULT_CHANNEL [104, 105] b'))"
    by (rule channel_message_reaches_peer [OF sample_crypto_ok sample_lz4 _ s c eph _ _ v(3,1,2) _ _ rec])
      (simp_all add: FRAG_HEADER_def sample_node_def node_new_def)
  then obtain fs xs ys where o: "outbox a' = xs @ map (Send 7) fs @ ys" "d = packet_digest (sha256 sample_env) ?p"
    and fs: "frag_split (encode ?p) d (mtu ?st) = Inr fs"
    and del: "\<And>is j. insert j (set is) = {..<length fs} \<and> j \<notin> set is \<Longrightarrow>
      \<exists>b'. on_frames sample_env ?b 7 (map (\<lambda>i. fs ! i) (is @ [j])) = Ret b' \<and> took_in sample_env ?b ?p DEFAULT_CHANNEL [104, 105] b'"
    by blast
  note ord = in_order [OF split_nonempty [OF fs]]
  from del [OF ord(2), unfolded ord(1)] obtain b' where b': "on_frames sample_env ?b 7 fs = Ret b'"
    "took_in sample_env ?b ?p DEFAULT_CHANNEL [104, 105] b'" by blast
  have "bm_contains (subscribed ?b) DEFAULT_CHANNEL" by (simp add: sample_node_def node_new_def bm_contains_def)
  moreover have "p_sender ?p = replicate 8 2" "p_timestamp_ms ?p = 1000" "\<not> key_known sample_env ?b ?p"
    by (simp_all add: sample_node_def node_new_def node_eph_id_def key_known_def)
  ultimately have "MessageReceived DEFAULT_CHANNEL (replicate 8 2) [104, 105] 1000 False \<in> set (events b')"
    "has_message (store sample_env) (n_store b') d" using b'(2) o(2) by (auto simp: took_in_def)
  with s o b'(1) show ?thesis by blast
qed

section \<open>Reconciliation\<close>

lemma foldl_answer:
  "foldl (\<lambda>n d. case message_by_digest (store E) (n_store n) d of
       Some m \<Rightarrow> if sm_raw m \<noteq> [] then send_bytes n l (sm_raw m) d (link_mtu n l) else n
     | None \<Rightarrow> n) n ds =
   n\<lparr>outbox := outbox n @ concat (map (\<lambda>d. case message_by_digest (store E) (n_store n) d of
       Some m \<Rightarrow> if sm_raw m \<noteq> [] then frames_of l (sm_raw m) d (link_mtu n l) else []
     | None \<Rightarrow> []) ds)\<rparr>"
proof (induction ds arbitrary: n)
  case (Cons d ds)
  have "link_mtu (send_bytes n l bs d k) l = link_mtu n l" for bs k by (simp add: link_mtu_def send_bytes_eq split: option.splits)
  with Cons show ?case by (cases "message_by_digest (store E) (n_store n) d") (simp_all add: send_bytes_eq cong: option.case_cong if_cong)
qed simp

lemma sync_filter_new_channel: "sf_channel (sync_filter_new c ds) = c"
  by (simp add: sync_filter_new_def)

text \<open>The messages of a channel that are missing among given digests and can be sent, by digest.\<close>

definition missing_messages :: "memory_store \<Rightarrow> rstring \<Rightarrow> bytes list \<Rightarrow> stored_message list" where
  "missing_messages s c ds = filter (\<lambda>m. sm_digest m \<notin> set ds \<and> sm_raw m \<noteq> []) (sort_key sm_digest (get_or_default (ms_channels s) c))"

lemma map_sort_key: "map f (sort_key f xs) = sort (map f xs)"
  by (rule sym, rule properties_for_sort) simp_all

lemma concat_map_if: "concat (map (\<lambda>x. if P x then f x else []) xs) = concat (map f (filter P xs))"
  by (induction xs) auto

lemma answers_missing:
  assumes "store E = memory_ops order" "\<And>xs. set (order xs) = set xs" "mem_ok (n_store b)"
    and "p_payload req = encode_sync (sync_filter_new c ds)" "length c \<le> 255" "valid_utf8 c" "\<forall>d \<in> set ds. length d = 8"
  shows "handle_sync_request E b l req = Ret (b\<lparr>outbox := outbox b @
    concat (map (\<lambda>m. frames_of l (sm_raw m) (sm_digest m) (link_mtu b l)) (missing_messages (n_store b) c ds))\<rparr>)"
proof -
  let ?g = "get_or_default (ms_channels (n_store b)) c" and ?f = "sync_filter_new c ds"
  let ?mine = "sync_filter_new c (channel_digests (store E) (n_store b) c)"
  have dec: "decode_sync (p_payload req) = Ret (Some (sync_filter_new c (sf_digests ?f)))"
    using decode_encode_sync [of ?f] assms(4-7) from_utf8_lossy_valid [OF assms(6)] by (simp add: sync_filter_new_def)
  have same: "sf_digests (sync_filter_new c (sf_digests ?f)) = sf_digests ?f"
    using dedup_sorted [of "sort ds"] by (simp add: sync_filter_new_def dedup_id sorted_sort_id strict_sorted_imp_sorted)
  let ?gs = "sort_key sm_digest ?g"
  have dist: "distinct (map sm_digest ?g)" and chan: "\<forall>m \<in> set ?g. sm_channel m = c"
    using assms(3) by (simp_all add: mem_ok_def channel_ok_def)
  then have "sorted_wrt (<) (sort (map sm_digest ?g))" by (simp add: strict_sorted_iff)
  then have mine: "sf_digests ?mine = map sm_digest ?gs"
    by (simp add: sync_filter_new_def dedup_id assms(1) memory_ops_def mem_channel_digests_def map_sort_key)
  let ?miss = "filter (\<lambda>m. sm_digest m \<notin> set ds) ?gs"
  have miss: "missing_from ?mine (sync_filter_new c (sf_digests ?f)) = map sm_digest ?miss"
    unfolding missing_from_def mine same by (simp add: filter_map o_def sync_filter_new_def)
  have look: "message_by_digest (store E) (n_store b) (sm_digest m) = Some m" if "m \<in> set ?miss" for m
    using that chan lookup_by_digest [OF assms(3,2), of "sm_digest m" m] by (auto simp: assms(1) memory_ops_def)
  have "map (\<lambda>d. case message_by_digest (store E) (n_store b) d of
       Some m \<Rightarrow> if sm_raw m \<noteq> [] then frames_of l (sm_raw m) d (link_mtu b l) else [] | None \<Rightarrow> []) (map sm_digest ?miss)
    = map (\<lambda>m. if sm_raw m \<noteq> [] then frames_of l (sm_raw m) (sm_digest m) (link_mtu b l) else []) ?miss"
    unfolding map_map o_def by (rule map_cong [OF refl]) (simp only: look option.case)
  then show ?thesis
    unfolding handle_sync_request_def dec and_then.simps option.case Let_def sync_filter_new_channel miss foldl_answer
    by (simp only: concat_map_if filter_filter missing_messages_def)
qed


text \<open>The request a node sends for a channel, and what a new link makes it send.\<close>

definition sync_packet :: "('hs, 'ts, 's) env \<Rightarrow> ('hs, 'ts, 's) node \<Rightarrow> rstring \<Rightarrow> packet" where
  "sync_packet E n c = signed_packet E n SyncRequest 1 None (encode_sync (sync_filter_new c (channel_digests (store E) (n_store n) c)))"

lemma send_sync_requests_frames:
  "outbox (send_sync_requests E n l) = outbox n @ concat (map (\<lambda>c. frames_of l (encode (sync_packet E n c))
     (packet_digest (sha256 E) (sync_packet E n c)) (link_mtu n l)) (map fst (subscribed n)))"
proof -
  have "foldl (\<lambda>n c. send_on_link E n l (signed_packet E n SyncRequest 1 None (encode_sync (sync_filter_new c (channel_digests (store E) (n_store n) c))))) n cs =
      n\<lparr>outbox := outbox n @ concat (map (\<lambda>c. frames_of l (encode (sync_packet E n c)) (packet_digest (sha256 E) (sync_packet E n c)) (link_mtu n l)) cs)\<rparr>" for cs
  proof (induction cs arbitrary: n)
    case (Cons c cs)
    have "link_mtu (n\<lparr>outbox := xs\<rparr>) l = link_mtu n l" "sync_packet E (n\<lparr>outbox := xs\<rparr>) = sync_packet E n" for xs
      by (auto simp: link_mtu_def sync_packet_def signed_packet_def node_eph_id_def fun_eq_iff split: option.splits)
    with Cons show ?case by (simp add: send_on_link_def send_bytes_eq) (simp add: sync_packet_def)
  qed simp
  then show ?thesis unfolding send_sync_requests_def Let_def by simp
qed

lemma link_up_requests:
  assumes "on_transport_event E n (LinkUp l m h) = Ret n'" "bm_contains (subscribed n) c"
  shows "\<exists>xs ys. outbox n' = xs @ frames_of l (encode (sync_packet E n c)) (packet_digest (sha256 E) (sync_packet E n c)) m @ ys"
proof -
  let ?n = "n\<lparr>links := bm_insert l \<lparr>mtu = m, peer_eph = None, peer_fp = None\<rparr> (links n)\<rparr>"
  have mtu: "link_mtu (announce E ?n) l = m" by (simp add: announce_sends link_mtu_def)
  have pkt: "sync_packet E (announce E ?n) = sync_packet E n"
    by (intro ext) (simp add: announce_sends sync_packet_def signed_packet_def node_eph_id_def)
  have sub: "subscribed (announce E ?n) = subscribed n" by (simp add: announce_sends)
  let ?F = "\<lambda>c. frames_of l (encode (sync_packet E n c)) (packet_digest (sha256 E) (sync_packet E n c)) m"
  have "c \<in> set (map fst (subscribed n))" using assms(2) by (auto simp: bm_contains_def dest: bm_get_fst)
  then obtain us vs where "map fst (subscribed n) = us @ c # vs" by (meson split_list)
  moreover have "n' = send_sync_requests E (announce E ?n) l" using assms(1) by (simp add: on_transport_event_def)
  ultimately have "outbox n' = (outbox (announce E ?n) @ concat (map ?F us)) @ ?F c @ concat (map ?F vs)"
    by (simp add: send_sync_requests_frames mtu pkt sub)
  then show ?thesis by blast
qed

text \<open>A kept message that is the channel packet its digest says.\<close>

definition relayable :: "('hs, 'ts, 's) env \<Rightarrow> ('hs, 'ts, 's) node \<Rightarrow> rstring \<Rightarrow> stored_message \<Rightarrow> packet \<Rightarrow> bool" where
  "relayable E n c m pkt \<longleftrightarrow> sm_raw m = encode pkt \<and> sm_digest m = packet_digest (sha256 E) pkt \<and> packet_ok pkt \<and> p_type pkt = ChannelMessage
     \<and> decode_channel (lz4_decompress E) (p_payload pkt) (n_cfg n) = Ret (Some (c, sm_body m))"

text \<open>C15: reconciliation.  A new link makes a node ask for each channel its user follows with the digests
  it holds.  The neighbour answers such a request with the frames of exactly the messages it can
  send and the node lacks, in the order of their digests, and changes nothing else; and the frames of each
  of them, in any order, make the node that asked take the message in, with the text the neighbour
  has.\<close>

theorem missing_messages_recovered:
  fixes E :: "('hs, 'ts, memory_store) env"
  assumes "store E = memory_ops order" "\<And>xs. set (order xs) = set xs" "\<And>bs. length (sha256 E bs) = 32"
    and "mem_ok (n_store b)" "length c \<le> 255" "valid_utf8 c" "\<forall>d \<in> set (channel_digests (store E) (n_store a) c). length d = 8"
    and "on_transport_event E a (LinkUp l m h) = Ret a'" "bm_contains (subscribed a) c"
    and "missing = missing_messages (n_store b) c (channel_digests (store E) (n_store a) c)"
  shows "(\<exists>xs ys. outbox a' = xs @ frames_of l (encode (sync_packet E a c)) (packet_digest (sha256 E) (sync_packet E a c)) m @ ys)
    \<and> handle_sync_request E b k (sync_packet E a c) =
        Ret (b\<lparr>outbox := outbox b @ concat (map (\<lambda>m. frames_of k (sm_raw m) (sm_digest m) (link_mtu b k)) missing)\<rparr>)
    \<and> (\<forall>m \<in> set missing. \<forall>pkt fs is j. relayable E a c m pkt \<and> receptive E a pkt c \<and> frag_split (sm_raw m) (sm_digest m) (link_mtu b k) = Inr fs
         \<and> insert j (set is) = {..<length fs} \<and> j \<notin> set is \<longrightarrow>
         (\<exists>a'. on_frames E a l (map (\<lambda>i. fs ! i) (is @ [j])) = Ret a' \<and> took_in E a pkt c (sm_body m) a'))"
proof (intro conjI ballI allI impI)
  show "\<exists>xs ys. outbox a' = xs @ frames_of l (encode (sync_packet E a c)) (packet_digest (sha256 E) (sync_packet E a c)) m @ ys"
    by (rule link_up_requests [OF assms(8,9)])
  show "handle_sync_request E b k (sync_packet E a c) =
      Ret (b\<lparr>outbox := outbox b @ concat (map (\<lambda>m. frames_of k (sm_raw m) (sm_digest m) (link_mtu b k)) missing)\<rparr>)"
    unfolding assms(10) by (rule answers_missing [OF assms(1,2,4) _ assms(5-7)]) (simp add: sync_packet_def)
  fix x pkt fs "is" j
  assume x: "relayable E a c x pkt \<and> receptive E a pkt c \<and> frag_split (sm_raw x) (sm_digest x) (link_mtu b k) = Inr fs
    \<and> insert j (set is) = {..<length fs} \<and> j \<notin> set is"
  then show "\<exists>a'. on_frames E a l (map (\<lambda>i. fs ! i) (is @ [j])) = Ret a' \<and> took_in E a pkt c (sm_body x) a'"
    by (elim conjE) (rule channel_frames_taken_in [OF assms(1,3), where m = "link_mtu b k"], auto simp: relayable_def)
qed


text \<open>A node without links has sent a message; a new node asks it for the default channel.\<close>

theorem missing_messages_recovered_witness:
  "\<exists>d b b' fs a'. send_channel_message sample_env (sample_node 2) DEFAULT_CHANNEL [104, 105] = (d, b)
     \<and> handle_sync_request sample_env b 7 (sync_packet sample_env (sample_node 1) DEFAULT_CHANNEL) = Ret b' \<and> outbox b' = map (Send 7) fs
     \<and> on_frames sample_env (sample_node 1) 7 fs = Ret a' \<and> has_message (store sample_env) (n_store a') d"
proof -
  let ?c = DEFAULT_CHANNEL and ?a = "sample_node 1" and ?s = "sample_node 2"
  let ?p = "channel_packet sample_env ?s ?c [104, 105]" 
  let ?m = "kept_message sample_env ?p ?c [104, 105]" and ?d = "packet_digest (sha256 sample_env) ?p"
  obtain d b where b: "send_channel_message sample_env ?s ?c [104, 105] = (d, b)" by fastforce
  have c: "normalize (uni_lower sample_env) ?c = ?c" by (simp add: sample_env_def) code_simp
  have d: "d = ?d" and st: "n_store b = mem_put_channel_message (memory_store_new 1000 21600000 86400000 100) ?m"
    and lnk: "links b = []" "n_cfg b = default_tunables" "outbox b = []"
    using b unfolding send_channel_message_sends c by (auto simp: memory_ops_def sample_node_def node_new_def broadcast_calls_def)
  have new: "mem_ok (memory_store_new 1000 21600000 86400000 100)" by (simp add: mem_ok_def channel_ok_def memory_store_new_def)
  have ok: "mem_ok (n_store b)" unfolding st by (rule mem_put_mem_ok [OF new])
  have eph: "length (node_eph_id ?s) = 8" by simp
  have pok: "packet_ok ?p" by (rule channel_packet_ok [OF sample_crypto_ok eph]) simp
  have v: "valid_utf8 ?c" "valid_utf8 [104, 105]" "length ?c \<le> 255" by code_simp+
  have ds: "channel_digests (store sample_env) (n_store ?a) ?c = []"
    by (simp add: memory_ops_def mem_channel_digests_def get_or_default_def memory_store_new_def)
  have len: "length (encode ?p) \<le> 1048576" "encode ?p \<noteq> []"
    using encode_length [OF pok] encode_channel_length [of "lz4_compress sample_env" ?c "[104, 105]" "n_cfg ?s"] by auto
  have mm: "missing_messages (n_store b) ?c [] = [?m]"
    using len(2) by (simp add: st missing_messages_def mem_put_channel_message_def prune_channel_def memory_store_new_def get_or_default_def
      Let_def kept_message_def saturating_sub_def)
  have up: "\<exists>a'. on_transport_event sample_env ?a (LinkUp 7 600 None) = Ret a'" by (simp add: on_transport_event_def)
  then obtain a0 where a0: "on_transport_event sample_env ?a (LinkUp 7 600 None) = Ret a0" by blast
  have sub: "bm_contains (subscribed ?a) ?c" by (simp add: sample_node_def node_new_def bm_contains_def)
  have sha: "\<And>bs. length (sha256 sample_env bs) = 32" by simp
  have perm: "\<And>xs :: bytes list. set (id xs) = set xs" by simp
  have e0: "\<forall>d \<in> set (channel_digests (store sample_env) (n_store ?a) ?c). length d = 8" by (simp only: ds list.set(1) ball_empty)
  note r = missing_messages_recovered [OF sample_env_fields(2) perm sha ok v(3,1) e0 a0 sub refl, where k = 7, unfolded ds mm]
  have mtu: "link_mtu b 7 = 182" using lnk by (simp add: link_mtu_def)
  have "\<exists>fs. frag_split (encode ?p) ?d 182 = Inr fs"
    by (rule split_fits) (use len(1) in \<open>simp_all add: FRAG_HEADER_def\<close>)
  then obtain fs where fs: "frag_split (encode ?p) ?d 182 = Inr fs" by blast
  have "decode_channel (lz4_decompress sample_env) (p_payload ?p) (n_cfg ?a) = Ret (Some (?c, [104, 105]))"
    using decode_encode_channel [OF v(3) sample_lz4, of "[104, 105]" "n_cfg ?a" "n_cfg ?s"] from_utf8_lossy_valid v(1,2)
    by (simp add: sample_node_def node_new_def)
  with pok have rel: "relayable sample_env ?a ?c ?m ?p" by (simp add: relayable_def kept_message_def)
  note ord = in_order [OF split_nonempty [OF fs]]
  have "\<exists>a'. on_frames sample_env ?a 7 (map (\<lambda>i. fs ! i) ([0..<length fs - 1] @ [length fs - 1])) = Ret a'
      \<and> took_in sample_env ?a ?p ?c (sm_body ?m) a'"
    using r [THEN conjunct2, THEN conjunct2] rel sample_receptive [OF len(1)] fs ord(2) mtu
    by (simp add: kept_message_def)
  then obtain a' where a': "on_frames sample_env ?a 7 fs = Ret a'" "took_in sample_env ?a ?p ?c (sm_body ?m) a'"
    unfolding ord(1) by blast
  have "handle_sync_request sample_env b 7 (sync_packet sample_env ?a ?c) = Ret (b\<lparr>outbox := map (Send 7) fs\<rparr>)"
    using r [THEN conjunct2, THEN conjunct1] fs mtu lnk(3) by (simp add: kept_message_def frames_of_def)
  moreover have "has_message (store sample_env) (n_store a') d" using a'(2) by (simp add: took_in_def d)
  ultimately show ?thesis using b a'(1) by fastforce
qed

end
