(* ===== verification/Multihop.thy ===== *)
theory Multihop
  imports Gossip
begin

text \<open>
  How a channel message crosses a mesh: what a relay does with a packet it takes in, and the frames of a
  packet along a line of relays, each with its own parameters, clock and links.
\<close>

section \<open>A relay\<close>

text \<open>The packet with its hop limit lowered.\<close>

definition lowered :: "packet \<Rightarrow> nat \<Rightarrow> packet" where
  "lowered pkt k = pkt\<lparr>p_ttl := p_ttl pkt - of_nat k\<rparr>"

lemma lowered_fields [simp]:
  "p_type (lowered pkt k) = p_type pkt" "p_sender (lowered pkt k) = p_sender pkt" "p_payload (lowered pkt k) = p_payload pkt"
  "p_timestamp_ms (lowered pkt k) = p_timestamp_ms pkt" "p_recipient (lowered pkt k) = p_recipient pkt"
  "packet_digest h (lowered pkt k) = packet_digest h pkt" "lowered pkt 0 = pkt"
  by (simp_all add: lowered_def packet_digest_def signed_region_ttl)

lemma lowered_ok: "packet_ok pkt \<Longrightarrow> packet_ok (lowered pkt k)"
  by (simp add: packet_ok_def lowered_def)

lemma lowered_lowered: "(lowered pkt k)\<lparr>p_ttl := p_ttl (lowered pkt k) - 1\<rparr> = lowered pkt (Suc k)"
  by (simp add: lowered_def algebra_simps)

text \<open>A node that decides to relay a packet heard on link \<open>l\<close>, and whose jitter is over at time \<open>t\<close>.\<close>

definition relay_at :: "('hs, 'ts, 's) env \<Rightarrow> ('hs, 'ts, 's) node \<Rightarrow> millis" where
  "relay_at E n = clock n + fst (relay_delay (rngs E) (n_cfg n) (snd (should_relay (rngs E) (length (links n)) (n_cfg n) (n_rng n))))"

definition willing :: "('hs, 'ts, 's) env \<Rightarrow> ('hs, 'ts, 's) node \<Rightarrow> packet \<Rightarrow> millis \<Rightarrow> bool" where
  "willing E n pkt t \<longleftrightarrow> fst (should_relay (rngs E) (length (links n)) (n_cfg n) (n_rng n))
     \<and> bm_get (rs_pending (scheduler n)) (packet_digest (sha256 E) pkt) = None
     \<and> 1 < suppression_threshold (rs_cfg (scheduler n)) \<and> relay_at E n \<le> t"

lemma heard_once:
  assumes "seen_ok c" "hear_count c d = 0"
  shows "hear_count (snd (observe c d t)) d = 1"
proof -
  have "bm_get (sc_map c) d = None"
    using assms by (force simp: hear_count_def seen_ok_def dest: map_of_SomeD split: option.splits)
  then show ?thesis by (simp add: observe_def hear_count_def Let_def)
qed

lemma maybe_relay_schedules:
  assumes "willing E n pkt t" "1 < p_ttl pkt"
  shows "scheduler (maybe_relay E n l pkt) = schedule (scheduler n) (packet_digest (sha256 E) pkt) (pkt\<lparr>p_ttl := p_ttl pkt - 1\<rparr>) l
      (relay_at E n - clock n) (clock n)"
    "links (maybe_relay E n l pkt) = links n" "seen (maybe_relay E n l pkt) = seen n" "outbox (maybe_relay E n l pkt) = outbox n"
proof -
  have "\<not> p_ttl pkt \<le> 1" using assms(2) by (simp add: not_le)
  moreover have "packet_digest (sha256 E) (pkt\<lparr>p_ttl := p_ttl pkt - 1\<rparr>) = packet_digest (sha256 E) pkt"
    by (simp add: packet_digest_def signed_region_ttl)
  ultimately show "scheduler (maybe_relay E n l pkt) = schedule (scheduler n) (packet_digest (sha256 E) pkt) (pkt\<lparr>p_ttl := p_ttl pkt - 1\<rparr>) l
      (relay_at E n - clock n) (clock n)"
    "links (maybe_relay E n l pkt) = links n" "seen (maybe_relay E n l pkt) = seen n" "outbox (maybe_relay E n l pkt) = outbox n"
    using assms by (auto simp: maybe_relay_def willing_def relay_at_def Let_def split: prod.splits)
qed

lemma tick_releases:
  assumes "node_ok n" "bm_get (rs_pending (scheduler n)) d = Some p" "pr_send_at_ms p \<le> clock n"
    "hear_count (seen n) d < suppression_threshold (rs_cfg (scheduler n))"
  shows "\<exists>w n' xs ys. tick E n = Ret (w, n') \<and> node_ok n'
    \<and> outbox n' = xs @ broadcast_calls E n (pr_packet p) (Some (pr_exclude_link p)) @ ys"
proof -
  let ?due = "filter (\<lambda>(d, p). pr_send_at_ms p \<le> clock n \<and> hear_count (seen n) d < suppression_threshold (rs_cfg (scheduler n))) (rs_pending (scheduler n))"
  let ?f = "\<lambda>(d, p). \<lparr>dr_packet = pr_packet p, dr_exclude_link = pr_exclude_link p\<rparr>"
  obtain sch where du: "due (scheduler n) (clock n) (seen n) = Ret (map ?f ?due, sch)"
    using due_eq [of "scheduler n" "clock n" "seen n"] assms(1) by (simp add: node_ok_def)
  have "(d, p) \<in> set ?due" using assms(2-4) by (auto dest: map_of_SomeD)
  then obtain us vs where "?due = us @ (d, p) # vs" by (meson split_list)
  then have out: "map ?f ?due = map ?f us @ \<lparr>dr_packet = pr_packet p, dr_exclude_link = pr_exclude_link p\<rparr> # map ?f vs" by simp
  have calls: "broadcast_calls E (n\<lparr>scheduler := sch\<rparr>) = broadcast_calls E n" by (simp add: broadcast_calls_def fun_eq_iff)
  let ?fire = "\<lambda>ds. concat (map (\<lambda>d. broadcast_calls E n (dr_packet d) (Some (dr_exclude_link d))) ds)"
  let ?m = "(foldl (fire_relay E) (n\<lparr>scheduler := sch\<rparr>) (map ?f ?due))\<lparr>seen := snd (evict_expired_seen (seen n) (clock n)),
     n_reassembler := snd (evict_expired_slots (n_reassembler n) (clock n))\<rparr>"
  have fired: "outbox ?m = outbox n @ ?fire (map ?f us) @ broadcast_calls E n (pr_packet p) (Some (pr_exclude_link p)) @ ?fire (map ?f vs)"
    unfolding fire_all_eq out calls by simp
  obtain w n' where t: "tick E n = Ret (w, n')" "node_ok n'" using tick_ok [OF assms(1)] by blast
  have "n' = retry_stalled_handshakes E ?m (clock n)"
    using t(1) du by (simp add: tick_def Let_def fire_all_eq)
  then have "talk_keeps ?m n'" using tk.r_retry_stalled by blast
  then obtain zs where "outbox n' = outbox ?m @ zs" unfolding talk_keeps_def by blast
  with fired have "outbox n' = (outbox n @ ?fire (map ?f us)) @ broadcast_calls E n (pr_packet p) (Some (pr_exclude_link p)) @ (?fire (map ?f vs) @ zs)"
    by simp
  with t show ?thesis by blast
qed


text \<open>What a relay does with the frames of a packet: it takes the packet in, and when its jitter is over the
  timer sends the packet, with the hop limit one lower, on every link but the one it came from.\<close>

lemma relay_passes_on:
  assumes "store E = memory_ops order" "\<And>bs. length (sha256 E bs) = 32" "packet_ok pkt" "p_type pkt = ChannelMessage"
    and "receptive E n pkt c" "willing E n pkt t" "1 < p_ttl pkt"
    and "decode_channel (lz4_decompress E) (p_payload pkt) (n_cfg n) = Ret (Some (c, body))"
    and "frag_split (encode pkt) (packet_digest (sha256 E) pkt) m = Inr fs"
  shows "\<exists>n1 w n2 xs ys. on_frames E n l fs = Ret n1 \<and> took_in E n pkt c body n1
    \<and> tick E (n1\<lparr>clock := t\<rparr>) = Ret (w, n2)
    \<and> outbox n2 = xs @ broadcast_calls E n (pkt\<lparr>p_ttl := p_ttl pkt - 1\<rparr>) (Some l) @ ys"
proof -
  let ?d = "packet_digest (sha256 E) pkt"
  note ord = in_order [OF split_nonempty [OF assms(9)]]
  obtain ra where ra: "reassembler_ok ra"
    and f: "on_frames E n l (map (\<lambda>i. fs ! i) ([0..<length fs - 1] @ [length fs - 1])) =
      Ret (maybe_relay E (taken E (n\<lparr>n_reassembler := ra\<rparr>) pkt c body) l pkt)"
    by (rule channel_frames_handled [OF assms(2-5,8,9)]) (use ord(2) in blast)+
  let ?t = "taken E (n\<lparr>n_reassembler := ra\<rparr>) pkt c body"
  let ?n1 = "maybe_relay E ?t l pkt"
  have took: "took_in E n pkt c body ?n1" by (rule taken_took_in [OF assms(1,5) ra assms(4,8)])
  have same: "links ?t = links n" "n_cfg ?t = n_cfg n" "n_rng ?t = n_rng n" "clock ?t = clock n" "scheduler ?t = scheduler n"
    "seen ?t = snd (observe (seen n) ?d (clock n))"
    by (simp_all add: taken_def admitted_def push_event_def Let_def)
  have w: "willing E ?t pkt t" "relay_at E ?t = relay_at E n" using assms(6) same by (simp_all add: willing_def relay_at_def)
  note r = maybe_relay_schedules [OF w(1) assms(7), of l, unfolded w(2) same]
  let ?n = "?n1\<lparr>clock := t\<rparr>"
  let ?p = "\<lparr>pr_packet = pkt\<lparr>p_ttl := p_ttl pkt - 1\<rparr>, pr_send_at_ms = relay_at E n, pr_exclude_link = l\<rparr>"
  have pend: "bm_get (rs_pending (scheduler ?n)) ?d = Some ?p"
    using assms(6) by (simp add: r schedule_def willing_def bm_contains_def)
  have "hear_count (seen n) ?d = 0" "seen_ok (seen n)" using assms(5) by (auto simp: receptive_def node_ok_def parts_ok_def)
  then have "hear_count (seen ?n) ?d = 1" using heard_once by (simp add: r)
  then have heard: "hear_count (seen ?n) ?d < suppression_threshold (rs_cfg (scheduler ?n))"
    using assms(6) by (simp add: r schedule_def willing_def)
  have "node_ok ?n" using took by (simp add: took_in_def node_ok_def parts_ok_def)
  from tick_releases [OF this pend _ heard, of E] assms(6) obtain w n2 xs ys where
    "tick E ?n = Ret (w, n2)" "outbox n2 = xs @ broadcast_calls E ?n (pkt\<lparr>p_ttl := p_ttl pkt - 1\<rparr>) (Some l) @ ys"
    by (auto simp: willing_def)
  moreover have "broadcast_calls E ?n = broadcast_calls E n" by (simp add: broadcast_calls_def fun_eq_iff r)
  ultimately show ?thesis using f took unfolding ord(1) by auto
qed


section \<open>A line of relays\<close>

text \<open>A node of the line with its parameters, the link a packet comes in on, the one the next node is
  on, and the time its timer runs.\<close>

record ('hs, 'ts) hop =
  h_env :: "('hs, 'ts, memory_store) env"
  h_node :: "('hs, 'ts, memory_store) node"
  h_in :: link_id
  h_out :: link_id
  h_time :: millis

text \<open>Frames pass a line of nodes when each of them handles what the node before it sent on the link
  between the two and then, at its time, runs its timer.\<close>

inductive passes ::
  "bytes list \<Rightarrow> ('hs, 'ts) hop list \<Rightarrow> ('hs, 'ts, memory_store) node list \<Rightarrow> bytes list \<Rightarrow> bool" where
  Arrived: "passes fs [] [] fs"
| Hop: "on_frames (h_env h) (h_node h) (h_in h) fs = Ret n1 \<Longrightarrow> tick (h_env h) (n1\<lparr>clock := h_time h\<rparr>) = Ret (w, n2) \<Longrightarrow>
    outbox n2 = xs @ map (Send (h_out h)) fs' @ ys \<Longrightarrow> passes fs' hs ns fs'' \<Longrightarrow> passes fs (h # hs) (n1 # ns) fs''"

text \<open>A packet that carries_text a channel message, and a node that can take it in.\<close>

definition carries_text :: "('hs, 'ts, memory_store) env \<Rightarrow> rstring \<Rightarrow> rstring \<Rightarrow> packet \<Rightarrow> bool" where
  "carries_text E c body pkt \<longleftrightarrow> packet_ok pkt \<and> p_type pkt = ChannelMessage \<and> (\<exists>cfg. p_payload pkt = encode_channel (lz4_compress E) c body cfg)
     \<and> length c \<le> 255 \<and> valid_utf8 c \<and> valid_utf8 body \<and> length body < 2 ^ 32"

definition peer_ready :: "('hs, 'ts, memory_store) env \<Rightarrow> rstring \<Rightarrow> rstring \<Rightarrow> packet
    \<Rightarrow> ('hs, 'ts, memory_store) env \<Rightarrow> ('hs, 'ts, memory_store) node \<Rightarrow> bool" where
  "peer_ready E c body pkt F n \<longleftrightarrow> sha256 F = sha256 E \<and> (\<exists>order. store F = memory_ops order)
     \<and> lz4_roundtrip (lz4_compress E) (lz4_decompress F) \<and> length body \<le> decompress_max_bytes (n_cfg n) \<and> receptive F n pkt c"

definition hop_ready :: "('hs, 'ts, memory_store) env \<Rightarrow> rstring \<Rightarrow> rstring \<Rightarrow> packet \<Rightarrow> ('hs, 'ts) hop \<Rightarrow> bool" where
  "hop_ready E c body pkt h \<longleftrightarrow> peer_ready E c body pkt (h_env h) (h_node h) \<and> willing (h_env h) (h_node h) pkt (h_time h)
     \<and> h_out h \<noteq> h_in h \<and> (\<exists>st. (h_out h, st) \<in> set (links (h_node h)) \<and> FRAG_HEADER + 2 \<le> mtu st)"

lemma carries_text_lowered: "carries_text E c body pkt \<Longrightarrow> carries_text E c body (lowered pkt k)"
  by (simp add: carries_text_def lowered_ok)

lemma carries_text_decodes:
  assumes "carries_text E c body pkt" "peer_ready E c body pkt F n"
  shows "decode_channel (lz4_decompress F) (p_payload pkt) (n_cfg n) = Ret (Some (c, body))"
proof -
  obtain cfg where p: "p_payload pkt = encode_channel (lz4_compress E) c body cfg" using assms(1) by (auto simp: carries_text_def)
  show ?thesis unfolding p
    using decode_encode_channel [of c "lz4_compress E" "lz4_decompress F" body "n_cfg n" cfg] assms from_utf8_lossy_valid
    by (simp add: carries_text_def peer_ready_def)
qed

lemma broadcast_frames_but:
  assumes "(l, st) \<in> set (links n)" "Some l \<noteq> ex" "frag_split (encode p) (packet_digest (sha256 E) p) (mtu st) = Inr fs"
  shows "\<exists>xs ys. broadcast_calls E n p ex = xs @ map (Send l) fs @ ys"
proof -
  obtain us vs where "links n = us @ (l, st) # vs" using assms(1) by (meson split_list)
  then have "broadcast_calls E n p ex = broadcast_calls E (n\<lparr>links := us\<rparr>) p ex @ map (Send l) fs @ broadcast_calls E (n\<lparr>links := vs\<rparr>) p ex"
    using assms(2,3) by (simp add: broadcast_calls_def frames_of_def)
  then show ?thesis by blast
qed

lemma packet_splits:
  assumes "packet_ok pkt" "FRAG_HEADER + 2 \<le> m"
  shows "\<exists>fs. frag_split (encode pkt) d m = Inr fs"
proof (rule split_fits)
  have "length (p_payload pkt) < 2 ^ 16" using assms(1) by (simp add: packet_ok_def)
  then have "length (encode pkt) \<le> 2 * 65535" using encode_length [OF assms(1)] by (simp split: option.splits)
  also have "\<dots> \<le> (m - FRAG_HEADER) * 65535" by (rule mult_right_mono) (use assms(2) in simp_all)
  finally show "length (encode pkt) \<le> (m - FRAG_HEADER) * 65535" .
qed (use assms(2) in simp)

lemma hop_passes_on:
  assumes "\<And>bs. length (sha256 E bs) = 32" "carries_text E c body pkt" "1 < p_ttl pkt" "hop_ready E c body pkt h"
    and "frag_split (encode pkt) (packet_digest (sha256 E) pkt) m = Inr fs"
  obtains n1 w n2 xs fs' ys m' where "on_frames (h_env h) (h_node h) (h_in h) fs = Ret n1" "took_in (h_env h) (h_node h) pkt c body n1"
    "tick (h_env h) (n1\<lparr>clock := h_time h\<rparr>) = Ret (w, n2)" "outbox n2 = xs @ map (Send (h_out h)) fs' @ ys"
    "frag_split (encode (lowered pkt 1)) (packet_digest (sha256 E) (lowered pkt 1)) m' = Inr fs'"
proof -
  let ?E = "h_env h" and ?n = "h_node h" and ?q = "lowered pkt 1" and ?H = "sha256 E"
  from assms(4) obtain order st where h: "sha256 ?E = ?H" "store ?E = memory_ops order" "receptive ?E ?n pkt c"
    "willing ?E ?n pkt (h_time h)" "h_out h \<noteq> h_in h" "(h_out h, st) \<in> set (links ?n)" "FRAG_HEADER + 2 \<le> mtu st"
    and peer: "peer_ready E c body pkt ?E ?n"
    by (auto simp: hop_ready_def peer_ready_def)
  have ok: "packet_ok pkt" "p_type pkt = ChannelMessage" using assms(2) by (simp_all add: carries_text_def)
  note dec = carries_text_decodes [OF assms(2) peer]
  have q: "pkt\<lparr>p_ttl := p_ttl pkt - 1\<rparr> = ?q" by (simp add: lowered_def)
  obtain n1 w n2 us vs where r: "on_frames ?E ?n (h_in h) fs = Ret n1" "took_in ?E ?n pkt c body n1"
    "tick ?E (n1\<lparr>clock := h_time h\<rparr>) = Ret (w, n2)" "outbox n2 = us @ broadcast_calls ?E ?n ?q (Some (h_in h)) @ vs"
    using relay_passes_on [OF h(2) _ ok h(3,4) assms(3) dec, of m fs "h_in h"] assms(1,5) h(1) unfolding q by auto
  obtain fs' where fs': "frag_split (encode ?q) (packet_digest ?H ?q) (mtu st) = Inr fs'"
    using packet_splits [OF lowered_ok [OF ok(1)] h(7)] by blast
  then obtain xs ys where "broadcast_calls ?E ?n ?q (Some (h_in h)) = xs @ map (Send (h_out h)) fs' @ ys"
    using broadcast_frames_but [OF h(6), of "Some (h_in h)" ?q ?E fs'] h(1,5) by auto
  with r(4) have "outbox n2 = (us @ xs) @ map (Send (h_out h)) fs' @ (ys @ vs)" by simp
  with r(1-3) fs' that show ?thesis by blast
qed

lemma lowered_ttl:
  assumes "k < unat (p_ttl pkt)"
  shows "unat (p_ttl (lowered pkt k)) = unat (p_ttl pkt) - k"
proof -
  have "unat (p_ttl pkt) < 2 ^ 8" using unsigned_less [of "p_ttl pkt"] by simp
  with assms have "k < 2 ^ 8" by linarith
  then have k: "unat (of_nat k :: u8) = k" by (simp add: unat_of_nat)
  then have "(of_nat k :: u8) \<le> p_ttl pkt" using assms by (simp add: word_le_nat_alt)
  then show ?thesis using k by (simp add: lowered_def unat_sub)
qed

lemma crosses_line:
  assumes "\<And>bs. length (sha256 E bs) = 32" "carries_text E c body pkt" "k + length hs < unat (p_ttl pkt)"
    and "\<forall>i < length hs. hop_ready E c body (lowered pkt (k + i)) (hs ! i)"
    and "frag_split (encode (lowered pkt k)) (packet_digest (sha256 E) pkt) m = Inr fs"
  shows "\<exists>ns fs' m'. passes fs hs ns fs' \<and> length ns = length hs
    \<and> (\<forall>i < length hs. took_in (h_env (hs ! i)) (h_node (hs ! i)) (lowered pkt (k + i)) c body (ns ! i))
    \<and> frag_split (encode (lowered pkt (k + length hs))) (packet_digest (sha256 E) pkt) m' = Inr fs'"
  using assms(3-5)
proof (induction hs arbitrary: k fs m)
  case Nil
  then show ?case by (auto intro: passes.Arrived)
next
  case (Cons h hs)
  let ?q = "lowered pkt k" and ?H = "sha256 E"
  have "1 < p_ttl ?q" "hop_ready E c body ?q h" "frag_split (encode ?q) (packet_digest ?H ?q) m = Inr fs"
    using lowered_ttl [of k pkt] Cons.prems by (force simp: word_less_nat_alt)+
  from hop_passes_on [OF assms(1) carries_text_lowered [OF assms(2)] this]
  obtain n1 w n2 xs fs1 ys m1 where h: "on_frames (h_env h) (h_node h) (h_in h) fs = Ret n1"
    "took_in (h_env h) (h_node h) ?q c body n1" "tick (h_env h) (n1\<lparr>clock := h_time h\<rparr>) = Ret (w, n2)"
    "outbox n2 = xs @ map (Send (h_out h)) fs1 @ ys"
    "frag_split (encode (lowered ?q 1)) (packet_digest ?H (lowered ?q 1)) m1 = Inr fs1" .
  have next1: "lowered ?q 1 = lowered pkt (Suc k)" using lowered_lowered [of pkt k] by (simp add: lowered_def)
  have "\<forall>i < length hs. hop_ready E c body (lowered pkt (Suc k + i)) (hs ! i)" using Cons.prems(2) by fastforce
  with Cons.IH [of "Suc k" m1 fs1] h(5) Cons.prems(1) obtain ns fs' m' where
    ns: "passes fs1 hs ns fs'" "length ns = length hs"
    "\<forall>i < length hs. took_in (h_env (hs ! i)) (h_node (hs ! i)) (lowered pkt (Suc k + i)) c body (ns ! i)"
    "frag_split (encode (lowered pkt (Suc k + length hs))) (packet_digest ?H pkt) m' = Inr fs'"
    unfolding next1 by auto
  have "passes fs (h # hs) (n1 # ns) fs'" by (rule passes.Hop [OF h(1,3,4) ns(1)])
  moreover have "took_in (h_env ((h # hs) ! i)) (h_node ((h # hs) ! i)) (lowered pkt (k + i)) c body ((n1 # ns) ! i)"
    if "i < length (h # hs)" for i
    using that h(2) ns(3) by (cases i) auto
  ultimately show ?case using ns(2,4) by (intro exI [of _ "n1 # ns"] exI [of _ fs'] exI [of _ m']) simp
qed

text \<open>C14: a channel message crosses the mesh.  Let the nodes of a line be fewer than the packet's hop limit,
  each able to take the packet in, drawing in favour of the relay, with a link to the next node and a
  timer that runs once its jitter is over.  Then what the sender hands to its first link goes from node
  to node: every node of the line keeps and shows the text, its timer does not fail and hands the frames of
  the packet, with the hop limit one lower, to the link of the next node; and the node at the end keeps
  the text under the digest the sender got back.\<close>

theorem message_crosses_line:
  fixes E :: "('hs, 'ts, memory_store) env"
  assumes "crypto_ok E" "send_channel_message E a name body = (d, a')" "c = normalize (uni_lower E) name"
    and "length (node_eph_id a) = 8" "(l, st) \<in> set (links a)" "FRAG_HEADER + 2 \<le> mtu st"
    and "length c \<le> 255" "valid_utf8 c" "valid_utf8 body" "length body + 257 < 2 ^ 16"
    and "p = channel_packet E a c body" "length hs < unat (p_ttl p)"
    and "\<forall>i < length hs. hop_ready E c body (lowered p i) (hs ! i)" "peer_ready E c body (lowered p (length hs)) F b"
  shows "\<exists>xs fs ys ns fs' b'. outbox a' = xs @ map (Send l) fs @ ys \<and> passes fs hs ns fs'
    \<and> (\<forall>i < length hs. took_in (h_env (hs ! i)) (h_node (hs ! i)) (lowered p i) c body (ns ! i))
    \<and> on_frames F b k fs' = Ret b' \<and> took_in F b (lowered p (length hs)) c body b' \<and> has_message (store F) (n_store b') d"
proof -
  let ?q = "lowered p (length hs)"
  have a': "d = packet_digest (sha256 E) p" "outbox a' = outbox a @ broadcast_calls E a p None"
    using assms(2) unfolding send_channel_message_sends assms(3) [symmetric] assms(11) [symmetric] by auto
  have sha: "\<And>bs. length (sha256 E bs) = 32" using assms(1) by (simp add: crypto_ok_def)
  have ok: "packet_ok p" unfolding assms(11) by (rule channel_packet_ok [OF assms(1,4,10)])
  have car: "carries_text E c body p" using ok assms(7-10) by (auto simp: carries_text_def assms(11))
  obtain fs where fs: "frag_split (encode p) (packet_digest (sha256 E) p) (mtu st) = Inr fs"
    using packet_splits [OF ok assms(6)] by blast
  obtain xs ys where out: "broadcast_calls E a p None = xs @ map (Send l) fs @ ys"
    using broadcast_calls_frames [OF assms(5) fs] by blast
  obtain ns fs' m' where ns: "passes fs hs ns fs'"
    "\<forall>i < length hs. took_in (h_env (hs ! i)) (h_node (hs ! i)) (lowered p i) c body (ns ! i)"
    "frag_split (encode ?q) (packet_digest (sha256 E) ?q) m' = Inr fs'"
    using crosses_line [OF sha car, of 0 hs "mtu st" fs] assms(12,13) fs by auto
  obtain order where F: "sha256 F = sha256 E" "store F = memory_ops order" "receptive F b ?q c"
    using assms(14) by (auto simp: peer_ready_def)
  note q = carries_text_lowered [OF car, of "length hs"]
  note ord = in_order [OF split_nonempty [OF ns(3)]]
  obtain b' where b': "on_frames F b k fs' = Ret b'" "took_in F b ?q c body b'"
    using channel_frames_taken_in [OF F(2) _ _ _ F(3) carries_text_decodes [OF q assms(14)], of m' fs'] ns(3) ord q sha
    unfolding F(1) carries_text_def by metis
  have "outbox a' = (outbox a @ xs) @ map (Send l) fs @ ys" using a'(2) out by simp
  moreover have "has_message (store F) (n_store b') d" using b'(2) by (simp add: took_in_def a'(1) F(1))
  ultimately show ?thesis using ns(1,2) b' by blast
qed


section \<open>A sample line\<close>

definition sample_link :: link_state where
  "sample_link = \<lparr>mtu = 600, peer_eph = None, peer_fp = None\<rparr>"

definition sample_hop :: "u8 \<Rightarrow> (xx_hs, xx_ts) hop" where
  "sample_hop k = \<lparr>h_env = sample_env, h_node = (sample_node k)\<lparr>links := [(7, sample_link), (8, sample_link)]\<rparr>, h_in = 7, h_out = 8, h_time = 1220\<rparr>"

lemma sample_peer:
  assumes "length (encode p) \<le> 1048576" "length body \<le> 4096"
  shows "peer_ready sample_env c body p sample_env (sample_node k)"
  using sample_receptive [OF assms(1)] sample_lz4 assms(2) by (auto simp: peer_ready_def sample_node_def node_new_def)

lemma sample_hop_ready:
  assumes "length (encode p) \<le> 1048576" "length body \<le> 4096"
  shows "hop_ready sample_env c body p (sample_hop k)"
proof -
  let ?n = "h_node (sample_hop k)"
  have "peer_ready sample_env c body p sample_env ?n"
    using sample_peer [OF assms, of c k] by (simp add: sample_hop_def peer_ready_def receptive_def unforged_def node_ok_def parts_ok_def bm_ok_def)
  moreover have "willing sample_env ?n p 1220"
    by (simp add: willing_def relay_at_def sample_hop_def sample_node_def node_new_def should_relay_def relay_delay_def
        rebroadcast_probability_def relay_scheduler_new_def sample_env_def default_tunables_def)
  ultimately show ?thesis by (auto simp: hop_ready_def sample_hop_def sample_link_def FRAG_HEADER_def)
qed

lemma lowered_length: "packet_ok p \<Longrightarrow> length (encode (lowered p k)) = length (encode p)"
  using encode_length [of p] encode_length [OF lowered_ok, of p k] by simp

text \<open>Two relays between a sender and a receiver that have no link to each other.\<close>

theorem message_crosses_line_witness:
  "\<exists>d a' xs fs ys ns fs' b'. send_channel_message sample_env ((sample_node 2)\<lparr>links := [(7, sample_link)]\<rparr>) DEFAULT_CHANNEL [104, 105] = (d, a')
     \<and> outbox a' = xs @ map (Send 7) fs @ ys \<and> passes fs [sample_hop 3, sample_hop 4] ns fs'
     \<and> on_frames sample_env (sample_node 1) 7 fs' = Ret b' \<and> has_message (store sample_env) (n_store b') d"
proof -
  let ?a = "(sample_node 2)\<lparr>links := [(7, sample_link)]\<rparr>" and ?hs = "[sample_hop 3, sample_hop 4]"
  let ?p = "channel_packet sample_env ?a DEFAULT_CHANNEL [104, 105]"
  obtain d a' where s: "send_channel_message sample_env ?a DEFAULT_CHANNEL [104, 105] = (d, a')" by fastforce
  have c: "DEFAULT_CHANNEL = normalize (uni_lower sample_env) DEFAULT_CHANNEL" by (simp add: sample_env_def) code_simp
  have v: "valid_utf8 DEFAULT_CHANNEL" "valid_utf8 [104, 105]" "length DEFAULT_CHANNEL \<le> 255" by code_simp+
  have eph: "length (node_eph_id ?a) = 8" by (simp add: node_eph_id_def sample_node_def node_new_def)
  have ok: "packet_ok ?p" by (rule channel_packet_ok [OF sample_crypto_ok eph]) simp
  have len: "length (encode (lowered ?p i)) \<le> 1048576" for i
    unfolding lowered_length [OF ok]
    using encode_length [OF ok] encode_channel_length [of "lz4_compress sample_env" DEFAULT_CHANNEL "[104, 105]" "n_cfg ?a"] by simp
  have lnk: "(7, sample_link) \<in> set (links ?a)" "FRAG_HEADER + 2 \<le> mtu sample_link" by (simp_all add: sample_link_def FRAG_HEADER_def)
  have ttl: "p_ttl ?p = 10"
    by (simp add: channel_packet_def sample_node_def node_new_def origin_ttl_def default_tunables_def)
  then have far: "length ?hs < unat (p_ttl ?p)" by simp
  have hops: "\<forall>i < length ?hs. hop_ready sample_env DEFAULT_CHANNEL [104, 105] (lowered ?p i) (?hs ! i)"
    using sample_hop_ready [OF len [of 0]] sample_hop_ready [OF len [of 1]] by (simp add: nth_Cons' less_Suc_eq)
  have b: "peer_ready sample_env DEFAULT_CHANNEL [104, 105] (lowered ?p (length ?hs)) sample_env (sample_node 1)"
    by (rule sample_peer [OF len]) simp
  have body: "length [104 :: u8, 105] + 257 < 2 ^ 16" by simp
  from message_crosses_line [OF sample_crypto_ok s c eph lnk v(3,1,2) body refl far hops b, where k = 7] s show ?thesis by blast
qed

end
