(* ===== verification/Ffi.thy ===== *)
theory Ffi
  imports Contacts
begin

text \<open>
  The bindings, \<open>crates/meshcore-ffi/src/lib.rs\<close>: \<open>FfiStore\<close>, which delegates to one of the two stores,
  the strings in which identifiers cross the boundary, and every exported method of \<open>FfiMeshNode\<close>.  The
  handle is the node behind a mutex.  A method is a function from the handle to its result, the calls
  it makes on the platform's transport, and the handle after it; the wall clock is read once per call.
  Strings are their UTF-8 bytes, so slicing can panic.
\<close>

section \<open>The store behind the bindings\<close>

datatype ffi_store = FfiMemory memory_store | FfiSqlite sqlite_store

definition delegate ::
  "(memory_store \<Rightarrow> 'a) \<Rightarrow> (sqlite_store \<Rightarrow> 'a) \<Rightarrow> ffi_store \<Rightarrow> 'a" where
  "delegate f g s = (case s of FfiMemory m \<Rightarrow> f m | FfiSqlite q \<Rightarrow> g q)"

definition delegate_mut ::
  "(memory_store \<Rightarrow> memory_store) \<Rightarrow> (sqlite_store \<Rightarrow> sqlite_store) \<Rightarrow> ffi_store \<Rightarrow> ffi_store" where
  "delegate_mut f g s = (case s of FfiMemory m \<Rightarrow> FfiMemory (f m) | FfiSqlite q \<Rightarrow> FfiSqlite (g q))"

definition ffi_ops :: "(bytes list \<Rightarrow> bytes list) \<Rightarrow> engine \<Rightarrow> ffi_store store_ops" where
  "ffi_ops order eng =
     (let M = memory_ops order; Q = sqlite_ops eng in
      \<lparr>put_channel_message = (\<lambda>s m. delegate_mut (\<lambda>x. put_channel_message M x m) (\<lambda>x. put_channel_message Q x m) s),
       has_message = (\<lambda>s d. delegate (\<lambda>x. has_message M x d) (\<lambda>x. has_message Q x d) s),
       channel_history = (\<lambda>s c n. delegate (\<lambda>x. channel_history M x c n) (\<lambda>x. channel_history Q x c n) s),
       channel_digests = (\<lambda>s c. delegate (\<lambda>x. channel_digests M x c) (\<lambda>x. channel_digests Q x c) s),
       message_by_digest = (\<lambda>s d. delegate (\<lambda>x. message_by_digest M x d) (\<lambda>x. message_by_digest Q x d) s),
       upsert_peer = (\<lambda>s p. delegate_mut (\<lambda>x. upsert_peer M x p) (\<lambda>x. upsert_peer Q x p) s),
       get_peer = (\<lambda>s fp. delegate (\<lambda>x. get_peer M x fp) (\<lambda>x. get_peer Q x fp) s),
       list_peers = (\<lambda>s. delegate (list_peers M) (list_peers Q) s),
       put_dm = (\<lambda>s d. delegate_mut (\<lambda>x. put_dm M x d) (\<lambda>x. put_dm Q x d) s),
       dm_history = (\<lambda>s fp n. delegate (\<lambda>x. dm_history M x fp n) (\<lambda>x. dm_history Q x fp n) s),
       queue_envelope = (\<lambda>s fp b t. delegate_mut (\<lambda>x. queue_envelope M x fp b t) (\<lambda>x. queue_envelope Q x fp b t) s),
       take_envelopes = (\<lambda>s fp. delegate (\<lambda>x. map_prod id FfiMemory (take_envelopes M x fp)) (\<lambda>x. map_prod id FfiSqlite (take_envelopes Q x fp)) s),
       delete_peer = (\<lambda>s fp. delegate_mut (\<lambda>x. delete_peer M x fp) (\<lambda>x. delete_peer Q x fp) s),
       delete_dms = (\<lambda>s fp b. delegate_mut (\<lambda>x. delete_dms M x fp b) (\<lambda>x. delete_dms Q x fp b) s),
       store_wipe = delegate_mut (store_wipe M) (store_wipe Q)\<rparr>)"

section \<open>Strings for the platform\<close>

definition hex_char :: "nat \<Rightarrow> u8" where
  "hex_char n = (if n < 10 then 48 + of_nat n else 87 + of_nat n)"

definition ffi_hex :: "bytes \<Rightarrow> rstring" where
  "ffi_hex bs = concat (map (\<lambda>b. [hex_char (unat b div 16), hex_char (unat b mod 16)]) bs)"

text \<open>\<open>char::to_digit(16)\<close> on one byte, and \<open>u8::from_str_radix\<close> on a slice of two bytes.\<close>

definition to_digit16 :: "u8 \<Rightarrow> nat option" where
  "to_digit16 c =
     (let k = unat c in
      if 48 \<le> k \<and> k \<le> 57 then Some (k - 48)
      else if 97 \<le> k \<and> k \<le> 102 then Some (k - 87)
      else if 65 \<le> k \<and> k \<le> 70 then Some (k - 55)
      else None)"

definition from_str_radix16 :: "u8 \<Rightarrow> u8 \<Rightarrow> u8 option" where
  "from_str_radix16 a b =
     (if a = 43 then map_option of_nat (to_digit16 b)
      else case (to_digit16 a, to_digit16 b) of
             (Some h, Some l) \<Rightarrow> Some (of_nat (16 * h + l))
           | _ \<Rightarrow> None)"

text \<open>Slicing a \<open>str\<close> panics inside a UTF-8 sequence.\<close>

definition is_char_boundary :: "rstring \<Rightarrow> nat \<Rightarrow> bool" where
  "is_char_boundary s i \<longleftrightarrow> i = 0 \<or> i = length s \<or> i < length s \<and> \<not> (0x80 \<le> s ! i \<and> s ! i < 0xC0)"

definition str_slice :: "rstring \<Rightarrow> nat \<Rightarrow> nat \<Rightarrow> rstring outcome" where
  "str_slice s a b =
     (if a \<le> b \<and> is_char_boundary s a \<and> is_char_boundary s b then Ret (take (b - a) (drop a s)) else Panic)"

fun decode_pairs :: "rstring \<Rightarrow> nat list \<Rightarrow> bytes option outcome" where
  "decode_pairs s [] = Ret (Some [])"
| "decode_pairs s (i # is) =
     and_then (str_slice s (i * 2) (i * 2 + 2)) (\<lambda>p.
       case p of
         [a, b] \<Rightarrow>
           (case from_str_radix16 a b of
              None \<Rightarrow> Ret None
            | Some v \<Rightarrow> and_then (decode_pairs s is) (\<lambda>r. Ret (map_option (\<lambda>vs. v # vs) r)))
       | _ \<Rightarrow> Panic)"

definition decode_hex32 :: "rstring \<Rightarrow> bytes option outcome" where
  "decode_hex32 s = (if length s \<noteq> 64 then Ret None else decode_pairs s [0..<32])"

datatype ffi_event =
    EvMessage rstring rstring rstring bool u64
  | EvPeerAppeared rstring rstring "rstring option"
  | EvPeerLost u64
  | EvDirectMessage rstring rstring u8
  | EvPeerKeyChanged rstring
  | EvDmSession rstring bool

record ffi_message =
  fm_sender :: rstring
  fm_body :: rstring
  fm_timestamp_ms :: u64
  fm_mine :: bool

record ffi_peer =
  fpe_fingerprint :: rstring
  fpe_petname :: "rstring option"
  fpe_verified :: bool

record ffi_dm_message =
  fd_body :: rstring
  fd_timestamp_ms :: u64
  fd_mine :: bool
  fd_kind :: u8

definition to_ffi :: "mesh_event \<Rightarrow> ffi_event option" where
  "to_ffi e =
     (case e of
        MessageReceived channel sender body t v \<Rightarrow> Some (EvMessage channel (ffi_hex sender) body v t)
      | PeerAppeared fp eph name \<Rightarrow> Some (EvPeerAppeared (ffi_hex fp) (ffi_hex eph) name)
      | PeerLost link \<Rightarrow> Some (EvPeerLost link)
      | DmReceived fp _ body kind \<Rightarrow> Some (EvDirectMessage (ffi_hex fp) body kind)
      | PeerKeyChanged fp \<Rightarrow> Some (EvPeerKeyChanged (ffi_hex fp))
      | DmSession fp v \<Rightarrow> Some (EvDmSession (ffi_hex fp) v)
      | Stats _ _ _ \<Rightarrow> None)"

section \<open>The handle\<close>

text \<open>The node behind its mutex: a panic while the lock is held poisons it, and every later \<open>lock().unwrap()\<close>
  panics.  A call reads the wall clock, and hands what the node sends to the platform's transport.\<close>

record ('hs, 'ts) ffi_mesh_node =
  ffi_inner :: "('hs, 'ts, ffi_store) node"
  poisoned :: bool

definition with_lock ::
  "millis \<Rightarrow> (('hs, 'ts, ffi_store) node \<Rightarrow> ('a \<times> ('hs, 'ts, ffi_store) node) outcome) \<Rightarrow> ('hs, 'ts) ffi_mesh_node
     \<Rightarrow> 'a outcome \<times> transport_call list \<times> ('hs, 'ts) ffi_mesh_node" where
  "with_lock now op f =
     (if poisoned f then (Panic, [], f)
      else case op ((ffi_inner f)\<lparr>clock := now\<rparr>) of
             Panic \<Rightarrow> (Panic, [], f\<lparr>poisoned := True\<rparr>)
           | Ret (x, n) \<Rightarrow> (Ret x, outbox n, f\<lparr>ffi_inner := n\<lparr>outbox := []\<rparr>\<rparr>))"

definition with_fingerprint ::
  "rstring \<Rightarrow> 'a \<Rightarrow> (bytes \<Rightarrow> ('hs, 'ts) ffi_mesh_node \<Rightarrow> 'a outcome \<times> transport_call list \<times> ('hs, 'ts) ffi_mesh_node)
     \<Rightarrow> ('hs, 'ts) ffi_mesh_node \<Rightarrow> 'a outcome \<times> transport_call list \<times> ('hs, 'ts) ffi_mesh_node" where
  "with_fingerprint s dflt k f =
     (case decode_hex32 s of
        Panic \<Rightarrow> (Panic, [], f)
      | Ret None \<Rightarrow> (Ret dflt, [], f)
      | Ret (Some fp) \<Rightarrow> k fp f)"

definition mem_store :: "tunables \<Rightarrow> memory_store" where
  "mem_store cfg = memory_store_new (channel_history_max_msgs cfg) (channel_history_ms cfg) (envelope_ttl_ms cfg) (envelope_max_per_peer cfg)"

definition open_sqlite ::
  "(string \<Rightarrow> string \<Rightarrow> string + database) \<Rightarrow> string \<Rightarrow> bytes \<Rightarrow> tunables \<Rightarrow> sqlite_store option" where
  "open_sqlite connect db_path db_key cfg =
     (if length db_key \<noteq> 32 then None
      else case sql_open connect db_path db_key (channel_history_max_msgs cfg) (channel_history_ms cfg)
                  (envelope_ttl_ms cfg) (envelope_max_per_peer cfg) of
             Inl _ \<Rightarrow> None
           | Inr s \<Rightarrow> Some s)"

definition make_node ::
  "('hs, 'ts, ffi_store) env \<Rightarrow> millis \<Rightarrow> u64 \<Rightarrow> rstring \<Rightarrow> ffi_store \<Rightarrow> tunables \<Rightarrow> ('hs, 'ts) ffi_mesh_node" where
  "make_node E now seed nick st cfg =
     (let id_seed = rev (u64_to_be seed) @ replicate 24 0
      in \<lparr>ffi_inner = node_new (from_seed (sha256 E) id_seed) cfg now st nick, poisoned = False\<rparr>)"

definition ffi_new :: "('hs, 'ts, ffi_store) env \<Rightarrow> millis \<Rightarrow> u64 \<Rightarrow> rstring \<Rightarrow> ('hs, 'ts) ffi_mesh_node" where
  "ffi_new E now seed nick = make_node E now seed nick (FfiMemory (mem_store default_tunables)) default_tunables"

definition ffi_new_persistent ::
  "('hs, 'ts, ffi_store) env \<Rightarrow> (string \<Rightarrow> string \<Rightarrow> string + database) \<Rightarrow> millis \<Rightarrow> u64 \<Rightarrow> rstring \<Rightarrow> string \<Rightarrow> bytes
     \<Rightarrow> ('hs, 'ts) ffi_mesh_node" where
  "ffi_new_persistent E connect now seed nick db_path db_key =
     (let cfg = default_tunables;
          st = (case open_sqlite connect db_path db_key cfg of
                  Some s \<Rightarrow> FfiSqlite s
                | None \<Rightarrow> FfiMemory (mem_store cfg))
      in make_node E now seed nick st cfg)"

section \<open>The exported methods\<close>

type_synonym ('hs, 'ts, 'a) ffi_method = "('hs, 'ts) ffi_mesh_node \<Rightarrow> 'a outcome \<times> transport_call list \<times> ('hs, 'ts) ffi_mesh_node"

definition ffi_eph_id :: "millis \<Rightarrow> ('hs, 'ts, rstring) ffi_method" where
  "ffi_eph_id now = with_lock now (\<lambda>n. Ret (ffi_hex (node_eph_id n), n))"

definition ffi_join_channel :: "('hs, 'ts, ffi_store) env \<Rightarrow> millis \<Rightarrow> rstring \<Rightarrow> ('hs, 'ts, unit) ffi_method" where
  "ffi_join_channel E now name = with_lock now (\<lambda>n. Ret ((), join_channel E n name))"

definition ffi_channel_history ::
  "('hs, 'ts, ffi_store) env \<Rightarrow> millis \<Rightarrow> rstring \<Rightarrow> u32 \<Rightarrow> ('hs, 'ts, ffi_message list) ffi_method" where
  "ffi_channel_history E now channel limit = with_lock now (\<lambda>n.
     Ret (map (\<lambda>m. \<lparr>fm_sender = ffi_hex (sm_sender m), fm_body = from_utf8_lossy (sm_body m),
                    fm_timestamp_ms = sm_timestamp_ms m, fm_mine = (sm_sender m = node_eph_id n)\<rparr>)
            (channel_history (store E) (n_store n) channel (unat limit)), n))"

definition ffi_list_peers :: "('hs, 'ts, ffi_store) env \<Rightarrow> millis \<Rightarrow> ('hs, 'ts, ffi_peer list) ffi_method" where
  "ffi_list_peers E now = with_lock now (\<lambda>n.
     Ret (map (\<lambda>p. \<lparr>fpe_fingerprint = ffi_hex (pr_fingerprint p), fpe_petname = petname p, fpe_verified = verified p\<rparr>)
            (list_peers (store E) (n_store n)), n))"

definition dm_kind :: "bytes \<Rightarrow> u8" where
  "dm_kind body = (case body of k # _ \<Rightarrow> if 1 \<le> k \<and> k \<le> 3 \<and> length body = 1 then k else 0 | [] \<Rightarrow> 0)"

definition ffi_dm :: "stored_dm \<Rightarrow> ffi_dm_message" where
  "ffi_dm d =
     (let kind = dm_kind (dm_body d)
      in \<lparr>fd_body = (if kind = 0 then from_utf8_lossy (dm_body d) else []), fd_timestamp_ms = dm_timestamp_ms d,
          fd_mine = dm_mine d, fd_kind = kind\<rparr>)"

definition ffi_dm_history ::
  "('hs, 'ts, ffi_store) env \<Rightarrow> millis \<Rightarrow> rstring \<Rightarrow> u32 \<Rightarrow> ('hs, 'ts, ffi_dm_message list) ffi_method" where
  "ffi_dm_history E now peer limit = with_fingerprint peer [] (\<lambda>fp. with_lock now (\<lambda>n.
     Ret (map ffi_dm (dm_history (store E) (n_store n) fp (unat limit)), n)))"

definition ffi_announce :: "('hs, 'ts, ffi_store) env \<Rightarrow> millis \<Rightarrow> ('hs, 'ts, unit) ffi_method" where
  "ffi_announce E now = with_lock now (\<lambda>n. Ret ((), announce E n))"

definition ffi_send_channel_message ::
  "('hs, 'ts, ffi_store) env \<Rightarrow> millis \<Rightarrow> rstring \<Rightarrow> rstring \<Rightarrow> ('hs, 'ts, rstring) ffi_method" where
  "ffi_send_channel_message E now channel txt = with_lock now (\<lambda>n.
     Ret (let (d, n) = send_channel_message E n channel txt in (ffi_hex d, n)))"

definition ffi_send_dm :: "('hs, 'ts, ffi_store) env \<Rightarrow> millis \<Rightarrow> rstring \<Rightarrow> rstring \<Rightarrow> ('hs, 'ts, unit) ffi_method" where
  "ffi_send_dm E now peer txt = with_fingerprint peer () (\<lambda>fp. with_lock now (\<lambda>n. Ret ((), send_dm E n fp txt)))"

definition ffi_my_fingerprint :: "('hs, 'ts, ffi_store) env \<Rightarrow> millis \<Rightarrow> ('hs, 'ts, rstring) ffi_method" where
  "ffi_my_fingerprint E now = with_lock now (\<lambda>n. Ret (ffi_hex (node_fingerprint E n), n))"

definition ffi_verify_peer :: "('hs, 'ts, ffi_store) env \<Rightarrow> millis \<Rightarrow> rstring \<Rightarrow> ('hs, 'ts, unit) ffi_method" where
  "ffi_verify_peer E now peer = with_fingerprint peer () (\<lambda>fp. with_lock now (\<lambda>n. Ret ((), verify_peer E n fp)))"

definition ffi_unverify_peer :: "('hs, 'ts, ffi_store) env \<Rightarrow> millis \<Rightarrow> rstring \<Rightarrow> ('hs, 'ts, unit) ffi_method" where
  "ffi_unverify_peer E now peer = with_fingerprint peer () (\<lambda>fp. with_lock now (\<lambda>n. Ret ((), unverify_peer E n fp)))"

definition ffi_forget_peer :: "('hs, 'ts, ffi_store) env \<Rightarrow> millis \<Rightarrow> rstring \<Rightarrow> ('hs, 'ts, unit) ffi_method" where
  "ffi_forget_peer E now peer = with_fingerprint peer () (\<lambda>fp. with_lock now (\<lambda>n. Ret ((), forget_peer E n fp)))"

definition ffi_start_dm_session :: "('hs, 'ts, ffi_store) env \<Rightarrow> millis \<Rightarrow> rstring \<Rightarrow> ('hs, 'ts, unit) ffi_method" where
  "ffi_start_dm_session E now peer = with_fingerprint peer () (\<lambda>fp. with_lock now (\<lambda>n. Ret ((), start_dm_session E n fp)))"

definition ffi_set_petname :: "('hs, 'ts, ffi_store) env \<Rightarrow> millis \<Rightarrow> rstring \<Rightarrow> rstring \<Rightarrow> ('hs, 'ts, unit) ffi_method" where
  "ffi_set_petname E now peer name = with_fingerprint peer () (\<lambda>fp. with_lock now (\<lambda>n. Ret ((), set_petname E n fp name)))"

definition ffi_peer_verified :: "('hs, 'ts, ffi_store) env \<Rightarrow> millis \<Rightarrow> rstring \<Rightarrow> ('hs, 'ts, bool) ffi_method" where
  "ffi_peer_verified E now peer = with_fingerprint peer False (\<lambda>fp. with_lock now (\<lambda>n. Ret (peer_verified E n fp, n)))"

definition ffi_peer_petname :: "('hs, 'ts, ffi_store) env \<Rightarrow> millis \<Rightarrow> rstring \<Rightarrow> ('hs, 'ts, rstring option) ffi_method" where
  "ffi_peer_petname E now peer = with_fingerprint peer None (\<lambda>fp. with_lock now (\<lambda>n. Ret (peer_petname E n fp, n)))"

definition ffi_transport_event ::
  "('hs, 'ts, ffi_store) env \<Rightarrow> millis \<Rightarrow> transport_event \<Rightarrow> ('hs, 'ts, unit) ffi_method" where
  "ffi_transport_event E now ev = with_lock now (\<lambda>n. and_then (on_transport_event E n ev) (\<lambda>n. Ret ((), n)))"

definition ffi_link_up :: "('hs, 'ts, ffi_store) env \<Rightarrow> millis \<Rightarrow> link_id \<Rightarrow> u32 \<Rightarrow> ('hs, 'ts, unit) ffi_method" where
  "ffi_link_up E now link m = ffi_transport_event E now (LinkUp link (unat m) None)"

definition ffi_link_down :: "('hs, 'ts, ffi_store) env \<Rightarrow> millis \<Rightarrow> link_id \<Rightarrow> ('hs, 'ts, unit) ffi_method" where
  "ffi_link_down E now link = ffi_transport_event E now (LinkDown link)"

definition ffi_receive_frame :: "('hs, 'ts, ffi_store) env \<Rightarrow> millis \<Rightarrow> link_id \<Rightarrow> bytes \<Rightarrow> ('hs, 'ts, unit) ffi_method" where
  "ffi_receive_frame E now link frame = ffi_transport_event E now (FrameReceived link frame)"

definition ffi_tick :: "('hs, 'ts, ffi_store) env \<Rightarrow> millis \<Rightarrow> ('hs, 'ts, millis) ffi_method" where
  "ffi_tick E now = with_lock now (tick E)"

definition ffi_poll_events :: "millis \<Rightarrow> ('hs, 'ts, ffi_event list) ffi_method" where
  "ffi_poll_events now = with_lock now (\<lambda>n. Ret (let (es, n) = take_events n in (List.map_filter to_ffi es, n)))"

definition ffi_panic_wipe :: "('hs, 'ts, ffi_store) env \<Rightarrow> millis \<Rightarrow> ('hs, 'ts, unit) ffi_method" where
  "ffi_panic_wipe E now = with_lock now (\<lambda>n. Ret ((), panic_wipe E n))"

section \<open>The laws of the store behind the bindings\<close>

lemma ffi_ops_memory:
  "put_channel_message (ffi_ops order eng) (FfiMemory m) msg = FfiMemory (put_channel_message (memory_ops order) m msg)"
  "has_message (ffi_ops order eng) (FfiMemory m) d = has_message (memory_ops order) m d"
  "channel_history (ffi_ops order eng) (FfiMemory m) c n = channel_history (memory_ops order) m c n"
  "channel_digests (ffi_ops order eng) (FfiMemory m) c = channel_digests (memory_ops order) m c"
  "message_by_digest (ffi_ops order eng) (FfiMemory m) d = message_by_digest (memory_ops order) m d"
  "upsert_peer (ffi_ops order eng) (FfiMemory m) p = FfiMemory (upsert_peer (memory_ops order) m p)"
  "put_dm (ffi_ops order eng) (FfiMemory m) dm = FfiMemory (put_dm (memory_ops order) m dm)"
  "dm_history (ffi_ops order eng) (FfiMemory m) fp n = dm_history (memory_ops order) m fp n"
  "queue_envelope (ffi_ops order eng) (FfiMemory m) fp b t = FfiMemory (queue_envelope (memory_ops order) m fp b t)"
  "take_envelopes (ffi_ops order eng) (FfiMemory m) fp = map_prod id FfiMemory (take_envelopes (memory_ops order) m fp)"
  "delete_peer (ffi_ops order eng) (FfiMemory m) fp = FfiMemory (delete_peer (memory_ops order) m fp)"
  "delete_dms (ffi_ops order eng) (FfiMemory m) fp only = FfiMemory (delete_dms (memory_ops order) m fp only)"
  "store_wipe (ffi_ops order eng) (FfiMemory m) = FfiMemory (store_wipe (memory_ops order) m)"
  "contact (ffi_ops order eng) (FfiMemory m) fp = contact (memory_ops order) m fp"
  by (simp_all add: contact_def ffi_ops_def Let_def delegate_def delegate_mut_def)

lemma ffi_ops_sqlite:
  "put_channel_message (ffi_ops order eng) (FfiSqlite q) msg = FfiSqlite (put_channel_message (sqlite_ops eng) q msg)"
  "has_message (ffi_ops order eng) (FfiSqlite q) d = has_message (sqlite_ops eng) q d"
  "channel_history (ffi_ops order eng) (FfiSqlite q) c n = channel_history (sqlite_ops eng) q c n"
  "channel_digests (ffi_ops order eng) (FfiSqlite q) c = channel_digests (sqlite_ops eng) q c"
  "message_by_digest (ffi_ops order eng) (FfiSqlite q) d = message_by_digest (sqlite_ops eng) q d"
  "upsert_peer (ffi_ops order eng) (FfiSqlite q) p = FfiSqlite (upsert_peer (sqlite_ops eng) q p)"
  "put_dm (ffi_ops order eng) (FfiSqlite q) dm = FfiSqlite (put_dm (sqlite_ops eng) q dm)"
  "dm_history (ffi_ops order eng) (FfiSqlite q) fp n = dm_history (sqlite_ops eng) q fp n"
  "queue_envelope (ffi_ops order eng) (FfiSqlite q) fp b t = FfiSqlite (queue_envelope (sqlite_ops eng) q fp b t)"
  "take_envelopes (ffi_ops order eng) (FfiSqlite q) fp = map_prod id FfiSqlite (take_envelopes (sqlite_ops eng) q fp)"
  "delete_peer (ffi_ops order eng) (FfiSqlite q) fp = FfiSqlite (delete_peer (sqlite_ops eng) q fp)"
  "delete_dms (ffi_ops order eng) (FfiSqlite q) fp only = FfiSqlite (delete_dms (sqlite_ops eng) q fp only)"
  "store_wipe (ffi_ops order eng) (FfiSqlite q) = FfiSqlite (store_wipe (sqlite_ops eng) q)"
  "contact (ffi_ops order eng) (FfiSqlite q) fp = contact (sqlite_ops eng) q fp"
  by (simp_all add: contact_def ffi_ops_def Let_def delegate_def delegate_mut_def)

lemmas ffi_ops_simps = ffi_ops_memory ffi_ops_sqlite

interpretation ffi: store_laws "ffi_ops order eng" for order eng
proof
  fix s :: ffi_store and fp fp' :: bytes and n :: nat
  let ?ops = "ffi_ops order eng"
  show "contact ?ops (upsert_peer ?ops s p) fp = (if fp = pr_fingerprint p then Some (petname p, verified p) else contact ?ops s fp)" for p
    by (cases s) (simp_all add: ffi_ops_simps mem.contact_upsert sql.contact_upsert)
  show "contact ?ops (delete_peer ?ops s fp') fp = (if fp = fp' then None else contact ?ops s fp)"
    by (cases s) (simp_all add: ffi_ops_simps mem.contact_delete sql.contact_delete)
  show "contact ?ops (put_channel_message ?ops s m) fp = contact ?ops s fp" "contact ?ops (put_dm ?ops s dm) fp = contact ?ops s fp"
    "contact ?ops (delete_dms ?ops s fp' only) fp = contact ?ops s fp" "contact ?ops (queue_envelope ?ops s fp' b t) fp = contact ?ops s fp"
    "contact ?ops (snd (take_envelopes ?ops s fp')) fp = contact ?ops s fp" for m dm only b t
    by (cases s; simp add: ffi_ops_simps mem.contact_frame sql.contact_frame)+
  show "contact ?ops (store_wipe ?ops s) fp = None" "dm_history ?ops (store_wipe ?ops s) fp n = []"
    "\<not> has_message ?ops (store_wipe ?ops s) d" "channel_history ?ops (store_wipe ?ops s) ch n = []"
    "fst (take_envelopes ?ops (store_wipe ?ops s) fp) = []" "channel_digests ?ops (store_wipe ?ops s) ch = []"
    "message_by_digest ?ops (store_wipe ?ops s) d = None" for d ch
    by (cases s; simp add: ffi_ops_simps mem.contact_wipe sql.contact_wipe mem.dms_wipe sql.dms_wipe mem.has_wipe sql.has_wipe
        mem.history_wipe sql.history_wipe mem.take_wipe sql.take_wipe mem.digests_wipe sql.digests_wipe mem.lookup_wipe sql.lookup_wipe)+
  show "fst (take_envelopes ?ops (snd (take_envelopes ?ops s fp)) fp) = []" "dm_history ?ops (delete_dms ?ops s fp False) fp n = []"
    "dm_history ?ops (delete_peer ?ops s fp') fp n = dm_history ?ops s fp n"
    by (cases s; simp add: ffi_ops_simps mem.take_take sql.take_take mem.dms_delete sql.dms_delete mem.dms_delete_peer sql.dms_delete_peer)+
qed

section \<open>Identifiers as strings\<close>

lemma unat_hex_char: "n < 16 \<Longrightarrow> unat (hex_char n) = (if n < 10 then 48 + n else 87 + n)"
  by (auto simp: hex_char_def unat_word_ariths unat_of_nat)

lemma to_digit16_hex_char [simp]: "n < 16 \<Longrightarrow> to_digit16 (hex_char n) = Some n"
  by (simp add: to_digit16_def unat_hex_char Let_def)

lemma hex_char_plus: "n < 16 \<Longrightarrow> hex_char n \<noteq> 43"
  using unat_hex_char [of n] by (auto split: if_splits)

lemma hex_char_ascii: "n < 16 \<Longrightarrow> hex_char n < 128"
  by (auto simp: word_less_nat_alt unat_hex_char)

lemma from_str_radix16_byte: "from_str_radix16 (hex_char (unat b div 16)) (hex_char (unat b mod 16)) = Some (b :: u8)"
proof -
  have h: "unat b div 16 < 16" using unat_u8_less [of b] by linarith
  then show ?thesis by (simp add: from_str_radix16_def hex_char_plus [OF h] to_digit16_hex_char [OF h])
qed

lemma str_slice_ascii:
  assumes "\<forall>c \<in> set s. c < 128" "b \<le> length s" "a \<le> b"
  shows "str_slice s a b = Ret (take (b - a) (drop a s))"
proof -
  have "is_char_boundary s i" if "i \<le> length s" for i
  proof (cases "i < length s")
    case True
    then have "s ! i < 128" using assms(1) by simp
    then have "\<not> 0x80 \<le> s ! i" by simp
    with True show ?thesis by (simp add: is_char_boundary_def)
  qed (use that in \<open>simp add: is_char_boundary_def\<close>)
  then show ?thesis using assms by (simp add: str_slice_def)
qed

lemma take_two: "Suc i < length s \<Longrightarrow> take 2 (drop i s) = [s ! i, s ! Suc i]"
  by (simp add: take_Suc_conv_app_nth drop_Suc numeral_2_eq_2 nth_drop hd_drop_conv_nth)

lemma decode_pairs_ascii:
  assumes "\<forall>c \<in> set s. c < 128" "\<forall>i \<in> set is. 2 * i + 2 \<le> length s"
  shows "decode_pairs s is = Ret (those (map (\<lambda>i. from_str_radix16 (s ! (2 * i)) (s ! (2 * i + 1))) is))"
  using assms(2)
proof (induction "is")
  case (Cons i "is")
  then have "str_slice s (i * 2) (i * 2 + 2) = Ret [s ! (2 * i), s ! (2 * i + 1)]"
    using str_slice_ascii [OF assms(1), of "i * 2 + 2" "i * 2"] take_two [of "i * 2" s] by (simp add: mult.commute)
  with Cons show ?case by (simp split: option.splits)
qed simp

lemma those_all: "those (map f xs) = (if \<forall>x \<in> set xs. f x \<noteq> None then Some (map (\<lambda>x. the (f x)) xs) else None)"
  by (induction xs) (auto split: option.splits)

text \<open>The pairs of a printed fingerprint.\<close>

lemma ffi_hex_length [simp]: "length (ffi_hex bs) = 2 * length bs"
  by (induction bs) (simp_all add: ffi_hex_def)

lemma ffi_hex_nth:
  "i < length bs \<Longrightarrow> ffi_hex bs ! (2 * i) = hex_char (unat (bs ! i) div 16) \<and> ffi_hex bs ! (2 * i + 1) = hex_char (unat (bs ! i) mod 16)"
proof (induction bs arbitrary: i)
  case (Cons b bs)
  have "ffi_hex (b # bs) = hex_char (unat b div 16) # hex_char (unat b mod 16) # ffi_hex bs" by (simp add: ffi_hex_def)
  with Cons show ?case by (cases i) auto
qed simp

lemma ffi_hex_ascii: "\<forall>c \<in> set (ffi_hex bs). c < 128"
proof -
  have "unat b div 16 < 16" for b :: u8 using unat_u8_less [of b] by linarith
  then show ?thesis by (auto simp: ffi_hex_def hex_char_ascii)
qed

lemma decode_hex32_hex: "length fp = 32 \<Longrightarrow> decode_hex32 (ffi_hex fp) = Ret (Some fp)"
proof -
  assume l: "length fp = 32"
  have "from_str_radix16 (ffi_hex fp ! (2 * i)) (ffi_hex fp ! (2 * i + 1)) = Some (fp ! i)" if "i < 32" for i
    using ffi_hex_nth [of i fp] that l from_str_radix16_byte by simp
  then have "map (\<lambda>i. from_str_radix16 (ffi_hex fp ! (2 * i)) (ffi_hex fp ! (2 * i + 1))) [0..<32] = map (\<lambda>i. Some (fp ! i)) [0..<32]"
    by (intro map_cong) auto
  then have "decode_pairs (ffi_hex fp) [0..<32] = Ret (those (map (\<lambda>i. Some (fp ! i)) [0..<32]))"
    using decode_pairs_ascii [OF ffi_hex_ascii, of "[0..<32]" fp] by (simp only: l ffi_hex_length) simp
  moreover have "map ((!) fp) [0..<32] = fp" using map_nth [of fp] l by simp
  ultimately show ?thesis by (simp add: decode_hex32_def l those_all)
qed

section \<open>The handle and the node\<close>

text \<open>What a platform does with a handle: any exported method, with any arguments, at any time.\<close>

inductive ffi_step :: "('hs, 'ts, ffi_store) env \<Rightarrow> ('hs, 'ts) ffi_mesh_node \<Rightarrow> ('hs, 'ts) ffi_mesh_node \<Rightarrow> bool"
  for E :: "('hs, 'ts, ffi_store) env" where
  "ffi_step E f (snd (snd (ffi_eph_id now f)))"
| "ffi_step E f (snd (snd (ffi_join_channel E now name f)))"
| "ffi_step E f (snd (snd (ffi_channel_history E now name limit f)))"
| "ffi_step E f (snd (snd (ffi_list_peers E now f)))"
| "ffi_step E f (snd (snd (ffi_dm_history E now peer limit f)))"
| "ffi_step E f (snd (snd (ffi_announce E now f)))"
| "ffi_step E f (snd (snd (ffi_send_channel_message E now name body f)))"
| "ffi_step E f (snd (snd (ffi_send_dm E now peer body f)))"
| "ffi_step E f (snd (snd (ffi_my_fingerprint E now f)))"
| "ffi_step E f (snd (snd (ffi_verify_peer E now peer f)))"
| "ffi_step E f (snd (snd (ffi_unverify_peer E now peer f)))"
| "ffi_step E f (snd (snd (ffi_forget_peer E now peer f)))"
| "ffi_step E f (snd (snd (ffi_start_dm_session E now peer f)))"
| "ffi_step E f (snd (snd (ffi_set_petname E now peer name f)))"
| "ffi_step E f (snd (snd (ffi_peer_verified E now peer f)))"
| "ffi_step E f (snd (snd (ffi_peer_petname E now peer f)))"
| "ffi_step E f (snd (snd (ffi_link_up E now link m f)))"
| "ffi_step E f (snd (snd (ffi_link_down E now link f)))"
| "ffi_step E f (snd (snd (ffi_receive_frame E now link frame f)))"
| "ffi_step E f (snd (snd (ffi_tick E now f)))"
| "ffi_step E f (snd (snd (ffi_poll_events now f)))"
| "ffi_step E f (snd (snd (ffi_panic_wipe E now f)))"

text \<open>A sound handle: the lock is not poisoned and the node behind it is one of a run.\<close>

definition ffi_ok :: "('hs, 'ts, ffi_store) env \<Rightarrow> ('hs, 'ts, ffi_store) node \<Rightarrow> ('hs, 'ts) ffi_mesh_node \<Rightarrow> bool" where
  "ffi_ok E n0 f \<longleftrightarrow> node_ok n0 \<and> \<not> poisoned f \<and> (\<exists>hist. node_run E n0 hist (ffi_inner f))"

text \<open>The result of a method, and that the handle stays sound.\<close>

definition returns ::
  "('hs, 'ts, ffi_store) env \<Rightarrow> ('hs, 'ts, ffi_store) node \<Rightarrow> 'a outcome \<times> transport_call list \<times> ('hs, 'ts) ffi_mesh_node \<Rightarrow> bool" where
  "returns E n0 r \<longleftrightarrow> fst r \<noteq> Panic \<and> ffi_ok E n0 (snd (snd r))"

lemma with_lock_returns:
  assumes "ffi_ok E n0 f"
    and "\<And>m. node_ok m \<Longrightarrow> \<exists>x m'. op m = Ret (x, m') \<and> (m' = m \<or> node_step E m m')"
  shows "returns E n0 (with_lock now op f)"
proof -
  obtain hist where "\<not> poisoned f" and ok0: "node_ok n0" and r: "node_run E n0 hist (ffi_inner f)"
    using assms(1) by (auto simp: ffi_ok_def)
  let ?m = "(ffi_inner f)\<lparr>clock := now\<rparr>"
  from r have "node_run E n0 (hist @ [?m]) ?m" by (rule run_step) (rule node_step.Clock)
  moreover from this have "node_ok ?m" by (rule node_run_ok [OF _ ok0])
  then obtain x m' where op: "op ?m = Ret (x, m')" "m' = ?m \<or> node_step E ?m m'" using assms(2) by blast
  ultimately obtain h where "node_run E n0 h m'" by (blast intro: run_step)
  then have "node_run E n0 (h @ [m'\<lparr>outbox := []\<rparr>]) (m'\<lparr>outbox := []\<rparr>)" by (rule run_step) (rule node_step.Drain)
  then show ?thesis using \<open>\<not> poisoned f\<close> ok0 op(1) by (auto simp: with_lock_def returns_def ffi_ok_def)
qed

lemma with_lock_pure:
  assumes "ffi_ok E n0 f" "\<And>m. m' m = m \<or> node_step E m (m' m)"
  shows "returns E n0 (with_lock now (\<lambda>m. Ret (x m, m' m)) f)"
  by (rule with_lock_returns [OF assms(1)]) (use assms(2) in blast)

lemma transport_event_returns:
  assumes "ffi_ok E n0 f"
  shows "returns E n0 (ffi_transport_event E now ev f)"
  unfolding ffi_transport_event_def
proof (rule with_lock_returns [OF assms])
  fix m :: "('a, 'b, ffi_store) node" assume "node_ok m"
  then obtain m' where "on_transport_event E m ev = Ret m'" using on_transport_event_ok by blast
  then show "\<exists>x m'. and_then (on_transport_event E m ev) (\<lambda>n. Ret ((), n)) = Ret (x, m') \<and> (m' = m \<or> node_step E m m')"
    using node_step.Event [of E m ev m'] by auto
qed

lemma tick_returns:
  assumes "ffi_ok E n0 f"
  shows "returns E n0 (ffi_tick E now f)"
  unfolding ffi_tick_def
proof (rule with_lock_returns [OF assms])
  fix m :: "('a, 'b, ffi_store) node" assume "node_ok m"
  then obtain d m' where "tick E m = Ret (d, m')" using tick_ok by blast
  then show "\<exists>x m'. tick E m = Ret (x, m') \<and> (m' = m \<or> node_step E m m')" using node_step.Tick by blast
qed

lemma fingerprint_ok:
  assumes "ffi_ok E n0 f" "\<And>fp. returns E n0 (k fp f)"
  shows "ffi_ok E n0 (snd (snd (with_fingerprint peer x k f)))"
    "decode_hex32 peer \<noteq> Panic \<Longrightarrow> returns E n0 (with_fingerprint peer x k f)"
  using assms by (auto simp: with_fingerprint_def returns_def split: outcome.splits option.splits)

lemma poll_events_returns: "ffi_ok E n0 f \<Longrightarrow> returns E n0 (ffi_poll_events now f)"
  unfolding ffi_poll_events_def Let_def case_prod_beta
  by (rule with_lock_pure) (auto intro: node_step.TakeEvents)

lemma send_channel_returns: "ffi_ok E n0 f \<Longrightarrow> returns E n0 (ffi_send_channel_message E now name body f)"
  unfolding ffi_send_channel_message_def Let_def case_prod_beta
  by (rule with_lock_pure) (auto intro: node_step.SendChannel)

lemmas ffi_command_defs = ffi_eph_id_def ffi_join_channel_def ffi_channel_history_def ffi_list_peers_def ffi_announce_def
  ffi_my_fingerprint_def ffi_panic_wipe_def

lemma command_returns:
  assumes "ffi_ok E n0 f"
  shows "returns E n0 (ffi_eph_id now f)" "returns E n0 (ffi_join_channel E now name f)"
    "returns E n0 (ffi_channel_history E now name limit f)" "returns E n0 (ffi_list_peers E now f)"
    "returns E n0 (ffi_announce E now f)" "returns E n0 (ffi_my_fingerprint E now f)" "returns E n0 (ffi_panic_wipe E now f)"
  unfolding ffi_command_defs
  by (rule with_lock_pure [OF assms], auto intro: node_step.intros)+

lemmas ffi_peer_defs = ffi_dm_history_def ffi_send_dm_def ffi_verify_peer_def ffi_unverify_peer_def ffi_forget_peer_def
  ffi_start_dm_session_def ffi_set_petname_def ffi_peer_verified_def ffi_peer_petname_def

lemma peer_command_ok:
  assumes "ffi_ok E n0 f"
  shows "ffi_ok E n0 (snd (snd (ffi_dm_history E now peer limit f)))" "ffi_ok E n0 (snd (snd (ffi_send_dm E now peer body f)))"
    "ffi_ok E n0 (snd (snd (ffi_verify_peer E now peer f)))" "ffi_ok E n0 (snd (snd (ffi_unverify_peer E now peer f)))"
    "ffi_ok E n0 (snd (snd (ffi_forget_peer E now peer f)))" "ffi_ok E n0 (snd (snd (ffi_start_dm_session E now peer f)))"
    "ffi_ok E n0 (snd (snd (ffi_set_petname E now peer name f)))" "ffi_ok E n0 (snd (snd (ffi_peer_verified E now peer f)))"
    "ffi_ok E n0 (snd (snd (ffi_peer_petname E now peer f)))"
  unfolding ffi_peer_defs
  by (rule fingerprint_ok(1) [OF assms], rule with_lock_pure [OF assms], auto intro: node_step.intros)+

lemma ffi_step_ok: "ffi_step E f f' \<Longrightarrow> ffi_ok E n0 f \<Longrightarrow> ffi_ok E n0 f'"
proof (induction rule: ffi_step.induct)
qed (auto intro: peer_command_ok simp: ffi_link_up_def ffi_link_down_def ffi_receive_frame_def
    dest: command_returns transport_event_returns tick_returns poll_events_returns send_channel_returns simp: returns_def)

section \<open>Properties\<close>

definition sample_ffi_env :: "(xx_hs, xx_ts, ffi_store) env" where
  "sample_ffi_env =
     \<lparr>sha256 = pad32, ed_public = pad32, x_public = pad32, ed_sign = ed_sign sample_env, vk_valid = vk_valid sample_env,
      ed_verify = ed_verify sample_env, lz4_compress = id, lz4_decompress = lz4_decompress sample_env, uni_lower = id,
      hash_order = id, rngs = rngs sample_env, snow = xx_snow, store = ffi_ops id sample_engine\<rparr>"

lemma returns_Ret: "returns E n0 r \<Longrightarrow> \<exists>x. fst r = Ret x"
  by (cases "fst r") (auto simp: returns_def)

text \<open>C16: the handle refines the node.  Whatever methods the platform calls on a handle, with whatever
  arguments, frames and clock readings, the node behind it is one that a run of the core reaches, the
  lock is never poisoned, and the methods return: those that take no fingerprint always, and those that
  take one whenever its string can be decoded without a panic; the other case leaves the handle as it was.\<close>

theorem ffi_refines_node:
  assumes "f0 = ffi_new E t0 seed nick \<or> f0 = ffi_new_persistent E connect t0 seed nick path key"
    and "(ffi_step E)\<^sup>*\<^sup>* f0 f"
  shows "\<not> poisoned f \<and> (\<exists>hist. node_run E (ffi_inner f0) hist (ffi_inner f))
    \<and> fst (ffi_receive_frame E now link frame f) = Ret () \<and> (\<exists>d. fst (ffi_tick E now f) = Ret d)
    \<and> (\<exists>es. fst (ffi_poll_events now f) = Ret es)
    \<and> (if decode_hex32 peer = Panic then ffi_send_dm E now peer body f = (Panic, [], f)
       else fst (ffi_send_dm E now peer body f) = Ret ())"
proof -
  have "ffi_ok E (ffi_inner f0) f0"
    using assms(1) run_refl by (auto simp: ffi_ok_def ffi_new_def ffi_new_persistent_def make_node_def Let_def node_new_ok)
  with assms(2) have ok: "ffi_ok E (ffi_inner f0) f" by (induction rule: rtranclp_induct) (auto intro: ffi_step_ok)
  have "\<exists>x. fst (ffi_receive_frame E now link frame f) = Ret x"
    unfolding ffi_receive_frame_def by (rule returns_Ret [OF transport_event_returns [OF ok]])
  moreover have "returns E (ffi_inner f0) (ffi_send_dm E now peer body f)" if "decode_hex32 peer \<noteq> Panic"
    unfolding ffi_send_dm_def
    by (rule fingerprint_ok(2) [OF ok _ that], rule with_lock_pure [OF ok]) (auto intro: node_step.intros)
  moreover have "ffi_send_dm E now peer body f = (Panic, [], f)" if "decode_hex32 peer = Panic"
    using that by (simp add: ffi_send_dm_def with_fingerprint_def)
  moreover have "\<exists>x. fst (ffi_send_dm E now peer body f) = Ret x" if "decode_hex32 peer \<noteq> Panic"
    using calculation(2) [OF that] by (rule returns_Ret)
  ultimately show ?thesis using ok returns_Ret [OF tick_returns [OF ok, of now]] returns_Ret [OF poll_events_returns [OF ok, of now]]
    by (auto simp: ffi_ok_def)
qed

theorem ffi_refines_node_witness:
  "\<exists>f hist. (ffi_step sample_ffi_env)\<^sup>*\<^sup>* (ffi_new sample_ffi_env 0 7 []) f \<and> \<not> poisoned f
     \<and> node_run sample_ffi_env (ffi_inner (ffi_new sample_ffi_env 0 7 [])) hist (ffi_inner f)
     \<and> fst (ffi_receive_frame sample_ffi_env 5 1 [1, 2, 3] f) = Ret ()"
proof -
  let ?init = "ffi_new sample_ffi_env 0 7 []"
  let ?f = "snd (snd (ffi_receive_frame sample_ffi_env 1 1 [0, 255] ?init))"
  have s: "(ffi_step sample_ffi_env)\<^sup>*\<^sup>* ?init ?f" 
    by (rule r_into_rtranclp [of "ffi_step sample_ffi_env" ?init ?f]) (rule ffi_step.intros(19))
  from ffi_refines_node [OF disjI1 [OF refl] s] s show ?thesis by blast
qed

text \<open>C40: fingerprints as strings.  Every fingerprint is decoded from the string that was printed for it;
  on ASCII strings decoding never panics and accepts exactly the strings of 32 two-character numbers;
  a string of 64 bytes with a two-byte character across a pair makes it panic.\<close>

theorem decode_hex32_spec:
  "(length fp = 32 \<longrightarrow> decode_hex32 (ffi_hex fp) = Ret (Some fp))
   \<and> ((\<forall>c \<in> set s. c < 128) \<longrightarrow> decode_hex32 s =
        Ret (if length s = 64 then those (map (\<lambda>i. from_str_radix16 (s ! (2 * i)) (s ! (2 * i + 1))) [0..<32]) else None))
   \<and> decode_hex32 ([48, 0xC3, 0xA9] @ replicate 61 48) = Panic"
proof (intro conjI impI)
  show "decode_hex32 (ffi_hex fp) = Ret (Some fp)" if "length fp = 32" using that by (rule decode_hex32_hex)
  show "decode_hex32 s = Ret (if length s = 64 then those (map (\<lambda>i. from_str_radix16 (s ! (2 * i)) (s ! (2 * i + 1))) [0..<32]) else None)"
    if "\<forall>c \<in> set s. c < 128"
    using decode_pairs_ascii [OF that, of "[0..<32]"] by (simp add: decode_hex32_def del: upt_rec_numeral)
  have "str_slice ([48, 0xC3, 0xA9] @ replicate 61 48) (0 * 2) (0 * 2 + 2) = Panic"
    by (simp add: str_slice_def is_char_boundary_def)
  moreover have "[0..<32] = 0 # [1..<32::nat]" by (simp add: upt_rec)
  ultimately show "decode_hex32 ([48, 0xC3, 0xA9] @ replicate 61 48) = Panic" by (simp add: decode_hex32_def)
qed

theorem decode_hex32_spec_witness:
  "decode_hex32 (ffi_hex (replicate 32 0xAB)) = Ret (Some (replicate 32 0xAB)) \<and> decode_hex32 [48, 49] = Ret None"
  using decode_hex32_spec [of "replicate 32 0xAB" "[48, 49]"] by simp

end
