(* ===== verification/Wipe.thy ===== *)
theory Wipe
  imports Multihop Ffi
begin

text \<open>
  What \<open>panic_wipe\<close> leaves of a node, over the stores the bindings use.
\<close>

section \<open>What a node keeps\<close>

text \<open>A store without its contents: the bounds it was made with.\<close>

fun blank :: "ffi_store \<Rightarrow> ffi_store" where
  "blank (FfiMemory m) = FfiMemory (mem_panic_wipe m)"
| "blank (FfiSqlite q) = FfiSqlite (q\<lparr>conn := empty_database\<rparr>)"

lemma blank_ops [simp]:
  "blank (put_channel_message (ffi_ops order eng) s m) = blank s" "blank (put_dm (ffi_ops order eng) s dm) = blank s"
  "blank (queue_envelope (ffi_ops order eng) s fp b t) = blank s" "blank (snd (take_envelopes (ffi_ops order eng) s fp)) = blank s"
  "blank (upsert_peer (ffi_ops order eng) s p) = blank s" "blank (delete_peer (ffi_ops order eng) s fp) = blank s"
  "blank (delete_dms (ffi_ops order eng) s fp only) = blank s" "blank (store_wipe (ffi_ops order eng) s) = blank s"
  by (cases s; auto simp: ffi_ops_simps memory_ops_def sqlite_ops_def mem_panic_wipe_def mem_put_channel_message_def prune_channel_def
      mem_put_dm_def mem_queue_envelope_def mem_take_envelopes_def mem_upsert_peer_def mem_delete_peer_def mem_delete_dms_def
      sql_put_channel_message_def sql_prune_channel_def sql_put_dm_def sql_queue_envelope_def sql_take_envelopes_def
      sql_upsert_peer_def sql_delete_peer_def sql_delete_dms_def sql_panic_wipe_def Let_def split: option.splits prod.splits)+

definition same_config :: "('hs, 'ts, ffi_store) node \<Rightarrow> ('hs, 'ts, ffi_store) node \<Rightarrow> bool" where
  "same_config n n' \<longleftrightarrow> identity n' = identity n \<and> n_cfg n' = n_cfg n \<and> nickname n' = nickname n \<and> blank (n_store n') = blank (n_store n)"

interpretation sc: event_relation E "\<lambda>n n'. (\<exists>order eng. store E = ffi_ops order eng) \<longrightarrow> same_config n n'" UNIV
  for E :: "('hs, 'ts, ffi_store) env"
proof (unfold_locales; intro impI)
  fix n m n' :: "('hs, 'ts, ffi_store) node" assume l: "\<exists>order eng. store E = ffi_ops order eng"
  show "same_config n n'" if "(\<exists>order eng. store E = ffi_ops order eng) \<longrightarrow> same_config n m"
    "(\<exists>order eng. store E = ffi_ops order eng) \<longrightarrow> same_config m n'"
    using that l by (simp add: same_config_def)
  show "same_config n (announced E n pkt pk dh nick)" for pkt pk dh nick
    using l by (auto simp: announced_def Let_def push_event_def store_dm_def same_config_def split: option.splits)
qed (auto simp: same_config_def push_event_def)

lemma node_step_config:
  assumes "store E = ffi_ops order eng" "node_step E n n'"
  shows "same_config n n'"
  using assms(2)
proof cases
  case (Event ev)
  then show ?thesis using sc.r_on_transport_event [of E n ev n'] assms(1) by blast
next
  case (Tick d)
  then show ?thesis using sc.r_tick assms(1) by blast
next
  case (SendChannel name t)
  then show ?thesis using assms(1)
    by (simp add: same_config_def send_channel_message_def Let_def broadcast_eq observe_own_def)
next
  case Announce
  then show ?thesis using sc.r_announce assms(1) by blast
next
  case (SendDm fp t)
  then show ?thesis using sc.r_send_dm assms(1) by blast
next
  case (StartDm fp)
  have "same_config n (begin_handshake E n fp)" using sc.r_begin_handshake assms(1) by blast
  then show ?thesis using StartDm by (auto simp: start_dm_session_def push_event_def same_config_def)
next
  case (VerifyPeer fp)
  have "same_config m (try_send_verify_notice E m fp)" for m using sc.r_try_send_verify_notice assms(1) by blast
  then show ?thesis using VerifyPeer assms(1) by (simp add: verify_peer_def Let_def same_config_def)
qed (use assms(1) in \<open>auto simp: same_config_def take_events_def reset_relays_fired_def join_channel_def unverify_peer_def forget_peer_def
    drop_peer_session_state_def set_petname_def panic_wipe_def Let_def split: option.splits\<close>)

lemma node_run_config: "node_run E n hist m \<Longrightarrow> store E = ffi_ops order eng \<Longrightarrow> same_config n m"
  by (induction rule: node_run.induct) (auto simp: same_config_def dest: node_step_config)

section \<open>The wipe\<close>

text \<open>What a wipe does not touch besides the identity, the configuration and the bounds of the store.\<close>

definition with_residue :: "('hs, 'ts, 's) node \<Rightarrow> ('hs, 'ts, 's) node \<Rightarrow> ('hs, 'ts, 's) node" where
  "with_residue n m = m\<lparr>clock := clock n, seen := seen n, rate := rate n, scheduler := scheduler n, n_reassembler := n_reassembler n,
     n_rng := n_rng n, links := links n, subscribed := subscribed n, relays_fired := relays_fired n, outbox := outbox n, entropy := entropy n\<rparr>"

text \<open>C11: a wipe.  However a node has been used, wiping it gives a new node of the same identity, name and
  configuration, over an empty store with the bounds of the first one, but for the residue: no query of the
  store, for a message, a digest, a channel, a contact, a conversation or held envelopes, finds anything, and
  keys, sessions, queued messages and events are those of a new node, so nothing the node does later depends on
  what they were.\<close>

theorem wipe_leaves_new_node:
  assumes "store E = ffi_ops order eng" "node_run E (node_new li cfg now st nick) hist n"
  shows "\<exists>st'. panic_wipe E n = with_residue n (node_new li cfg now st' nick) \<and> blank st' = blank st
    \<and> (\<forall>d. \<not> has_message (store E) st' d \<and> message_by_digest (store E) st' d = None)
    \<and> (\<forall>c k. channel_history (store E) st' c k = [] \<and> channel_digests (store E) st' c = [])
    \<and> (\<forall>fp k. contact (store E) st' fp = None \<and> dm_history (store E) st' fp k = [] \<and> fst (take_envelopes (store E) st' fp) = [])"
proof -
  have c: "same_config (node_new li cfg now st nick) n" by (rule node_run_config [OF assms(2,1)])
  let ?st = "store_wipe (store E) (n_store n)"
  have "panic_wipe E n = with_residue n (node_new li cfg now ?st nick)"
    using c by (simp add: panic_wipe_def with_residue_def node_new_def same_config_def)
  moreover have "blank ?st = blank st" using c by (simp add: assms(1) same_config_def node_new_def)
  ultimately show ?thesis
    by (intro exI [of _ ?st] conjI allI) (simp_all only: assms(1) ffi.has_wipe ffi.lookup_wipe ffi.history_wipe ffi.digests_wipe
        ffi.contact_wipe ffi.dms_wipe ffi.take_wipe not_False_eq_True)
qed

text \<open>The residue holds texts: a message of others that waits for its relay is still sent after the wipe.\<close>

lemma wiped_node_still_relays:
  assumes "node_ok n" "bm_get (rs_pending (scheduler n)) d = Some p" "pr_send_at_ms p \<le> clock n"
    "hear_count (seen n) d < suppression_threshold (rs_cfg (scheduler n))"
  shows "\<exists>w n' xs ys. tick E (panic_wipe E n) = Ret (w, n')
    \<and> outbox n' = xs @ broadcast_calls E n (pr_packet p) (Some (pr_exclude_link p)) @ ys"
proof -
  have "node_ok (panic_wipe E n)" using keeps_node_ok [OF keeps_wipe assms(1)] .
  moreover have "broadcast_calls E (panic_wipe E n) = broadcast_calls E n" by (simp add: broadcast_calls_def panic_wipe_def fun_eq_iff)
  ultimately show ?thesis using tick_releases [of "panic_wipe E n" d p E] assms(2-4) by (auto simp: panic_wipe_def)
qed

text \<open>A node that has sent a message, which it keeps, and is then wiped.\<close>

theorem wipe_leaves_new_node_witness:
  "\<exists>li d n. send_channel_message sample_ffi_env (node_new li default_tunables 1000 (FfiMemory (memory_store_new 1000 0 0 100)) []) DEFAULT_CHANNEL [104, 105] = (d, n)
     \<and> has_message (store sample_ffi_env) (n_store n) d \<and> \<not> has_message (store sample_ffi_env) (n_store (panic_wipe sample_ffi_env n)) d
     \<and> channel_history (store sample_ffi_env) (n_store (panic_wipe sample_ffi_env n)) DEFAULT_CHANNEL 10 = []"
proof -
  let ?li = "identity (sample_node 1)" and ?st = "FfiMemory (memory_store_new 1000 0 0 100)"
  let ?n = "node_new ?li default_tunables 1000 ?st []"
  obtain d n where n: "send_channel_message sample_ffi_env ?n DEFAULT_CHANNEL [104, 105] = (d, n)" by fastforce
  have ops: "store sample_ffi_env = ffi_ops id sample_engine" by (simp add: sample_ffi_env_def)
  have "node_step sample_ffi_env ?n n" using node_step.SendChannel [of sample_ffi_env ?n DEFAULT_CHANNEL "[104, 105]"] n by simp
  then have run: "node_run sample_ffi_env ?n ([?n] @ [n]) n" by (rule run_step [OF run_refl])
  have "has_message (store sample_ffi_env) (n_store n) d"
    using n unfolding send_channel_message_sends ops
    by (auto simp: node_new_def ffi_ops_simps memory_ops_def mem_put_channel_message_def prune_channel_def Let_def mem_has_message_def
        memory_store_new_def get_or_default_def kept_message_def)
  moreover from wipe_leaves_new_node [OF ops run] obtain st' where w: "panic_wipe sample_ffi_env n = with_residue n (node_new ?li default_tunables 1000 st' [])"
    "\<forall>d. \<not> has_message (store sample_ffi_env) st' d \<and> message_by_digest (store sample_ffi_env) st' d = None"
    "\<forall>c k. channel_history (store sample_ffi_env) st' c k = [] \<and> channel_digests (store sample_ffi_env) st' c = []" by blast
  moreover have "n_store (panic_wipe sample_ffi_env n) = st'" by (simp add: w(1) with_residue_def node_new_def)
  ultimately show ?thesis using n by (intro exI [of _ ?li] exI [of _ d] exI [of _ n]) simp
qed

end
