(* ===== verification/Topology.thy ===== *)
theory Topology
  imports F64
begin

text \<open>
  The graphs of the simulator, \<open>crates/sim/src/topology.rs\<close>: line, clique and the random geometric graph,
  which is made connected with a union-find structure.  The loops may run for ever on a bad parent
  array, so a result is an option of an \<open>outcome\<close>: \<open>None\<close> does not return, \<open>Some Panic\<close> panics.  Positions
  are binary64 numbers (theory F64); the seeded generator is the sequence of its numbers.
\<close>

section \<open>Arithmetic\<close>

text \<open>\<open>f64::sqrt\<close>, correctly rounded: the rt of the argument scaled to a 53-bit integer.\<close>

fun isqrt :: "nat \<Rightarrow> nat" where
  "isqrt n = (if n = 0 then 0 else let m = 2 * isqrt (n div 4) in if (m + 1) * (m + 1) \<le> n then m + 1 else m)"

declare isqrt.simps [simp del]

definition f64_sqrt :: "f64 \<Rightarrow> f64" where
  "f64_sqrt x =
     (if x \<le> 0 then 0
      else let u = 2 powi (f64_exp x div 2 - 52); y = x / (u * u); m = isqrt (nat \<lfloor>y\<rfloor>)
           in f64_round (of_nat (if (of_nat m + 1 / 2) * (of_nat m + 1 / 2) < y then m + 1 else m) * u))"

definition f64_PI :: f64 where "f64_PI = 884279719003555 / 281474976710656"

section \<open>Graphs\<close>

record graph =
  g_n :: nat
  g_edges :: "(nat \<times> nat) list"
  positions :: "(f64 \<times> f64) list"

definition line :: "nat \<Rightarrow> graph" where
  "line n = \<lparr>g_n = n, g_edges = map (\<lambda>i. (i, i + 1)) [0..<n - 1], positions = map (\<lambda>i. (of_nat i, 0)) [0..<n]\<rparr>"

text \<open>The pairs \<open>(i, j)\<close> with \<open>i < j < n\<close>, in the order of the nested loops.\<close>

definition pairs :: "nat \<Rightarrow> (nat \<times> nat) list" where
  "pairs n = concat (map (\<lambda>i. map (Pair i) [i + 1..<n]) [0..<n])"

definition clique :: "nat \<Rightarrow> graph" where
  "clique n = \<lparr>g_n = n, g_edges = pairs n, positions = map (\<lambda>i. (of_nat i, 0)) [0..<n]\<rparr>"

definition dist2 :: "(f64 \<times> f64) list \<Rightarrow> nat \<Rightarrow> nat \<Rightarrow> f64 outcome" where
  "dist2 pos i j =
     and_then (index pos i) (\<lambda>(xi, yi). and_then (index pos j) (\<lambda>(xj, yj).
       let dx = f64_round (xi - xj); dy = f64_round (yi - yj)
       in Ret (f64_round (f64_round (dx * dx) + f64_round (dy * dy)))))"

section \<open>Union-find\<close>

text \<open>The loops of \<open>find\<close> follow the parents as long as they lead on: \<open>None\<close> if they never end.\<close>

partial_function (option) uf_root :: "nat list \<Rightarrow> nat \<Rightarrow> nat outcome option" where
  "uf_root p x =
     (if length p \<le> x then Some Panic
      else if p ! x \<noteq> x then uf_root p (p ! x) else Some (Ret x))"

partial_function (option) uf_compress :: "nat list \<Rightarrow> nat \<Rightarrow> nat \<Rightarrow> nat list outcome option" where
  "uf_compress p rt cur =
     (if length p \<le> cur then Some Panic
      else if p ! cur \<noteq> rt then uf_compress (p[cur := rt]) rt (p ! cur) else Some (Ret p))"

definition uf_new :: "nat \<Rightarrow> nat list" where
  "uf_new n = [0..<n]"

type_synonym 'a loop = "'a outcome option"

definition bind_loop :: "'a loop \<Rightarrow> ('a \<Rightarrow> 'b loop) \<Rightarrow> 'b loop" where
  "bind_loop m k = (case m of None \<Rightarrow> None | Some Panic \<Rightarrow> Some Panic | Some (Ret x) \<Rightarrow> k x)"

definition uf_find :: "nat list \<Rightarrow> nat \<Rightarrow> (nat \<times> nat list) loop" where
  "uf_find p x = bind_loop (uf_root p x) (\<lambda>rt. bind_loop (uf_compress p rt x) (\<lambda>p. Some (Ret (rt, p))))"

definition uf_union :: "nat list \<Rightarrow> nat \<Rightarrow> nat \<Rightarrow> nat list loop" where
  "uf_union p a b =
     bind_loop (uf_find p a) (\<lambda>(ra, p). bind_loop (uf_find p b) (\<lambda>(rb, p).
       Some (if ra \<noteq> rb then (if ra < length p then Ret (p[ra := rb]) else Panic) else Ret p)))"

fun uf_unions :: "nat list \<Rightarrow> (nat \<times> nat) list \<Rightarrow> nat list loop" where
  "uf_unions p [] = Some (Ret p)"
| "uf_unions p ((a, b) # es) = bind_loop (uf_union p a b) (\<lambda>p. uf_unions p es)"

text \<open>One scan for the closest pair of nodes in different components.\<close>

fun closest :: "(f64 \<times> f64) list \<Rightarrow> (nat \<times> nat) list \<Rightarrow> nat list \<Rightarrow> (f64 \<times> nat \<times> nat) option
    \<Rightarrow> ((f64 \<times> nat \<times> nat) option \<times> nat list) loop" where
  "closest pos [] p best = Some (Ret (best, p))"
| "closest pos ((i, j) # ps) p best =
     bind_loop (uf_find p i) (\<lambda>(ri, p). bind_loop (uf_find p j) (\<lambda>(rj, p).
       if ri \<noteq> rj
       then bind_loop (Some (dist2 pos i j)) (\<lambda>d.
              closest pos ps p (if (case best of Some (bd, _) \<Rightarrow> d < bd | None \<Rightarrow> True) then Some (d, i, j) else best))
       else closest pos ps p best))"

partial_function (option) join_components ::
  "nat \<Rightarrow> (f64 \<times> f64) list \<Rightarrow> nat list \<Rightarrow> (nat \<times> nat) list \<Rightarrow> (nat \<times> nat) list outcome option" where
  "join_components n pos p es =
     (case closest pos (pairs n) p None of
        None \<Rightarrow> None
      | Some Panic \<Rightarrow> Some Panic
      | Some (Ret (None, p)) \<Rightarrow> Some (Ret es)
      | Some (Ret (Some (_, i, j), p)) \<Rightarrow>
          (case uf_union p i j of
             None \<Rightarrow> None
           | Some Panic \<Rightarrow> Some Panic
           | Some (Ret p) \<Rightarrow> join_components n pos p (es @ [(i, j)])))"

definition connect_components :: "nat \<Rightarrow> (nat \<times> nat) list \<Rightarrow> (f64 \<times> f64) list \<Rightarrow> (nat \<times> nat) list loop" where
  "connect_components n es pos = bind_loop (uf_unions (uf_new n) es) (\<lambda>p. join_components n pos p es)"

fun near_pairs :: "(f64 \<times> f64) list \<Rightarrow> f64 \<Rightarrow> (nat \<times> nat) list \<Rightarrow> (nat \<times> nat) list outcome" where
  "near_pairs pos r2 [] = Ret []"
| "near_pairs pos r2 ((i, j) # ps) =
     and_then (dist2 pos i j) (\<lambda>d. and_then (near_pairs pos r2 ps) (\<lambda>es. Ret (if d \<le> r2 then (i, j) # es else es)))"

definition radius2 :: "nat \<Rightarrow> f64 \<Rightarrow> f64" where
  "radius2 n target_degree =
     (let r = f64_sqrt (f64_round (target_degree / f64_round (f64_round (of_nat n) * f64_PI)))
      in f64_round (r * r))"

text \<open>The parameter \<open>draw\<close> is the sequence of numbers the seeded generator yields.\<close>

definition geometric :: "(nat \<Rightarrow> f64) \<Rightarrow> nat \<Rightarrow> f64 \<Rightarrow> graph loop" where
  "geometric draw n target_degree =
     (let pos = map (\<lambda>i. (draw (2 * i), draw (2 * i + 1))) [0..<n];
          r2 = radius2 n target_degree
      in bind_loop (Some (near_pairs pos r2 (pairs n))) (\<lambda>es.
         bind_loop (connect_components n es pos) (\<lambda>es.
           Some (Ret \<lparr>g_n = n, g_edges = es, positions = pos\<rparr>))))"

section \<open>What the parents represent\<close>

text \<open>The invariant: following the parents, the rank falls and the representative stays, up to a node that
  is its own parent and its own representative.\<close>

definition uf_inv :: "nat list \<Rightarrow> (nat \<Rightarrow> nat) \<Rightarrow> (nat \<Rightarrow> nat) \<Rightarrow> bool" where
  "uf_inv p rep rank \<longleftrightarrow> (\<forall>x < length p. p ! x < length p \<and> rep (p ! x) = rep x
     \<and> (if p ! x = x then rep x = x else rank (p ! x) < rank x))"

lemma bind_loop_simps [simp]:
  "bind_loop None k = None" "bind_loop (Some Panic) k = Some Panic" "bind_loop (Some (Ret x)) k = k x"
  by (simp_all add: bind_loop_def)

lemma uf_rep_root:
  assumes "uf_inv p rep rank" "x < length p"
  shows "rep x < length p \<and> p ! (rep x) = rep x \<and> rank (rep x) \<le> rank x \<and> uf_root p x = Some (Ret (rep x))"
  using assms(2)
proof (induction "rank x" arbitrary: x rule: less_induct)
  case less
  have x: "p ! x < length p" "rep (p ! x) = rep x" "if p ! x = x then rep x = x else rank (p ! x) < rank x"
    using assms(1) less.prems by (simp_all add: uf_inv_def)
  show ?case
  proof (cases "p ! x = x")
    case True
    then show ?thesis using x less.prems uf_root.simps [of p x] by simp
  next
    case False
    then have r: "rank (p ! x) < rank x" using x(3) by simp
    from less.hyps [OF r x(1)] r x(2) False less.prems uf_root.simps [of p x] show ?thesis by simp
  qed
qed

lemma uf_compress_inv:
  assumes "uf_inv p rep rank" "x < length p"
  shows "\<exists>p'. uf_compress p (rep x) x = Some (Ret p') \<and> uf_inv p' rep rank \<and> length p' = length p"
  using assms
proof (induction "rank x" arbitrary: x p rule: less_induct)
  case less
  have x: "p ! x < length p" "rep (p ! x) = rep x" "if p ! x = x then rep x = x else rank (p ! x) < rank x"
    using less.prems by (simp_all add: uf_inv_def)
  note root = uf_rep_root [OF less.prems]
  show ?case
  proof (cases "p ! x = rep x")
    case True
    then show ?thesis using less.prems uf_compress.simps [of p "rep x" x] by simp
  next
    case False
    then have ne: "p ! x \<noteq> x" using x(3) by auto
    let ?p = "p[x := rep x]"
    have "rank (rep x) < rank x" using uf_rep_root [OF less.prems(1) x(1)] x(2,3) ne by auto
    moreover have "rep (rep x) = rep x" using root less.prems(1) by (auto simp: uf_inv_def split: if_splits)
    ultimately have inv: "uf_inv ?p rep rank" using less.prems root by (auto simp: uf_inv_def nth_list_update)
    have "rank (p ! x) < rank x" using x(3) ne by simp
    from less.hyps [OF this inv] x(1,2) obtain p' where "uf_compress ?p (rep x) (p ! x) = Some (Ret p')" "uf_inv p' rep rank" "length p' = length p"
      by auto
    with False less.prems uf_compress.simps [of p "rep x" x] show ?thesis by simp
  qed
qed

lemma uf_find_inv:
  assumes "uf_inv p rep rank" "x < length p"
  shows "\<exists>p'. uf_find p x = Some (Ret (rep x, p')) \<and> uf_inv p' rep rank \<and> length p' = length p"
  using uf_rep_root [OF assms] uf_compress_inv [OF assms] by (auto simp: uf_find_def)

lemma uf_rep_idem: "uf_inv p rep rank \<Longrightarrow> x < length p \<Longrightarrow> rep (rep x) = rep x"
  using uf_rep_root [of p rep rank x] by (auto simp: uf_inv_def split: if_splits)

lemma uf_link_inv:
  assumes "uf_inv p rep rank" "a < length p" "b < length p" "rep a \<noteq> rep b"
  shows "\<exists>rank'. uf_inv (p[rep a := rep b]) (\<lambda>x. if rep x = rep a then rep b else rep x) rank'"
proof
  let ?rank = "\<lambda>x. if rep x = rep a then rank x + rank (rep b) + 1 else rank x"
  note a = uf_rep_root [OF assms(1,2)] and b = uf_rep_root [OF assms(1,3)]
  note ia = uf_rep_idem [OF assms(1,2)] and ib = uf_rep_idem [OF assms(1,3)]
  show "uf_inv (p[rep a := rep b]) (\<lambda>x. if rep x = rep a then rep b else rep x) ?rank"
    unfolding uf_inv_def
  proof (intro allI impI)
    fix x assume "x < length (p[rep a := rep b])"
    then have x: "x < length p" by simp
    then have px: "p ! x < length p" "rep (p ! x) = rep x" "if p ! x = x then rep x = x else rank (p ! x) < rank x"
      using assms(1) by (simp_all add: uf_inv_def)
    show "p[rep a := rep b] ! x < length (p[rep a := rep b])
        \<and> (if rep (p[rep a := rep b] ! x) = rep a then rep b else rep (p[rep a := rep b] ! x)) = (if rep x = rep a then rep b else rep x)
        \<and> (if p[rep a := rep b] ! x = x then (if rep x = rep a then rep b else rep x) = x
           else ?rank (p[rep a := rep b] ! x) < ?rank x)"
    proof (cases "x = rep a")
      case True
      then show ?thesis using a b ia ib assms(4) x by auto
    next
      case False
      then show ?thesis using px x a by (auto split: if_splits)
    qed
  qed
qed

lemma uf_union_inv:
  assumes "uf_inv p rep rank" "a < length p" "b < length p"
  shows "\<exists>p' rank'. uf_union p a b = Some (Ret p') \<and> length p' = length p
    \<and> uf_inv p' (\<lambda>x. if rep x = rep a then rep b else rep x) rank'"
proof -
  obtain p1 where 1: "uf_find p a = Some (Ret (rep a, p1))" "uf_inv p1 rep rank" "length p1 = length p"
    using uf_find_inv [OF assms(1,2)] by blast
  obtain p2 where 2: "uf_find p1 b = Some (Ret (rep b, p2))" "uf_inv p2 rep rank" "length p2 = length p"
    using uf_find_inv [OF 1(2)] 1(3) assms(3) by auto
  show ?thesis
  proof (cases "rep a = rep b")
    case True
    then have "(\<lambda>x. if rep x = rep a then rep b else rep x) = rep" by auto
    with True 1(1) 2 show ?thesis by (auto simp: uf_union_def)
  next
    case False
    have lt: "a < length p2" "b < length p2" using assms 2(3) by simp_all
    obtain rank' where "uf_inv (p2[rep a := rep b]) (\<lambda>x. if rep x = rep a then rep b else rep x) rank'"
      using uf_link_inv [OF 2(2) lt False] by blast
    with False 1(1) 2 uf_rep_root [OF 2(2) lt(1)] show ?thesis by (auto simp: uf_union_def)
  qed
qed

section \<open>Components\<close>

text \<open>What union-find computes: reachability along the edges in either direction, and how many components
  the \<open>n\<close> nodes have.\<close>

definition linked :: "(nat \<times> nat) list \<Rightarrow> nat \<Rightarrow> nat \<Rightarrow> bool" where
  "linked es = (\<lambda>x y. (x, y) \<in> set es \<or> (y, x) \<in> set es)\<^sup>*\<^sup>*"

definition components :: "nat \<Rightarrow> (nat \<times> nat) list \<Rightarrow> nat" where
  "components n es = card ((\<lambda>x. {y. y < n \<and> linked es x y}) ` {..<n})"

lemma linked_refl [simp, intro]: "linked es x x"
  by (simp add: linked_def)

lemma linked_sym: "linked es x y \<Longrightarrow> linked es y x"
  unfolding linked_def by (rule sympD [OF symp_rtranclp]) (auto simp: symp_def)

lemma linked_trans [trans]: "linked es x y \<Longrightarrow> linked es y z \<Longrightarrow> linked es x z"
  unfolding linked_def by (rule rtranclp_trans)

lemma linked_mono: "set es \<subseteq> set es' \<Longrightarrow> linked es x y \<Longrightarrow> linked es' x y"
  unfolding linked_def by (erule rtranclp_mono [THEN predicate2D, rotated]) auto

lemma linked_Nil [simp]: "linked [] x y \<longleftrightarrow> x = y"
proof
  assume "linked [] x y" then show "x = y" unfolding linked_def by (induction rule: rtranclp_induct) auto
qed simp

lemma linked_edge: "(a, b) \<in> set es \<Longrightarrow> linked es a b"
  by (auto simp: linked_def)

lemma linked_snoc:
  "linked (es @ [(a, b)]) x y \<longleftrightarrow> linked es x y \<or> linked es x a \<and> linked es b y \<or> linked es x b \<and> linked es a y"
  (is "?l \<longleftrightarrow> ?r x y")
proof
  assume ?l
  then have "(\<lambda>x y. (x, y) \<in> set (es @ [(a, b)]) \<or> (y, x) \<in> set (es @ [(a, b)]))\<^sup>*\<^sup>* x y" by (simp only: linked_def)
  then show "?r x y"
  proof (induction rule: rtranclp_induct)
    case base
    show ?case by simp
  next
    case (step y z)
    then consider "linked es y z" | "y = a" "z = b" | "y = b" "z = a"
      by (auto simp: linked_def dest: r_into_rtranclp [of "\<lambda>x y. (x, y) \<in> set es \<or> (y, x) \<in> set es"])
    then show ?case
    proof cases
      case 1
      with step.IH show ?thesis by (blast intro: linked_trans)
    next
      case 2
      with step.IH show ?thesis by (blast intro: linked_trans linked_sym)
    next
      case 3
      with step.IH show ?thesis by (blast intro: linked_trans linked_sym)
    qed
  qed
next
  have m: "linked es u v \<Longrightarrow> linked (es @ [(a, b)]) u v" for u v by (rule linked_mono) auto
  have e: "linked (es @ [(a, b)]) a b" by (rule linked_edge) simp
  assume "?r x y"
  then show ?l by (meson e linked_sym linked_trans m)
qed

text \<open>The parents track the edges unified so far.\<close>

definition tracks :: "nat \<Rightarrow> (nat \<times> nat) list \<Rightarrow> (nat \<Rightarrow> nat) \<Rightarrow> nat list \<Rightarrow> bool" where
  "tracks n es rep p \<longleftrightarrow> length p = n \<and> (\<exists>rank. uf_inv p rep rank)
     \<and> (\<forall>x < n. \<forall>y < n. rep x = rep y \<longleftrightarrow> linked es x y)"

lemma tracks_new: "tracks n [] id (uf_new n)"
  by (auto simp: tracks_def uf_new_def uf_inv_def)

lemma tracks_find:
  assumes "tracks n es rep p" "x < n"
  shows "\<exists>p'. uf_find p x = Some (Ret (rep x, p')) \<and> tracks n es rep p'"
  using assms uf_find_inv [of p rep _ x] by (fastforce simp: tracks_def)

lemma tracks_components:
  assumes "tracks n es rep p"
  shows "components n es = card (rep ` {..<n})"
proof -
  let ?C = "\<lambda>r. {y. y < n \<and> rep y = r}"
  have "(\<lambda>x. {y. y < n \<and> linked es x y}) ` {..<n} = ?C ` rep ` {..<n}"
  proof -
    have "{y. y < n \<and> linked es x y} = ?C (rep x)" if "x < n" for x
      using assms that by (auto simp: tracks_def linked_sym)
    then show ?thesis unfolding image_image by (intro image_cong) auto
  qed
  moreover have "inj_on ?C (rep ` {..<n})" by (rule inj_onI) auto
  ultimately show ?thesis by (simp add: components_def card_image)
qed

lemma tracks_union:
  assumes "tracks n es rep p" "a < n" "b < n"
  defines "rep' \<equiv> \<lambda>x. if rep x = rep a then rep b else rep x"
  shows "\<exists>p'. uf_union p a b = Some (Ret p') \<and> tracks n (es @ [(a, b)]) rep' p'"
    "\<not> linked es a b \<Longrightarrow> components n es = Suc (components n (es @ [(a, b)]))"
proof -
  have p: "length p = n" and eq: "\<And>x y. x < n \<Longrightarrow> y < n \<Longrightarrow> rep x = rep y \<longleftrightarrow> linked es x y"
    using assms(1) by (simp_all add: tracks_def)
  obtain p' rank' where u: "uf_union p a b = Some (Ret p')" "length p' = n" "uf_inv p' rep' rank'"
  proof -
    obtain rank where "uf_inv p rep rank" using assms(1) by (auto simp: tracks_def)
    from uf_union_inv [OF this, of a b] assms(2,3) p that show ?thesis unfolding rep'_def by auto
  qed
  have "rep' x = rep' y \<longleftrightarrow> linked (es @ [(a, b)]) x y" if "x < n" "y < n" for x y
    using that assms(2,3) unfolding linked_snoc eq [OF that, symmetric]
    by (auto simp: rep'_def eq [symmetric])
  with u have t: "tracks n (es @ [(a, b)]) rep' p'" by (auto simp: tracks_def)
  with u(1) show "\<exists>p'. uf_union p a b = Some (Ret p') \<and> tracks n (es @ [(a, b)]) rep' p'" by blast
  assume "\<not> linked es a b"
  then have "rep a \<noteq> rep b" using eq assms(2,3) by simp
  then have "rep' ` {..<n} = rep ` {..<n} - {rep a}"
    using assms(2,3) by (auto simp: rep'_def image_iff)
  then have "card (rep' ` {..<n}) = card (rep ` {..<n}) - 1" using assms(2) by simp
  moreover have "0 < card (rep ` {..<n})" using assms(2) by (auto simp: card_gt_0_iff)
  ultimately show "components n es = Suc (components n (es @ [(a, b)]))"
    unfolding tracks_components [OF assms(1)] tracks_components [OF t] by simp
qed

lemma tracks_unions:
  assumes "tracks n es rep p" "\<forall>(a, b) \<in> set es'. a < n \<and> b < n"
  shows "\<exists>p' rep'. uf_unions p es' = Some (Ret p') \<and> tracks n (es @ es') rep' p'"
  using assms
proof (induction es' arbitrary: es p rep)
  case (Cons e es')
  obtain a b where e: "e = (a, b)" by fastforce
  obtain p' rep' where u: "uf_union p a b = Some (Ret p')" "tracks n (es @ [(a, b)]) rep' p'"
    using tracks_union(1) [OF Cons.prems(1), of a b] Cons.prems(2) e by auto
  from Cons.IH [OF u(2)] Cons.prems(2) u(1) e show ?case by simp
qed auto

section \<open>Joining the components\<close>

lemma in_pairs: "(i, j) \<in> set (pairs n) \<longleftrightarrow> i < j \<and> j < n"
proof
  assume "i < j \<and> j < n"
  then have "i \<in> {0..<n}" "(i, j) \<in> Pair i ` {i + 1..<n}" by auto
  then show "(i, j) \<in> set (pairs n)" unfolding pairs_def set_concat set_map set_upt image_image by (rule UN_I)
qed (auto simp: pairs_def)

lemma pairs_below: "\<forall>(i, j) \<in> set (pairs n). i < n \<and> j < n"
  using in_pairs by fastforce

lemma dist2_total: "i < length pos \<Longrightarrow> j < length pos \<Longrightarrow> \<exists>d. dist2 pos i j = Ret d"
  by (simp add: dist2_def index_def Let_def split: prod.splits)

lemma closest_tracks:
  assumes "tracks n es rep p" "length pos = n" "\<forall>(i, j) \<in> set ps. i < n \<and> j < n"
  shows "\<exists>best' p'. closest pos ps p best = Some (Ret (best', p')) \<and> tracks n es rep p'
    \<and> (best' = None \<longrightarrow> best = None \<and> (\<forall>(i, j) \<in> set ps. linked es i j))
    \<and> (\<forall>d i j. best' = Some (d, i, j) \<longrightarrow> best = Some (d, i, j) \<or> (i, j) \<in> set ps \<and> \<not> linked es i j)"
  using assms(1,3)
proof (induction ps arbitrary: p best)
  case Nil
  then show ?case by simp
next
  case (Cons e ps)
  obtain i j where e: "e = (i, j)" by fastforce
  then have ij: "i < n" "j < n" and ps: "\<forall>(i, j) \<in> set ps. i < n \<and> j < n" using Cons.prems(2) by auto
  obtain p1 where 1: "uf_find p i = Some (Ret (rep i, p1))" "tracks n es rep p1"
    using tracks_find [OF Cons.prems(1) ij(1)] by blast
  obtain p2 where 2: "uf_find p1 j = Some (Ret (rep j, p2))" "tracks n es rep p2"
    using tracks_find [OF 1(2) ij(2)] by blast
  have l: "rep i = rep j \<longleftrightarrow> linked es i j" using Cons.prems(1) ij by (simp add: tracks_def)
  obtain d where d: "dist2 pos i j = Ret d" using dist2_total ij assms(2) by blast
  let ?best = "if (case best of Some (bd, _) \<Rightarrow> d < bd | None \<Rightarrow> True) then Some (d, i, j) else best"
  show ?case
  proof (cases "linked es i j")
    case True
    then have "closest pos (e # ps) p best = closest pos ps p2 best" using e 1(1) 2(1) l by simp
    with Cons.IH [OF 2(2) ps, of best] True e show ?thesis by auto
  next
    case False
    then have c: "closest pos (e # ps) p best = closest pos ps p2 ?best" using e 1(1) 2(1) l d by simp
    obtain best' p' where b: "closest pos ps p2 ?best = Some (Ret (best', p'))" "tracks n es rep p'"
      "best' = None \<longrightarrow> ?best = None" "\<forall>d i j. best' = Some (d, i, j) \<longrightarrow> ?best = Some (d, i, j) \<or> (i, j) \<in> set ps \<and> \<not> linked es i j"
      using Cons.IH [OF 2(2) ps, of ?best] by auto
    have "?best \<noteq> None" by (cases best) auto
    then have "best' \<noteq> None" using b(3) by argo
    moreover have "best = Some (d', i', j') \<or> (i', j') \<in> set (e # ps) \<and> \<not> linked es i' j'" if "best' = Some (d', i', j')" for d' i' j'
      using b(4) that False e by (auto split: if_splits)
    ultimately show ?thesis using b(1,2) c by auto
  qed
qed

lemma all_linked_components:
  assumes "\<forall>x < n. \<forall>y < n. linked es x y"
  shows "components n es = (if n = 0 then 0 else 1)"
proof (cases "n = 0")
  case False
  have "(\<lambda>x. {y. y < n \<and> linked es x y}) ` {..<n} = {{..<n}}" using assms False by auto
  with False show ?thesis by (simp add: components_def)
qed (simp add: components_def)

lemma join_components_connects:
  assumes "tracks n es rep p" "length pos = n"
  shows "\<exists>es'. join_components n pos p es = Some (Ret (es @ es')) \<and> set es' \<subseteq> set (pairs n)
    \<and> (\<forall>x < n. \<forall>y < n. linked (es @ es') x y) \<and> length es' = components n es - 1"
  using assms(1)
proof (induction "components n es" arbitrary: es rep p rule: less_induct)
  case less
  obtain best p1 where c: "closest pos (pairs n) p None = Some (Ret (best, p1))" "tracks n es rep p1"
    "best = None \<longrightarrow> (\<forall>(i, j) \<in> set (pairs n). linked es i j)"
    "\<forall>d i j. best = Some (d, i, j) \<longrightarrow> (i, j) \<in> set (pairs n) \<and> \<not> linked es i j"
    using closest_tracks [OF less.prems assms(2) pairs_below, of None] by auto
  show ?case
  proof (cases best)
    case None
    have all: "\<forall>x < n. \<forall>y < n. linked es x y"
    proof (intro allI impI)
      fix x y assume "x < n" "y < n"
      moreover have "linked es i j" if "i < j" "j < n" for i j using c(3) None in_pairs that by auto
      ultimately show "linked es x y" by (cases x y rule: linorder_cases) (auto intro: linked_sym)
    qed
    have "join_components n pos p es = Some (Ret (es @ []))" by (subst join_components.simps) (simp add: c(1) None)
    with all all_linked_components [OF all] show ?thesis by (intro exI [of _ "[]"]) auto
  next
    case (Some b)
    then obtain d i j where b: "best = Some (d, i, j)" by (cases b) auto
    then have ij: "i < j" "j < n" "\<not> linked es i j" using c(4) in_pairs by auto
    obtain p2 rep2 where u: "uf_union p1 i j = Some (Ret p2)" "tracks n (es @ [(i, j)]) rep2 p2"
      using tracks_union(1) [OF c(2), of i j] ij by auto
    have n: "components n es = Suc (components n (es @ [(i, j)]))" using tracks_union(2) [OF c(2), of i j] ij by simp
    then have "components n (es @ [(i, j)]) < components n es" by simp
    from less.hyps [OF this u(2)] obtain es' where es': "join_components n pos p2 (es @ [(i, j)]) = Some (Ret ((es @ [(i, j)]) @ es'))"
      "set es' \<subseteq> set (pairs n)" "\<forall>x < n. \<forall>y < n. linked ((es @ [(i, j)]) @ es') x y" "length es' = components n (es @ [(i, j)]) - 1"
      by blast
    have "components n (es @ [(i, j)]) \<noteq> 0"
      using ij(2) by (auto simp: components_def)
    then have "length ((i, j) # es') = components n es - 1" using n es'(4) by simp
    moreover have "join_components n pos p es = Some (Ret (es @ (i, j) # es'))"
      by (subst join_components.simps) (simp add: c(1) b u(1) es'(1))
    ultimately show ?thesis using es'(2,3) ij in_pairs by (intro exI [of _ "(i, j) # es'"]) auto
  qed
qed

lemma near_pairs_eq:
  assumes "\<forall>(i, j) \<in> set ps. i < length pos \<and> j < length pos"
  shows "\<exists>es. near_pairs pos r2 ps = Ret es \<and> set es \<subseteq> set ps"
  using assms
proof (induction ps)
  case (Cons e ps)
  obtain i j where e: "e = (i, j)" by fastforce
  obtain d where "dist2 pos i j = Ret d" using dist2_total Cons.prems e by fastforce
  with Cons e show ?case by auto
qed simp

lemma geometric_builds:
  "\<exists>es es'. geometric draw n deg = Some (Ret \<lparr>g_n = n, g_edges = es @ es',
       positions = map (\<lambda>i. (draw (2 * i), draw (2 * i + 1))) [0..<n]\<rparr>)
     \<and> near_pairs (map (\<lambda>i. (draw (2 * i), draw (2 * i + 1))) [0..<n]) (radius2 n deg) (pairs n) = Ret es
     \<and> set (es @ es') \<subseteq> set (pairs n) \<and> (\<forall>x < n. \<forall>y < n. linked (es @ es') x y)
     \<and> length es' = components n es - 1"
proof -
  let ?pos = "map (\<lambda>i. (draw (2 * i), draw (2 * i + 1))) [0..<n]"
  have len: "length ?pos = n" by simp
  obtain es where es: "near_pairs ?pos (radius2 n deg) (pairs n) = Ret es" "set es \<subseteq> set (pairs n)"
    using near_pairs_eq [of "pairs n" ?pos "radius2 n deg", unfolded len, OF pairs_below] by auto
  have "\<forall>(a, b) \<in> set es. a < n \<and> b < n" using pairs_below [of n] es(2) by (meson subsetD)
  from tracks_unions [OF tracks_new this] obtain p rep where u: "uf_unions (uf_new n) es = Some (Ret p)" "tracks n es rep p" by auto
  from join_components_connects [OF u(2) len] obtain es' where j: "join_components n ?pos p es = Some (Ret (es @ es'))"
    "set es' \<subseteq> set (pairs n)" "\<forall>x < n. \<forall>y < n. linked (es @ es') x y" "length es' = components n es - 1" by blast
  have "geometric draw n deg = Some (Ret \<lparr>g_n = n, g_edges = es @ es', positions = ?pos\<rparr>)"
    unfolding geometric_def Let_def es(1) connect_components_def bind_loop_simps u(1) j(1) ..
  with es j show ?thesis by auto
qed

text \<open>C26: a random geometric graph is built, for every size, degree and sequence of random numbers, in
  finitely many steps and without a panic: the loops of \<open>find\<close> and the loop that joins the components
  end.  It has the pairs of nodes within the radius and, after them, exactly as many further edges as are
  needed to make it connected, one less than the number of components; and it is connected.\<close>

theorem geometric_connected:
  "\<exists>es es'. geometric draw n deg = Some (Ret \<lparr>g_n = n, g_edges = es @ es',
       positions = map (\<lambda>i. (draw (2 * i), draw (2 * i + 1))) [0..<n]\<rparr>)
     \<and> near_pairs (map (\<lambda>i. (draw (2 * i), draw (2 * i + 1))) [0..<n]) (radius2 n deg) (pairs n) = Ret es
     \<and> set (es @ es') \<subseteq> set (pairs n) \<and> (\<forall>x < n. \<forall>y < n. linked (es @ es') x y)
     \<and> length es' = components n es - 1"
  by (rule geometric_builds)

theorem geometric_connected_witness:
  "\<exists>g. geometric (\<lambda>k. of_nat k / 8) 3 1 = Some (Ret g) \<and> linked (g_edges g) 0 2"
  using geometric_connected [of "\<lambda>k. of_nat k / 8" 3 1] by fastforce

end
