(* ===== verification/Simulator.thy ===== *)
theory Simulator
  imports Events Topology
begin

text \<open>
  The simulator, \<open>crates/sim/src/lib.rs\<close>: a \<open>World\<close> of nodes joined by edges with latency and loss, whose
  frames are routed step by step in virtual time.  The shared clock is written into every node, the
  two buffers of a node's transport are the calls in its \<open>outbox\<close>, \<open>u64\<close> counters wrap as in a release
  build, indexing out of range panics, and the loop of \<open>run_for\<close> may not end (\<open>None\<close>).  The seeded
  generators are parameters: one environment per node, and the sequence of the world's own numbers.
\<close>

section \<open>State\<close>

record edge =
  e_a :: nat
  e_b :: nat
  latency_ms :: u64
  loss :: f64
  e_mtu :: nat
  e_up :: bool

record in_flight_frame =
  deliver_at :: u64
  dest :: nat
  if_link :: link_id
  if_frame :: bytes

record ('hs, 'ts) sim_node =
  sn_node :: "('hs, 'ts, memory_store) node"
  sn_events :: "mesh_event list"

record ('hs, 'ts) world =
  w_nodes :: "('hs, 'ts) sim_node list"
  w_edges :: "edge list"
  inflight :: "in_flight_frame list"
  w_draws :: nat
  step_ms :: u64
  w_now :: u64
  tx_frames :: u64

text \<open>The parameters of every node: the seeds of the generators differ from node to node.\<close>

type_synonym ('hs, 'ts) envs = "nat \<Rightarrow> ('hs, 'ts, memory_store) env"

definition sim_node_new :: "('hs, 'ts) envs \<Rightarrow> tunables \<Rightarrow> nat \<Rightarrow> ('hs, 'ts) sim_node" where
  "sim_node_new E cfg i =
     (let id_seed = rev (u64_to_be (of_nat i)) @ [0xC0] @ replicate 23 0;
          st = memory_store_new (channel_history_max_msgs cfg) (channel_history_ms cfg) (envelope_ttl_ms cfg) (envelope_max_per_peer cfg)
      in \<lparr>sn_node = node_new (from_seed (sha256 (E i)) id_seed) cfg 0 st (str_bytes (''node'' @ decimal i)), sn_events = []\<rparr>)"

definition world_new :: "('hs, 'ts) envs \<Rightarrow> nat \<Rightarrow> tunables \<Rightarrow> ('hs, 'ts) world" where
  "world_new E n cfg =
     \<lparr>w_nodes = map (sim_node_new E cfg) [0..<n], w_edges = [], inflight = [], w_draws = 0, step_ms = 10, w_now = 0, tx_frames = 0\<rparr>"

section \<open>Operations\<close>

fun fold_ret :: "('s \<Rightarrow> 'a \<Rightarrow> 's outcome) \<Rightarrow> 's \<Rightarrow> 'a list \<Rightarrow> 's outcome" where
  "fold_ret f s [] = Ret s"
| "fold_ret f s (x # xs) = and_then (f s x) (\<lambda>s. fold_ret f s xs)"

definition update_node ::
  "('hs, 'ts) world \<Rightarrow> nat \<Rightarrow> (('hs, 'ts) sim_node \<Rightarrow> ('hs, 'ts) sim_node outcome) \<Rightarrow> ('hs, 'ts) world outcome" where
  "update_node w i f =
     and_then (index (w_nodes w) i) (\<lambda>s. and_then (f s) (\<lambda>s. Ret (w\<lparr>w_nodes := (w_nodes w)[i := s]\<rparr>)))"

definition node_event ::
  "('hs, 'ts) envs \<Rightarrow> ('hs, 'ts) world \<Rightarrow> nat \<Rightarrow> transport_event \<Rightarrow> ('hs, 'ts) world outcome" where
  "node_event E w i ev =
     update_node w i (\<lambda>s. and_then (on_transport_event (E i) (sn_node s) ev) (\<lambda>n. Ret (s\<lparr>sn_node := n\<rparr>)))"

definition both_ends ::
  "('hs, 'ts) envs \<Rightarrow> ('hs, 'ts) world \<Rightarrow> nat \<Rightarrow> nat \<Rightarrow> transport_event \<Rightarrow> ('hs, 'ts) world outcome" where
  "both_ends E w a b ev = and_then (node_event E w a ev) (\<lambda>w. node_event E w b ev)"

definition set_step_ms :: "('hs, 'ts) world \<Rightarrow> u64 \<Rightarrow> ('hs, 'ts) world" where
  "set_step_ms w s = w\<lparr>step_ms := max s 1\<rparr>"

definition link_nodes ::
  "('hs, 'ts) world \<Rightarrow> nat \<Rightarrow> nat \<Rightarrow> u64 \<Rightarrow> f64 \<Rightarrow> nat \<Rightarrow> link_id \<times> ('hs, 'ts) world" where
  "link_nodes w a b lat ls m =
     (of_nat (length (w_edges w)),
      w\<lparr>w_edges := w_edges w @ [\<lparr>e_a = a, e_b = b, latency_ms = lat, loss = ls, e_mtu = m, e_up = True\<rparr>]\<rparr>)"

fun sent_frames :: "transport_call list \<Rightarrow> (link_id \<times> bytes) list" where
  "sent_frames [] = []"
| "sent_frames (Send l f # cs) = (l, f) # sent_frames cs"
| "sent_frames (Close l # cs) = sent_frames cs"

fun closed_links :: "transport_call list \<Rightarrow> link_id list" where
  "closed_links [] = []"
| "closed_links (Send l f # cs) = closed_links cs"
| "closed_links (Close l # cs) = l # closed_links cs"

text \<open>One outbound frame of node \<open>i\<close>: lost, or in flight to the other end.  The parameter \<open>draw\<close> is the
  sequence of numbers the world's generator yields.\<close>

definition route_frame ::
  "(nat \<Rightarrow> f64) \<Rightarrow> nat \<Rightarrow> ('hs, 'ts) world \<Rightarrow> link_id \<times> bytes \<Rightarrow> ('hs, 'ts) world outcome" where
  "route_frame draw i w = (\<lambda>(link, frame).
     and_then (index (w_edges w) (unat link)) (\<lambda>e.
       if \<not> e_up e then Ret w
       else
         let w = w\<lparr>tx_frames := tx_frames w + 1\<rparr>;
             lost = (0 < loss e \<and> draw (w_draws w) < loss e);
             w = (if 0 < loss e then w\<lparr>w_draws := Suc (w_draws w)\<rparr> else w)
         in if lost then Ret w
            else Ret (w\<lparr>inflight := inflight w @
                   [\<lparr>deliver_at = w_now w + latency_ms e, dest = (if e_a e = i then e_b e else e_a e),
                     if_link = link, if_frame = frame\<rparr>]\<rparr>)))"

definition collect_node ::
  "(nat \<Rightarrow> f64) \<Rightarrow> ('hs, 'ts) world \<Rightarrow> nat \<Rightarrow> ('hs, 'ts) world outcome" where
  "collect_node draw w i =
     and_then (index (w_nodes w) i) (\<lambda>s.
       let (evs, n) = take_events (sn_node s);
           out = sent_frames (outbox n);
           s = s\<lparr>sn_node := n\<lparr>outbox := map Close (closed_links (outbox n))\<rparr>, sn_events := sn_events s @ evs\<rparr>
       in fold_ret (route_frame draw i) (w\<lparr>w_nodes := (w_nodes w)[i := s]\<rparr>) out)"

definition collect_and_route :: "(nat \<Rightarrow> f64) \<Rightarrow> ('hs, 'ts) world \<Rightarrow> ('hs, 'ts) world outcome" where
  "collect_and_route draw w = fold_ret (collect_node draw) w [0..<length (w_nodes w)]"

definition connect_nodes ::
  "('hs, 'ts) envs \<Rightarrow> (nat \<Rightarrow> f64) \<Rightarrow> ('hs, 'ts) world \<Rightarrow> nat \<Rightarrow> nat \<Rightarrow> u64 \<Rightarrow> f64 \<Rightarrow> nat \<Rightarrow> ('hs, 'ts) world outcome" where
  "connect_nodes E draw w a b lat ls m =
     (let (l, w) = link_nodes w a b lat ls m
      in and_then (both_ends E w a b (LinkUp l m None)) (collect_and_route draw))"

definition bootstrap :: "('hs, 'ts) envs \<Rightarrow> (nat \<Rightarrow> f64) \<Rightarrow> ('hs, 'ts) world \<Rightarrow> ('hs, 'ts) world outcome" where
  "bootstrap E draw w =
     and_then (fold_ret (\<lambda>w (l, e). both_ends E w (e_a e) (e_b e) (LinkUp (of_nat l) (e_mtu e) None)) w
                 (List.enumerate 0 (w_edges w)))
       (collect_and_route draw)"

definition set_edge_up ::
  "('hs, 'ts) envs \<Rightarrow> ('hs, 'ts) world \<Rightarrow> link_id \<Rightarrow> bool \<Rightarrow> ('hs, 'ts) world outcome" where
  "set_edge_up E w l up =
     (if unat l < length (w_edges w)
      then let e = w_edges w ! unat l
           in if e_up e \<noteq> up
              then let w = w\<lparr>w_edges := (w_edges w)[unat l := e\<lparr>e_up := up\<rparr>]\<rparr>
                   in both_ends E w (e_a e) (e_b e) (if up then LinkUp l (e_mtu e) None else LinkDown l)
              else Ret w
      else Ret w)"

definition deliver :: "('hs, 'ts) envs \<Rightarrow> ('hs, 'ts) world \<Rightarrow> in_flight_frame \<Rightarrow> ('hs, 'ts) world outcome" where
  "deliver E w f =
     and_then (index (w_edges w) (unat (if_link f))) (\<lambda>e.
       if e_up e then node_event E w (dest f) (FrameReceived (if_link f) (if_frame f)) else Ret w)"

definition tick_node :: "('hs, 'ts) envs \<Rightarrow> ('hs, 'ts) world \<Rightarrow> nat \<Rightarrow> ('hs, 'ts) world outcome" where
  "tick_node E w i = update_node w i (\<lambda>s. and_then (tick (E i) (sn_node s)) (\<lambda>(_, n). Ret (s\<lparr>sn_node := n\<rparr>)))"

definition honor_closes :: "('hs, 'ts) envs \<Rightarrow> ('hs, 'ts) world \<Rightarrow> nat \<Rightarrow> ('hs, 'ts) world outcome" where
  "honor_closes E w i =
     and_then (index (w_nodes w) i) (\<lambda>s.
       let n = sn_node s;
           w = w\<lparr>w_nodes := (w_nodes w)[i := s\<lparr>sn_node := n\<lparr>outbox := map (case_prod Send) (sent_frames (outbox n))\<rparr>\<rparr>]\<rparr>
       in fold_ret (\<lambda>w l. set_edge_up E w l False) w (closed_links (outbox n)))"

definition world_step :: "('hs, 'ts) envs \<Rightarrow> (nat \<Rightarrow> f64) \<Rightarrow> ('hs, 'ts) world \<Rightarrow> ('hs, 'ts) world outcome" where
  "world_step E draw w =
     (let now = w_now w + step_ms w;
          w = w\<lparr>w_now := now,
                w_nodes := map (\<lambda>s. s\<lparr>sn_node := (sn_node s)\<lparr>clock := now\<rparr>\<rparr>) (w_nodes w)\<rparr>;
          ready = filter (\<lambda>f. deliver_at f \<le> now) (inflight w);
          w = w\<lparr>inflight := filter (\<lambda>f. \<not> deliver_at f \<le> now) (inflight w)\<rparr>;
          ids = [0..<length (w_nodes w)]
      in and_then (fold_ret (deliver E) w ready) (\<lambda>w.
         and_then (fold_ret (tick_node E) w ids) (\<lambda>w.
         and_then (collect_and_route draw w) (\<lambda>w.
           fold_ret (honor_closes E) w ids))))"

partial_function (option) run_until ::
  "('hs, 'ts) envs \<Rightarrow> (nat \<Rightarrow> f64) \<Rightarrow> u64 \<Rightarrow> ('hs, 'ts) world \<Rightarrow> ('hs, 'ts) world outcome option" where
  "run_until E draw target w =
     (if w_now w < target
      then (case world_step E draw w of
              Panic \<Rightarrow> Some Panic
            | Ret w \<Rightarrow> run_until E draw target w)
      else Some (Ret w))"

definition run_for ::
  "('hs, 'ts) envs \<Rightarrow> (nat \<Rightarrow> f64) \<Rightarrow> ('hs, 'ts) world \<Rightarrow> u64 \<Rightarrow> ('hs, 'ts) world outcome option" where
  "run_for E draw w duration = run_until E draw (w_now w + duration) w"

definition reset_tx :: "('hs, 'ts) world \<Rightarrow> ('hs, 'ts) world" where
  "reset_tx w = w\<lparr>tx_frames := 0, w_nodes := map (\<lambda>s. s\<lparr>sn_node := reset_relays_fired (sn_node s)\<rparr>) (w_nodes w)\<rparr>"

definition count_with_message :: "('hs, 'ts) envs \<Rightarrow> ('hs, 'ts) world \<Rightarrow> bytes \<Rightarrow> nat" where
  "count_with_message E w d =
     length (filter (\<lambda>(i, s). has_message (store (E i)) (n_store (sn_node s)) d) (List.enumerate 0 (w_nodes w)))"

definition delivery_ratio :: "('hs, 'ts) envs \<Rightarrow> ('hs, 'ts) world \<Rightarrow> bytes \<Rightarrow> f64" where
  "delivery_ratio E w d = f64_round (f64_round (of_nat (count_with_message E w d)) / f64_round (of_nat (length (w_nodes w))))"

definition total_relays_fired :: "('hs, 'ts) world \<Rightarrow> u64" where
  "total_relays_fired w = sum_list (map (\<lambda>s. relays_fired (sn_node s)) (w_nodes w))"

definition world_fingerprint :: "('hs, 'ts) envs \<Rightarrow> ('hs, 'ts) world \<Rightarrow> nat \<Rightarrow> bytes outcome" where
  "world_fingerprint E w i = and_then (index (w_nodes w) i) (\<lambda>s. Ret (node_fingerprint (E i) (sn_node s)))"

definition world_link_count :: "('hs, 'ts) world \<Rightarrow> nat \<Rightarrow> nat outcome" where
  "world_link_count w i = and_then (index (w_nodes w) i) (\<lambda>s. Ret (link_count (sn_node s)))"

definition node_mut ::
  "('hs, 'ts) world \<Rightarrow> nat \<Rightarrow> (('hs, 'ts, memory_store) node \<Rightarrow> ('hs, 'ts, memory_store) node) \<Rightarrow> ('hs, 'ts) world outcome" where
  "node_mut w i f = update_node w i (\<lambda>s. Ret (s\<lparr>sn_node := f (sn_node s)\<rparr>))"

section \<open>The invariant of a world\<close>

text \<open>A node knows only links that are edges of the world, and has called only on them.\<close>

definition node_valid :: "nat \<Rightarrow> ('hs, 'ts, 's) node \<Rightarrow> bool" where
  "node_valid m n \<longleftrightarrow> node_ok n \<and> fst ` set (links n) \<subseteq> {l. unat l < m} \<and> call_link ` set (outbox n) \<subseteq> {l. unat l < m}"

lemma node_valid_within:
  assumes "node_valid m n" "calls_within L n n'" "node_ok n'" "L \<subseteq> {l. unat l < m}"
  shows "node_valid m n'"
proof -
  from assms(1) have s: "fst ` set (links n) \<subseteq> {l. unat l < m}" "call_link ` set (outbox n) \<subseteq> {l. unat l < m}"
    by (simp_all add: node_valid_def)
  have "fst ` set (links n') \<subseteq> {l. unat l < m}"
    by (rule order_trans [OF conjunct1 [OF assms(2) [unfolded calls_within_def]] Un_least [OF s(1) assms(4)]])
  moreover have "call_link ` set (outbox n') \<subseteq> {l. unat l < m}"
    by (rule order_trans [OF conjunct2 [OF assms(2) [unfolded calls_within_def]] Un_least [OF Un_least [OF s(2,1)] assms(4)]])
  ultimately show ?thesis using assms(3) by (simp add: node_valid_def)
qed

definition world_ok :: "nat \<Rightarrow> nat \<Rightarrow> u64 \<Rightarrow> u64 \<Rightarrow> ('hs, 'ts) world \<Rightarrow> bool" where
  "world_ok N m t st w \<longleftrightarrow> length (w_nodes w) = N \<and> length (w_edges w) = m \<and> w_now w = t \<and> step_ms w = st
     \<and> (\<forall>e \<in> set (w_edges w). e_a e < N \<and> e_b e < N)
     \<and> (\<forall>s \<in> set (w_nodes w). node_valid m (sn_node s))
     \<and> (\<forall>f \<in> set (inflight w). unat (if_link f) < m \<and> dest f < N)"

lemma fold_ret_inv:
  assumes "\<And>s x. P s \<Longrightarrow> x \<in> set xs \<Longrightarrow> \<exists>s'. f s x = Ret s' \<and> P s'" "P s"
  shows "\<exists>s'. fold_ret f s xs = Ret s' \<and> P s'"
  using assms
proof (induction xs arbitrary: s)
  case (Cons x xs)
  then obtain s' where "f s x = Ret s'" "P s'" by (meson list.set_intros(1))
  with Cons show ?case by auto
qed simp

lemma event_valid:
  assumes "node_valid m n" "unat (event_link ev) < m"
  shows "\<exists>n'. on_transport_event E n ev = Ret n' \<and> node_valid m n'"
proof -
  have "node_ok n" using assms(1) by (simp add: node_valid_def)
  then obtain n' where n': "on_transport_event E n ev = Ret n'" "node_ok n'" using on_transport_event_ok by blast
  have "calls_within {event_link ev} n n'" by (rule event_calls_within [OF n'(1)]) simp
  from node_valid_within [OF assms(1) this n'(2)] n'(1) assms(2) show ?thesis by simp
qed

lemma tick_valid:
  assumes "node_valid m n"
  shows "\<exists>d n'. tick E n = Ret (d, n') \<and> node_valid m n'"
proof -
  have "node_ok n" using assms by (simp add: node_valid_def)
  then obtain d n' where n': "tick E n = Ret (d, n')" "node_ok n'" using tick_ok by blast
  have "calls_within {} n n'" by (rule tick_calls_within [OF n'(1)])
  from node_valid_within [OF assms this n'(2)] n'(1) show ?thesis by simp
qed

lemma world_ok_update:
  assumes "world_ok N m t st w" "node_valid m (sn_node s)"
  shows "world_ok N m t st (w\<lparr>w_nodes := (w_nodes w)[i := s]\<rparr>)"
  using assms by (auto simp: world_ok_def dest!: set_update_subset_insert [THEN subsetD])

lemma update_node_ok:
  assumes "world_ok N m t st w" "i < N"
    and "\<And>s. node_valid m (sn_node s) \<Longrightarrow> \<exists>s'. f s = Ret s' \<and> node_valid m (sn_node s')"
  shows "\<exists>w'. update_node w i f = Ret w' \<and> world_ok N m t st w'"
proof -
  have i: "index (w_nodes w) i = Ret (w_nodes w ! i)" and "node_valid m (sn_node (w_nodes w ! i))"
    using assms(1,2) by (auto simp: world_ok_def index_def)
  with assms(3) obtain s' where "f (w_nodes w ! i) = Ret s'" "node_valid m (sn_node s')" by blast
  with i world_ok_update [OF assms(1)] show ?thesis by (simp add: update_node_def)
qed

lemma node_event_ok:
  assumes "world_ok N m t st w" "i < N" "unat (event_link ev) < m"
  shows "\<exists>w'. node_event E w i ev = Ret w' \<and> world_ok N m t st w'"
  unfolding node_event_def
proof (rule update_node_ok [OF assms(1,2)])
  fix s :: "('a, 'b) sim_node" assume "node_valid m (sn_node s)"
  from event_valid [OF this assms(3)] obtain n' where "on_transport_event (E i) (sn_node s) ev = Ret n'" "node_valid m n'" by blast
  then show "\<exists>s'. and_then (on_transport_event (E i) (sn_node s) ev) (\<lambda>n. Ret (s\<lparr>sn_node := n\<rparr>)) = Ret s' \<and> node_valid m (sn_node s')"
    by simp
qed

lemma both_ends_ok:
  assumes "world_ok N m t st w" "a < N" "b < N" "unat (event_link ev) < m"
  shows "\<exists>w'. both_ends E w a b ev = Ret w' \<and> world_ok N m t st w'"
proof -
  obtain w1 where 1: "node_event E w a ev = Ret w1" "world_ok N m t st w1" using node_event_ok [OF assms(1,2,4)] by blast
  from node_event_ok [OF 1(2) assms(3,4), of E] 1(1) show ?thesis by (simp add: both_ends_def)
qed

lemma tick_node_ok:
  assumes "world_ok N m t st w" "i < N"
  shows "\<exists>w'. tick_node E w i = Ret w' \<and> world_ok N m t st w'"
  unfolding tick_node_def
proof (rule update_node_ok [OF assms])
  fix s :: "('a, 'b) sim_node" assume "node_valid m (sn_node s)"
  from tick_valid [OF this] obtain d n' where "tick (E i) (sn_node s) = Ret (d, n')" "node_valid m n'" by blast
  then show "\<exists>s'. and_then (tick (E i) (sn_node s)) (\<lambda>(_, n). Ret (s\<lparr>sn_node := n\<rparr>)) = Ret s' \<and> node_valid m (sn_node s')"
    by simp
qed

lemma set_edge_up_ok:
  assumes "world_ok N m t st w"
  shows "\<exists>w'. set_edge_up E w l up = Ret w' \<and> world_ok N m t st w'"
proof (cases "unat l < length (w_edges w) \<and> e_up (w_edges w ! unat l) \<noteq> up")
  case True
  let ?e = "w_edges w ! unat l" and ?ev = "if up then LinkUp l (e_mtu (w_edges w ! unat l)) None else LinkDown l"
  let ?w = "w\<lparr>w_edges := (w_edges w)[unat l := ?e\<lparr>e_up := up\<rparr>]\<rparr>"
  have e: "e_a ?e < N" "e_b ?e < N" and m: "unat l < m" using True assms by (auto simp: world_ok_def)
  have "world_ok N m t st ?w"
    using assms e by (auto simp: world_ok_def dest!: set_update_subset_insert [THEN subsetD])
  from both_ends_ok [OF this e, of ?ev E] m have "\<exists>w'. both_ends E ?w (e_a ?e) (e_b ?e) ?ev = Ret w' \<and> world_ok N m t st w'" by simp
  with True show ?thesis by (simp add: set_edge_up_def Let_def)
qed (use assms in \<open>auto simp: set_edge_up_def Let_def\<close>)

lemma sends_links: "fst ` set (sent_frames cs) \<subseteq> call_link ` set cs" "set (closed_links cs) \<subseteq> call_link ` set cs"
  by (induction cs rule: sent_frames.induct) auto

lemma node_valid_calls:
  "node_valid m n \<Longrightarrow> call_link ` set xs \<subseteq> call_link ` set (outbox n) \<Longrightarrow> node_valid m (n\<lparr>events := evs, outbox := xs\<rparr>)"
  unfolding node_valid_def by (elim conjE, intro conjI) (simp_all add: node_ok_def parts_ok_def)

lemma route_frame_ok:
  assumes "world_ok N m t st w" "unat (fst lf) < m"
  shows "\<exists>w'. route_frame draw i w lf = Ret w' \<and> world_ok N m t st w'"
proof -
  obtain l f where lf: "lf = (l, f)" by fastforce
  have e: "index (w_edges w) (unat l) = Ret (w_edges w ! unat l)" "e_a (w_edges w ! unat l) < N" "e_b (w_edges w ! unat l) < N"
    using assms by (auto simp: world_ok_def index_def lf)
  show ?thesis using assms e by (auto simp: route_frame_def lf Let_def world_ok_def)
qed

lemma collect_node_ok:
  assumes "world_ok N m t st w" "i < N"
  shows "\<exists>w'. collect_node draw w i = Ret w' \<and> world_ok N m t st w'"
proof -
  let ?s = "w_nodes w ! i" and ?n = "sn_node (w_nodes w ! i)"
  let ?s' = "?s\<lparr>sn_node := ?n\<lparr>events := [], outbox := map Close (closed_links (outbox ?n))\<rparr>, sn_events := sn_events ?s @ events ?n\<rparr>"
  have i: "index (w_nodes w) i = Ret ?s" and v: "node_valid m ?n" using assms by (auto simp: world_ok_def index_def)
  have "node_valid m (sn_node ?s')"
    using node_valid_calls [OF v, of "map Close (closed_links (outbox ?n))" "[]"] sends_links(2) by (simp add: image_image)
  from world_ok_update [OF assms(1) this] have w: "world_ok N m t st (w\<lparr>w_nodes := (w_nodes w)[i := ?s']\<rparr>)" .
  have "unat (fst x) < m" if "x \<in> set (sent_frames (outbox ?n))" for x
  proof -
    have "call_link ` set (outbox ?n) \<subseteq> {l. unat l < m}" using v by (simp add: node_valid_def)
    from order_trans [OF sends_links(1) this] that show ?thesis by blast
  qed
  then have "\<exists>w'. fold_ret (route_frame draw i) (w\<lparr>w_nodes := (w_nodes w)[i := ?s']\<rparr>) (sent_frames (outbox ?n)) = Ret w' \<and> world_ok N m t st w'"
    by (intro fold_ret_inv [where P = "world_ok N m t st", OF _ w] route_frame_ok)
  then show ?thesis by (simp add: collect_node_def i take_events_def Let_def)
qed

lemma collect_and_route_ok:
  assumes "world_ok N m t st w"
  shows "\<exists>w'. collect_and_route draw w = Ret w' \<and> world_ok N m t st w'"
  unfolding collect_and_route_def
  by (rule fold_ret_inv [where P = "world_ok N m t st", OF _ assms], rule collect_node_ok)
    (use assms in \<open>simp_all add: world_ok_def\<close>)

lemma deliver_ok:
  assumes "world_ok N m t st w" "unat (if_link f) < m" "dest f < N"
  shows "\<exists>w'. deliver E w f = Ret w' \<and> world_ok N m t st w'"
proof -
  have "index (w_edges w) (unat (if_link f)) = Ret (w_edges w ! unat (if_link f))" using assms by (simp add: world_ok_def index_def)
  with node_event_ok [OF assms(1,3), of "FrameReceived (if_link f) (if_frame f)" E] assms(1,2) show ?thesis by (simp add: deliver_def)
qed

lemma honor_closes_ok:
  assumes "world_ok N m t st w" "i < N"
  shows "\<exists>w'. honor_closes E w i = Ret w' \<and> world_ok N m t st w'"
proof -
  let ?s = "w_nodes w ! i" and ?n = "sn_node (w_nodes w ! i)"
  let ?s' = "?s\<lparr>sn_node := ?n\<lparr>outbox := map (case_prod Send) (sent_frames (outbox ?n))\<rparr>\<rparr>"
  have i: "index (w_nodes w) i = Ret ?s" and v: "node_valid m ?n" using assms by (auto simp: world_ok_def index_def)
  have "call_link ` case_prod Send ` set (sent_frames (outbox ?n)) = fst ` set (sent_frames (outbox ?n))" by (force simp: image_image)
  then have "node_valid m (?n\<lparr>events := events ?n, outbox := map (case_prod Send) (sent_frames (outbox ?n))\<rparr>)"
    using sends_links(1) by (intro node_valid_calls [OF v]) simp
  then have "node_valid m (sn_node ?s')" by simp
  from world_ok_update [OF assms(1) this] have w: "world_ok N m t st (w\<lparr>w_nodes := (w_nodes w)[i := ?s']\<rparr>)" .
  have "\<exists>w'. fold_ret (\<lambda>w l. set_edge_up E w l False) (w\<lparr>w_nodes := (w_nodes w)[i := ?s']\<rparr>) (closed_links (outbox ?n)) = Ret w' \<and> world_ok N m t st w'"
    by (intro fold_ret_inv [where P = "world_ok N m t st", OF _ w] set_edge_up_ok)
  then show ?thesis by (simp add: honor_closes_def i Let_def)
qed

lemma world_step_ok:
  assumes "world_ok N m t st w"
  shows "\<exists>w'. world_step E draw w = Ret w' \<and> world_ok N m (t + st) st w'"
proof -
  let ?P = "world_ok N m (t + st) st"
  let ?w0 = "w\<lparr>w_now := w_now w + step_ms w, w_nodes := map (\<lambda>s. s\<lparr>sn_node := (sn_node s)\<lparr>clock := w_now w + step_ms w\<rparr>\<rparr>) (w_nodes w),
      inflight := filter (\<lambda>f. \<not> deliver_at f \<le> w_now w + step_ms w) (inflight w)\<rparr>"
  let ?ready = "filter (\<lambda>f. deliver_at f \<le> w_now w + step_ms w) (inflight w)"
  have "node_valid m (n\<lparr>clock := c\<rparr>)" if "node_valid m n" for n :: "('a, 'b, memory_store) node" and c
    using that by (simp add: node_valid_def node_ok_def parts_ok_def)
  then have p0: "?P ?w0" using assms by (auto simp: world_ok_def)
  have "\<exists>w'. fold_ret (deliver E) ?w0 ?ready = Ret w' \<and> ?P w'"
    by (rule fold_ret_inv [where P = ?P, OF _ p0], rule deliver_ok) (use assms in \<open>auto simp: world_ok_def\<close>)
  then obtain w1 where w1: "fold_ret (deliver E) ?w0 ?ready = Ret w1" "?P w1" by blast
  have n: "length (w_nodes w) = N" using assms by (simp add: world_ok_def)
  have "\<exists>w'. fold_ret (tick_node E) w1 [0..<N] = Ret w' \<and> ?P w'"
    by (rule fold_ret_inv [where P = ?P, OF _ w1(2)], rule tick_node_ok) simp_all
  then obtain w2 where w2: "fold_ret (tick_node E) w1 [0..<N] = Ret w2" "?P w2" by blast
  obtain w3 where w3: "collect_and_route draw w2 = Ret w3" "?P w3" using collect_and_route_ok [OF w2(2)] by blast
  have "\<exists>w'. fold_ret (honor_closes E) w3 [0..<N] = Ret w' \<and> ?P w'"
    by (rule fold_ret_inv [where P = ?P, OF _ w3(2)], rule honor_closes_ok) simp_all
  then show ?thesis using w1(1) w2(1) w3(1) n by (simp add: world_step_def Let_def)
qed

text \<open>A run ends: every step moves the clock on.\<close>

lemma run_until_inv:
  assumes inv: "\<And>t w. P t w \<Longrightarrow> w_now w = t \<and> (\<exists>w'. world_step E draw w = Ret w' \<and> P (t + st) w')"
    and "P t w" "0 < st" "unat target + unat st < 2 ^ 64"
  shows "\<exists>w' t'. run_until E draw target w = Some (Ret w') \<and> P t' w' \<and> target \<le> t' \<and> t \<le> t'
    \<and> unat t' \<le> max (unat t) (unat target + unat st)"
  using assms(2)
proof (induction "unat target - unat t" arbitrary: t w rule: less_induct)
  case less
  have now: "w_now w = t" using inv [OF less.prems] by simp
  show ?case
  proof (cases "t < target")
    case True
    obtain w1 where w1: "world_step E draw w = Ret w1" "P (t + st) w1" using inv [OF less.prems] by blast
    have lt: "unat t < unat target" using True by (simp add: word_less_nat_alt)
    then have "unat t + unat st < 2 ^ 64" using assms(4) by linarith
    then have add: "unat (t + st) = unat t + unat st" by (simp add: unat_word_ariths)
    have "0 < unat st" using assms(3) by (simp add: word_less_nat_alt)
    then have "unat target - unat (t + st) < unat target - unat t" using lt add by linarith
    from less.hyps [OF this w1(2)] obtain w' t' where "run_until E draw target w1 = Some (Ret w')" "P t' w'" "target \<le> t'" "t + st \<le> t'"
      "unat t' \<le> max (unat (t + st)) (unat target + unat st)" by blast
    moreover have "t \<le> t + st" using add by (simp add: word_le_nat_alt)
    ultimately show ?thesis using True now w1(1) lt add by (subst run_until.simps) (auto intro: order_trans)
  next
    case False
    then show ?thesis using less.prems now by (subst run_until.simps) (auto simp: not_less)
  qed
qed

lemma run_until_returns:
  assumes "world_ok N m t st w" "0 < st" "unat target + unat st < 2 ^ 64"
  shows "\<exists>w' t'. run_until E draw target w = Some (Ret w') \<and> world_ok N m t' st w' \<and> target \<le> t' \<and> t \<le> t'
    \<and> unat t' \<le> max (unat t) (unat target + unat st)"
proof (rule run_until_inv [where P = "\<lambda>t w. world_ok N m t st w", OF _ assms])
  fix t and w :: "('a, 'b) world" assume w: "world_ok N m t st w"
  from world_step_ok [OF w] w show "w_now w = t \<and> (\<exists>w'. world_step E draw w = Ret w' \<and> world_ok N m (t + st) st w')"
    by (simp add: world_ok_def)
qed

section \<open>Worlds that a scenario reaches\<close>

text \<open>What a scenario may do with a node through \<open>node_mut\<close>: any of the commands of the core.\<close>

inductive node_command :: "('hs, 'ts, 's) env \<Rightarrow> ('hs, 'ts, 's) node \<Rightarrow> ('hs, 'ts, 's) node \<Rightarrow> bool"
  for E :: "('hs, 'ts, 's) env" where
  "node_command E n (snd (take_events n))"
| "node_command E n (reset_relays_fired n)"
| "node_command E n (join_channel E n name)"
| "node_command E n (snd (send_channel_message E n name body))"
| "node_command E n (announce E n)"
| "node_command E n (send_dm E n fp body)"
| "node_command E n (verify_peer E n fp)"
| "node_command E n (unverify_peer E n fp)"
| "node_command E n (forget_peer E n fp)"
| "node_command E n (start_dm_session E n fp)"
| "node_command E n (set_petname E n fp name)"
| "node_command E n (panic_wipe E n)"

lemma node_command_step: "node_command E n n' \<Longrightarrow> node_step E n n'"
  by (cases rule: node_command.cases) (auto intro: node_step.intros)

lemma calls_within_same: "links n' = links n \<Longrightarrow> outbox n' = outbox n \<Longrightarrow> calls_within L n n'"
  by (auto simp: calls_within_def)

lemma node_command_within: "node_command E n n' \<Longrightarrow> calls_within {} n n'"
proof (induction rule: node_command.induct)
  case (4 n name body)
  let ?c = "normalize (uni_lower E) name"
  have "calls_within {} n (observe_own E pkt (n\<lparr>subscribed := sb, n_store := st\<rparr>))" for pkt sb st
    by (rule calls_within_same) (simp_all add: observe_own_def)
  then show ?case by (auto simp: send_channel_message_def Let_def intro: calls_within_trans [OF _ broadcast_within])
next
  case (7 n fp)
  have "calls_within {} n (n\<lparr>n_store := st, notice_pending := np\<rparr>)" for st np by (rule calls_within_same) simp_all
  then show ?case unfolding verify_peer_def Let_def by (rule calls_within_trans) (rule cw.r_try_send_verify_notice)
qed (auto intro: calls_within_same announce_within cw.r_send_dm cw.r_begin_handshake
    simp: take_events_def reset_relays_fired_def join_channel_def unverify_peer_def forget_peer_def Let_def drop_peer_session_state_def
      start_dm_session_def push_event_def set_petname_def panic_wipe_def)

lemma node_command_valid: "node_command E n n' \<Longrightarrow> node_valid m n \<Longrightarrow> node_valid m n'"
  using node_valid_within [OF _ node_command_within, of m n E n'] node_step_ok [OF node_command_step, of E n n']
  by (simp add: node_valid_def)

inductive world_reach ::
  "('hs, 'ts) envs \<Rightarrow> (nat \<Rightarrow> f64) \<Rightarrow> tunables \<Rightarrow> nat \<Rightarrow> ('hs, 'ts) world \<Rightarrow> bool"
  for E :: "('hs, 'ts) envs" and draw :: "nat \<Rightarrow> f64" and cfg :: tunables and N :: nat where
  New: "world_reach E draw cfg N (world_new E N cfg)"
| Link: "world_reach E draw cfg N w \<Longrightarrow> a < N \<Longrightarrow> b < N \<Longrightarrow> length (w_edges w) < 2 ^ 64 \<Longrightarrow>
    world_reach E draw cfg N (snd (link_nodes w a b lat ls m))"
| Connect: "world_reach E draw cfg N w \<Longrightarrow> a < N \<Longrightarrow> b < N \<Longrightarrow> length (w_edges w) < 2 ^ 64 \<Longrightarrow>
    connect_nodes E draw w a b lat ls m = Ret w' \<Longrightarrow> world_reach E draw cfg N w'"
| Bootstrap: "world_reach E draw cfg N w \<Longrightarrow> bootstrap E draw w = Ret w' \<Longrightarrow> world_reach E draw cfg N w'"
| SetEdge: "world_reach E draw cfg N w \<Longrightarrow> set_edge_up E w l up = Ret w' \<Longrightarrow> world_reach E draw cfg N w'"
| Command: "world_reach E draw cfg N w \<Longrightarrow> i < N \<Longrightarrow> node_command (E i) (sn_node (w_nodes w ! i)) n' \<Longrightarrow>
    node_mut w i (\<lambda>_. n') = Ret w' \<Longrightarrow> world_reach E draw cfg N w'"
| Reset: "world_reach E draw cfg N w \<Longrightarrow> world_reach E draw cfg N (reset_tx w)"
| SetStep: "world_reach E draw cfg N w \<Longrightarrow> world_reach E draw cfg N (set_step_ms w s)"
| Run: "world_reach E draw cfg N w \<Longrightarrow> unat (w_now w) + unat d + unat (step_ms w) < 2 ^ 64 \<Longrightarrow>
    run_for E draw w d = Some (Ret w') \<Longrightarrow> world_reach E draw cfg N w'"

definition reach_ok :: "nat \<Rightarrow> ('hs, 'ts) world \<Rightarrow> bool" where
  "reach_ok N w \<longleftrightarrow> (\<exists>m t st. world_ok N m t st w \<and> m \<le> 2 ^ 64 \<and> 0 < st)"

lemma reach_okI: "world_ok N m t st w \<Longrightarrow> m \<le> 2 ^ 64 \<Longrightarrow> 0 < st \<Longrightarrow> reach_ok N w"
  by (auto simp: reach_ok_def)

lemma link_nodes_ok:
  assumes "world_ok N m t st w" "a < N" "b < N"
  shows "world_ok N (Suc m) t st (snd (link_nodes w a b lat ls k))"
proof -
  have "node_valid (Suc m) n" if "node_valid m n" for n :: "('a, 'b, memory_store) node"
    using that by (auto simp: node_valid_def)
  with assms show ?thesis by (auto simp: world_ok_def link_nodes_def less_Suc_eq)
qed

lemma connect_nodes_ok:
  assumes "world_ok N m t st w" "a < N" "b < N" "m < 2 ^ 64"
  shows "\<exists>w'. connect_nodes E draw w a b lat ls k = Ret w' \<and> world_ok N (Suc m) t st w'"
proof -
  let ?w = "snd (link_nodes w a b lat ls k)" and ?l = "of_nat m :: link_id"
  have m: "length (w_edges w) = m" using assms(1) by (simp add: world_ok_def)
  have "unat ?l < Suc m" using assms(4) by (simp add: unat_of_nat)
  then have "\<exists>w1. both_ends E ?w a b (LinkUp ?l k None) = Ret w1 \<and> world_ok N (Suc m) t st w1"
    by (intro both_ends_ok [OF link_nodes_ok [OF assms(1-3)] assms(2,3)]) simp
  then obtain w1 where w1: "both_ends E ?w a b (LinkUp ?l k None) = Ret w1" "world_ok N (Suc m) t st w1" by blast
  with collect_and_route_ok [OF w1(2), of draw] m show ?thesis by (simp add: connect_nodes_def link_nodes_def)
qed

lemma bootstrap_ok:
  fixes w :: "('hs, 'ts) world" and E :: "('hs, 'ts) envs"
  assumes "world_ok N m t st w" "m \<le> 2 ^ 64"
  shows "\<exists>w'. bootstrap E draw w = Ret w' \<and> world_ok N m t st w'"
proof -
  let ?f = "\<lambda>w (l, e). both_ends E w (e_a e) (e_b e) (LinkUp (of_nat l) (e_mtu e) None)"
  have "\<exists>w'. fold_ret ?f w (List.enumerate 0 (w_edges w)) = Ret w' \<and> world_ok N m t st w'"
  proof (rule fold_ret_inv [where P = "world_ok N m t st", OF _ assms(1)])
    fix v :: "('hs, 'ts) world" and x assume v: "world_ok N m t st v" and x: "x \<in> set (List.enumerate 0 (w_edges w))"
    obtain l e where le: "x = (l, e)" by fastforce
    then have "l < m" "e \<in> set (w_edges w)" using x assms(1) by (auto simp: in_set_enumerate_eq world_ok_def)
    then have "unat (of_nat l :: link_id) < m" "e_a e < N" "e_b e < N" using assms by (auto simp: unat_of_nat world_ok_def)
    with both_ends_ok [OF v, of "e_a e" "e_b e" "LinkUp (of_nat l) (e_mtu e) None" E] le
    show "\<exists>s'. ?f v x = Ret s' \<and> world_ok N m t st s'" by simp
  qed
  then obtain w1 where "fold_ret ?f w (List.enumerate 0 (w_edges w)) = Ret w1" "world_ok N m t st w1" by blast
  with collect_and_route_ok [of N m t st w1 draw] show ?thesis by (simp add: bootstrap_def)
qed

lemma world_new_ok: "world_ok N 0 0 10 (world_new E N cfg)"
  by (auto simp: world_ok_def world_new_def sim_node_new_def Let_def node_valid_def node_new_ok) (simp_all add: node_new_def)

lemma node_mut_ok:
  assumes "world_ok N m t st w" "i < N" "node_valid m n'"
  shows "\<exists>w'. node_mut w i (\<lambda>_. n') = Ret w' \<and> world_ok N m t st w'"
  unfolding node_mut_def by (rule update_node_ok [OF assms(1,2)]) (simp add: assms(3))

lemma world_reach_ok: "world_reach E draw cfg N w \<Longrightarrow> reach_ok N w"
proof (induction rule: world_reach.induct)
  case New
  show ?case by (rule reach_okI [OF world_new_ok]) simp_all
next
  case (Link w a b lat ls m)
  then obtain k t st where w: "world_ok N k t st w" "k \<le> 2 ^ 64" "0 < st" by (auto simp: reach_ok_def)
  then have "k < 2 ^ 64" using Link.hyps(4) by (simp add: world_ok_def)
  with w(3) show ?case by (intro reach_okI [OF link_nodes_ok [OF w(1) Link.hyps(2,3)]]) simp_all
next
  case (Connect w a b lat ls m w')
  then obtain k t st where w: "world_ok N k t st w" "k \<le> 2 ^ 64" "0 < st" by (auto simp: reach_ok_def)
  then have k: "k < 2 ^ 64" using Connect.hyps(4) by (simp add: world_ok_def)
  from connect_nodes_ok [OF w(1) Connect.hyps(2,3) k, of E draw lat ls m] Connect.hyps(5) have "world_ok N (Suc k) t st w'" by auto
  then show ?case by (rule reach_okI) (use k w(3) in simp_all)
next
  case (Bootstrap w w')
  then obtain k t st where w: "world_ok N k t st w" "k \<le> 2 ^ 64" "0 < st" by (auto simp: reach_ok_def)
  from bootstrap_ok [OF w(1,2), of E draw] Bootstrap.hyps(2) w(2,3) show ?case by (auto intro: reach_okI)
next
  case (SetEdge w l up w')
  then obtain k t st where w: "world_ok N k t st w" "k \<le> 2 ^ 64" "0 < st" by (auto simp: reach_ok_def)
  from set_edge_up_ok [OF w(1), of E l up] SetEdge.hyps(2) w(2,3) show ?case by (auto intro: reach_okI)
next
  case (Command w i n' w')
  then obtain k t st where w: "world_ok N k t st w" "k \<le> 2 ^ 64" "0 < st" by (auto simp: reach_ok_def)
  have "node_valid k (sn_node (w_nodes w ! i))" using w(1) Command.hyps(2) by (auto simp: world_ok_def)
  from node_mut_ok [OF w(1) Command.hyps(2) node_command_valid [OF Command.hyps(3) this]] Command.hyps(4) w(2,3)
  show ?case by (auto intro: reach_okI)
next
  case (Reset w)
  then obtain k t st where w: "world_ok N k t st w" "k \<le> 2 ^ 64" "0 < st" by (auto simp: reach_ok_def)
  have "node_valid k (reset_relays_fired n)" if "node_valid k n" for n :: "('a, 'b, memory_store) node"
    using node_command_valid [OF node_command.intros(2) that] .
  then have "world_ok N k t st (reset_tx w)" using w(1) by (auto simp: world_ok_def reset_tx_def)
  then show ?case by (rule reach_okI) (use w in simp_all)
next
  case (SetStep w s)
  then obtain k t st where w: "world_ok N k t st w" "k \<le> 2 ^ 64" by (auto simp: reach_ok_def)
  then have "world_ok N k t (max s 1) (set_step_ms w s)" by (simp add: world_ok_def set_step_ms_def)
  moreover have "(0 :: u64) < max s 1" by (simp add: less_max_iff_disj)
  ultimately show ?case using w(2) by (auto intro: reach_okI)
next
  case (Run w d w')
  then obtain k t st where w: "world_ok N k t st w" "k \<le> 2 ^ 64" "0 < st" by (auto simp: reach_ok_def)
  then have "unat (w_now w + d) + unat st < 2 ^ 64"
    using Run.hyps(2) by (simp add: world_ok_def unat_word_ariths)
  from run_until_returns [OF w(1,3) this, of E draw] Run.hyps(3) w(2,3) show ?case
    by (auto simp: run_for_def intro: reach_okI)
qed

text \<open>C17: the simulator on top of the verified core.  In every world that a scenario builds from nodes and
  links between existing nodes, with any commands, link changes, losses and delays, every operation
  returns: no index is out of range, because a node only ever calls on links that are edges of the world,
  and a run of any duration that does not overflow the clock ends, at or after its target time.\<close>

theorem world_runs_to_completion:
  assumes "world_reach E draw cfg N w"
  shows "(\<exists>w'. bootstrap E draw w = Ret w') \<and> (\<exists>w'. set_edge_up E w l up = Ret w')
    \<and> (a < N \<and> b < N \<and> length (w_edges w) < 2 ^ 64 \<longrightarrow> (\<exists>w'. connect_nodes E draw w a b lat ls k = Ret w'))
    \<and> (unat (w_now w) + unat d + unat (step_ms w) < 2 ^ 64 \<longrightarrow>
         (\<exists>w'. run_for E draw w d = Some (Ret w') \<and> w_now w + d \<le> w_now w'))"
proof -
  obtain m t st where w: "world_ok N m t st w" "m \<le> 2 ^ 64" "0 < st" using world_reach_ok [OF assms] by (auto simp: reach_ok_def)
  have "\<exists>w'. run_for E draw w d = Some (Ret w') \<and> w_now w + d \<le> w_now w'"
    if "unat (w_now w) + unat d + unat (step_ms w) < 2 ^ 64"
  proof -
    have "unat (w_now w + d) + unat st < 2 ^ 64" using that w(1) by (simp add: world_ok_def unat_word_ariths)
    from run_until_returns [OF w(1,3) this, of E draw] show ?thesis by (auto simp: run_for_def world_ok_def)
  qed
  moreover have "\<exists>w'. connect_nodes E draw w a b lat ls k = Ret w'" if "a < N" "b < N" "length (w_edges w) < 2 ^ 64"
    using connect_nodes_ok [OF w(1) that(1,2), of E draw lat ls k] that(3) w(1) by (auto simp: world_ok_def)
  ultimately show ?thesis using bootstrap_ok [OF w(1,2), of E draw] set_edge_up_ok [OF w(1), of E l up] by blast
qed

theorem world_runs_to_completion_witness:
  "\<exists>w1 w2 w3. connect_nodes (\<lambda>_. sample_env) (\<lambda>_. 0) (world_new (\<lambda>_. sample_env) 2 default_tunables) 0 1 15 0 182 = Ret w1
     \<and> bootstrap (\<lambda>_. sample_env) (\<lambda>_. 0) (world_new (\<lambda>_. sample_env) 2 default_tunables) = Ret w2
     \<and> run_for (\<lambda>_. sample_env) (\<lambda>_. 0) (world_new (\<lambda>_. sample_env) 2 default_tunables) 1000 = Some (Ret w3) \<and> 1000 \<le> w_now w3"
proof -
  let ?w = "world_new (\<lambda>_. sample_env) 2 default_tunables"
  have r: "world_reach (\<lambda>_. sample_env) (\<lambda>_. 0) default_tunables 2 ?w" by (rule world_reach.New)
  have "w_now ?w = 0" "step_ms ?w = 10" "w_edges ?w = []" by (simp_all add: world_new_def)
  with world_runs_to_completion [OF r, of 0 True 0 1 15 0 182 1000] show ?thesis by auto
qed

end
