(* ===== verification/Scenarios.thy ===== *)
theory Scenarios
  imports Simulator
begin

text \<open>
  The scenarios of the simulator, \<open>crates/sim/src/scenarios.rs\<close>, and its command line, \<open>crates/sim/src/main.rs\<close>.
  A scenario is a sequence of operations on a world; a panic of any of them ends it, and so does a run that
  does not end.  What a seed determines (the random numbers of the nodes, of the world and of the
  graph) is a parameter.
\<close>

section \<open>What the scenarios are made of\<close>

definition SIM_MTU :: nat where "SIM_MTU = 182"
definition LINK_LATENCY_MS :: u64 where "LINK_LATENCY_MS = 15"
definition CROWD_DEGREE :: f64 where "CROWD_DEGREE = 12"

definition crowd_cfg :: tunables where
  "crowd_cfg = default_tunables
     \<lparr>ttl_announce := 24, ttl_announce_dense := 24, ttl_channel := 24, ttl_channel_dense := 24, ttl_dm := 24, ttl_dm_dense := 24,
      relay_prob_sparse := 1, relay_prob_mid := 1, relay_prob_dense := f64_round (85 / 100)\<rparr>"

definition link_all :: "('hs, 'ts) world \<Rightarrow> (nat \<times> nat) list \<Rightarrow> ('hs, 'ts) world" where
  "link_all w es = foldl (\<lambda>w (a, b). snd (link_nodes w a b LINK_LATENCY_MS 0 SIM_MTU)) w es"

text \<open>\<open>world.node_mut(i).send_channel_message(..)\<close> and \<open>world.node_mut(i).send_dm(..)\<close>\<close>

definition say ::
  "('hs, 'ts) envs \<Rightarrow> ('hs, 'ts) world \<Rightarrow> nat \<Rightarrow> rstring \<Rightarrow> rstring \<Rightarrow> (bytes \<times> ('hs, 'ts) world) outcome" where
  "say E w i channel body =
     and_then (index (w_nodes w) i) (\<lambda>s.
       let (d, n) = send_channel_message (E i) (sn_node s) channel body
       in and_then (node_mut w i (\<lambda>_. n)) (\<lambda>w. Ret (d, w)))"

definition say_dm :: "('hs, 'ts) envs \<Rightarrow> ('hs, 'ts) world \<Rightarrow> nat \<Rightarrow> bytes \<Rightarrow> rstring \<Rightarrow> ('hs, 'ts) world outcome" where
  "say_dm E w i fp body = node_mut w i (\<lambda>n. send_dm (E i) n fp body)"

definition holds_message :: "('hs, 'ts) envs \<Rightarrow> ('hs, 'ts) world \<Rightarrow> nat \<Rightarrow> bytes \<Rightarrow> bool outcome" where
  "holds_message E w i d =
     and_then (index (w_nodes w) i) (\<lambda>s. Ret (has_message (store (E i)) (n_store (sn_node s)) d))"

definition world_events :: "('hs, 'ts) world \<Rightarrow> nat \<Rightarrow> mesh_event list outcome" where
  "world_events w i = and_then (index (w_nodes w) i) (\<lambda>s. Ret (sn_events s))"

fun dm_text :: "mesh_event \<Rightarrow> rstring option" where
  "dm_text (DmReceived _ _ body _) = Some body"
| "dm_text _ = None"

fun message_key :: "mesh_event \<Rightarrow> (eph_id \<times> u64) option" where
  "message_key (MessageReceived _ sender _ ts _) = Some (sender, ts)"
| "message_key _ = None"

text \<open>\<open>Iterator::all\<close> over a fallible test, and the loop that counts the keys a hash set has already seen.\<close>

fun all_ret :: "('a \<Rightarrow> bool outcome) \<Rightarrow> 'a list \<Rightarrow> bool outcome" where
  "all_ret f [] = Ret True"
| "all_ret f (x # xs) = and_then (f x) (\<lambda>b. if b then all_ret f xs else Ret False)"

fun count_repeats :: "'a list \<Rightarrow> 'a list \<Rightarrow> nat" where
  "count_repeats known [] = 0"
| "count_repeats known (x # xs) = (if x \<in> set known then Suc (count_repeats known xs) else count_repeats (x # known) xs)"

fun fold_loop :: "('s \<Rightarrow> 'a \<Rightarrow> 's loop) \<Rightarrow> 's \<Rightarrow> 'a list \<Rightarrow> 's loop" where
  "fold_loop f s [] = Some (Ret s)"
| "fold_loop f s (x # xs) = bind_loop (f s x) (\<lambda>s. fold_loop f s xs)"

abbreviation general :: rstring where "general \<equiv> str_bytes ''#general''"

section \<open>The scenarios\<close>

record broadcast_result =
  br_nodes :: nat
  br_delivery_ratio :: f64
  br_tx_frames :: u64
  br_relays_fired :: u64
  br_relays_per_node :: f64

definition broadcast_scenario ::
  "('hs, 'ts) envs \<Rightarrow> (nat \<Rightarrow> f64) \<Rightarrow> (nat \<Rightarrow> f64) \<Rightarrow> nat \<Rightarrow> broadcast_result loop" where
  "broadcast_scenario E draw gdraw nodes =
     bind_loop (geometric gdraw nodes CROWD_DEGREE) (\<lambda>g.
     bind_loop (Some (bootstrap E draw (link_all (world_new E nodes crowd_cfg) (g_edges g)))) (\<lambda>w.
     bind_loop (run_for E draw w 2000) (\<lambda>w.
     bind_loop (Some (say E (reset_tx w) 0 general (str_bytes ''hello mesh''))) (\<lambda>(digest, w).
     bind_loop (run_for E draw w 6000) (\<lambda>w.
       let fired = total_relays_fired w
       in Some (Ret \<lparr>br_nodes = nodes, br_delivery_ratio = delivery_ratio E w digest, br_tx_frames = tx_frames w,
            br_relays_fired = fired,
            br_relays_per_node = f64_round (f64_round (of_nat (unat fired)) / f64_round (of_nat nodes))\<rparr>))))))"

definition two_nodes_hello :: "('hs, 'ts) envs \<Rightarrow> (nat \<Rightarrow> f64) \<Rightarrow> bool loop" where
  "two_nodes_hello E draw =
     bind_loop (Some (bootstrap E draw (link_all (world_new E 2 crowd_cfg) [(0, 1)]))) (\<lambda>w.
     bind_loop (run_for E draw w 1000) (\<lambda>w.
     bind_loop (Some (say E w 0 general (str_bytes ''hi B''))) (\<lambda>(digest, w).
     bind_loop (run_for E draw w 1000) (\<lambda>w.
       Some (Ret (count_with_message E w digest = 2))))))"

record relay_result =
  reached_far_end :: bool
  rr_hops :: nat

text \<open>\<open>hops + 1\<close> is a sum of the width of \<open>usize\<close>; \<open>n - 1\<close> is only reached with a node to ask.\<close>

definition line_relay :: "('hs, 'ts) envs \<Rightarrow> (nat \<Rightarrow> f64) \<Rightarrow> nat \<Rightarrow> relay_result loop" where
  "line_relay E draw hops =
     (let n = (hops + 1) mod 2 ^ 64
      in bind_loop (Some (bootstrap E draw (link_all (world_new E n crowd_cfg) (g_edges (line n))))) (\<lambda>w.
         bind_loop (run_for E draw w 1000) (\<lambda>w.
         bind_loop (Some (say E w 0 general (str_bytes ''relay me''))) (\<lambda>(digest, w).
         bind_loop (run_for E draw w 3000) (\<lambda>w.
         bind_loop (Some (holds_message E w (n - 1) digest)) (\<lambda>b.
           Some (Ret \<lparr>reached_far_end = b, rr_hops = hops\<rparr>)))))))"

record partition_result =
  converged :: bool
  duplicate_ui_events :: nat

definition duplicates_at :: "('hs, 'ts) world \<Rightarrow> nat \<Rightarrow> nat \<Rightarrow> nat outcome" where
  "duplicates_at w k i = and_then (world_events w i) (\<lambda>evs. Ret (k + count_repeats [] (List.map_filter message_key evs)))"

definition partition_heal :: "('hs, 'ts) envs \<Rightarrow> (nat \<Rightarrow> f64) \<Rightarrow> partition_result loop" where
  "partition_heal E draw =
     (let w = link_all (link_all (world_new E 6 crowd_cfg) [(0, 1), (1, 2), (0, 2)]) [(3, 4), (4, 5), (3, 5)];
          (door, w) = link_nodes w 2 3 LINK_LATENCY_MS 0 SIM_MTU
      in bind_loop (Some (bootstrap E draw w)) (\<lambda>w.
         bind_loop (run_for E draw w 1000) (\<lambda>w.
         bind_loop (Some (set_edge_up E w door False)) (\<lambda>w.
         bind_loop (Some (say E w 0 general (str_bytes ''from room A''))) (\<lambda>(d_a, w).
         bind_loop (Some (say E w 5 general (str_bytes ''from room B''))) (\<lambda>(d_b, w).
         bind_loop (run_for E draw w 2000) (\<lambda>w.
         bind_loop (Some (set_edge_up E w door True)) (\<lambda>w.
         bind_loop (run_for E draw w 4000) (\<lambda>w.
         bind_loop (Some (all_ret (\<lambda>i. and_then (holds_message E w i d_a) (\<lambda>b.
             if b then holds_message E w i d_b else Ret False)) [0..<6])) (\<lambda>c.
         bind_loop (Some (fold_ret (duplicates_at w) 0 [0..<6])) (\<lambda>k.
           Some (Ret \<lparr>converged = c, duplicate_ui_events = k\<rparr>))))))))))))"

record storm_result =
  st_delivered :: bool
  relay_tx :: u64

definition duplicate_storm :: "('hs, 'ts) envs \<Rightarrow> (nat \<Rightarrow> f64) \<Rightarrow> storm_result loop" where
  "duplicate_storm E draw =
     bind_loop (Some (bootstrap E draw (link_all (world_new E 8 crowd_cfg) (map (Pair 0) [1..<8])))) (\<lambda>w.
     bind_loop (run_for E draw w 1000) (\<lambda>w.
     bind_loop (Some (say E (reset_tx w) 1 general (str_bytes ''storm''))) (\<lambda>(digest, w).
     bind_loop (run_for E draw w 3000) (\<lambda>w.
       Some (Ret \<lparr>st_delivered = (count_with_message E w digest = 8), relay_tx = tx_frames w\<rparr>)))))"

record dm_result =
  dr_delivered :: bool
  text_ok :: bool
  eavesdropper_blind :: bool

definition dms_received :: "('hs, 'ts) world \<Rightarrow> nat \<Rightarrow> rstring list outcome" where
  "dms_received w i = and_then (world_events w i) (\<lambda>evs. Ret (List.map_filter dm_text evs))"

definition direct_message_scenario :: "('hs, 'ts) envs \<Rightarrow> (nat \<Rightarrow> f64) \<Rightarrow> dm_result loop" where
  "direct_message_scenario E draw =
     (let body = str_bytes ''meet at the safehouse''
      in bind_loop (Some (bootstrap E draw (link_all (world_new E 3 crowd_cfg) [(0, 1), (1, 2)]))) (\<lambda>w.
         bind_loop (run_for E draw w 2500) (\<lambda>w.
         bind_loop (Some (world_fingerprint E w 2)) (\<lambda>b_fp.
         bind_loop (Some (say_dm E w 0 b_fp body)) (\<lambda>w.
         bind_loop (run_for E draw w 5000) (\<lambda>w.
         bind_loop (Some (dms_received w 2)) (\<lambda>b_msgs.
         bind_loop (Some (dms_received w 1)) (\<lambda>e_msgs.
           Some (Ret \<lparr>dr_delivered = (b_msgs \<noteq> []), text_ok = (body \<in> set b_msgs), eavesdropper_blind = (e_msgs = [])\<rparr>)))))))))"

definition dm_over_redundant_links :: "('hs, 'ts) envs \<Rightarrow> (nat \<Rightarrow> f64) \<Rightarrow> bool loop" where
  "dm_over_redundant_links E draw =
     (let body = str_bytes ''north gate clear''
      in bind_loop (Some (bootstrap E draw (link_all (world_new E 2 crowd_cfg) (replicate 5 (0, 1))))) (\<lambda>w.
         bind_loop (run_for E draw w 3000) (\<lambda>w.
         bind_loop (Some (world_fingerprint E w 1)) (\<lambda>b_fp.
         bind_loop (Some (say_dm E w 0 b_fp body)) (\<lambda>w.
         bind_loop (run_for E draw w 5000) (\<lambda>w.
         bind_loop (Some (dms_received w 1)) (\<lambda>ms. Some (Ret (body \<in> set ms)))))))))"

record dedup_result =
  links_after :: nat
  dd_delivered :: bool

definition link_dedup :: "('hs, 'ts) envs \<Rightarrow> (nat \<Rightarrow> f64) \<Rightarrow> dedup_result loop" where
  "link_dedup E draw =
     bind_loop (Some (bootstrap E draw (link_all (world_new E 2 crowd_cfg) (replicate 5 (0, 1))))) (\<lambda>w.
     bind_loop (run_for E draw w 3000) (\<lambda>w.
     bind_loop (Some (world_link_count w 0)) (\<lambda>k.
     bind_loop (Some (say E w 0 general (str_bytes ''still works''))) (\<lambda>(digest, w).
     bind_loop (run_for E draw w 1500) (\<lambda>w.
       Some (Ret \<lparr>links_after = k, dd_delivered = (count_with_message E w digest = 2)\<rparr>))))))"

record saf_result =
  not_before :: bool
  delivered_after :: bool

definition store_and_forward :: "('hs, 'ts) envs \<Rightarrow> (nat \<Rightarrow> f64) \<Rightarrow> saf_result loop" where
  "store_and_forward E draw =
     (let w = world_new E 2 crowd_cfg; body = str_bytes ''held for you''
      in bind_loop (Some (world_fingerprint E w 1)) (\<lambda>b_fp.
         bind_loop (Some (say_dm E w 0 b_fp body)) (\<lambda>w.
         bind_loop (run_for E draw w 1000) (\<lambda>w.
         bind_loop (Some (dms_received w 1)) (\<lambda>ms.
         bind_loop (Some (connect_nodes E draw w 0 1 LINK_LATENCY_MS 0 SIM_MTU)) (\<lambda>w.
         bind_loop (run_for E draw w 5000) (\<lambda>w.
         bind_loop (Some (dms_received w 1)) (\<lambda>ms'.
           Some (Ret \<lparr>not_before = (ms = []), delivered_after = (body \<in> set ms')\<rparr>)))))))))"

record flood_result =
  honest_delivered :: bool
  attacker_greylisted_effect :: bool

definition flood_once :: "('hs, 'ts) envs \<Rightarrow> (nat \<Rightarrow> f64) \<Rightarrow> ('hs, 'ts) world \<Rightarrow> nat \<Rightarrow> ('hs, 'ts) world loop" where
  "flood_once E draw w k =
     bind_loop (Some (say E w 3 (str_bytes ''#spam'') (str_bytes (''flood '' @ decimal k)))) (\<lambda>(_, w). run_for E draw w 20)"

definition malicious_flooder :: "('hs, 'ts) envs \<Rightarrow> (nat \<Rightarrow> f64) \<Rightarrow> flood_result loop" where
  "malicious_flooder E draw =
     bind_loop (Some (bootstrap E draw (link_all (world_new E 4 crowd_cfg) [(0, 1), (1, 2), (1, 3)]))) (\<lambda>w.
     bind_loop (run_for E draw w 1000) (\<lambda>w.
     bind_loop (fold_loop (flood_once E draw) w [0..<100]) (\<lambda>w.
     bind_loop (Some (say E w 0 general (str_bytes ''help''))) (\<lambda>(honest, w).
     bind_loop (run_for E draw w 3000) (\<lambda>w.
     bind_loop (Some (holds_message E w 2 honest)) (\<lambda>b.
     bind_loop (Some (and_then (index (w_nodes w) 2) (\<lambda>s.
         Ret (length (channel_history (store (E 2)) (n_store (sn_node s)) (str_bytes ''#spam'') 1000))))) (\<lambda>spam.
       Some (Ret \<lparr>honest_delivered = b, attacker_greylisted_effect = (spam < 50)\<rparr>))))))))"


section \<open>The command line\<close>

text \<open>\<open>str::parse\<close> for unsigned integers of 64 bits.\<close>

definition parse_uint :: "rstring \<Rightarrow> nat option" where
  "parse_uint s =
     (let ds = (case s of b # r \<Rightarrow> if b = 43 \<and> r \<noteq> [] then r else s | [] \<Rightarrow> []);
          v = foldl (\<lambda>v d. v * 10 + (unat d - 48)) 0 ds
      in if ds = [] \<or> \<not> list_all (\<lambda>d. 48 \<le> d \<and> d \<le> 57) ds \<or> 2 ^ 64 \<le> v then None else Some v)"

record sim_args =
  a_nodes :: nat
  a_scenario :: rstring
  a_seed :: u64

datatype sim_exit =
    Help
  | UnknownArgument rstring
  | UnknownScenario rstring
  | BroadcastRun nat broadcast_result
  | TwoRun bool
  | RelayRun relay_result
  | PartitionRun partition_result
  | StormRun storm_result
  | FlooderRun flood_result

fun parse_args :: "sim_args \<Rightarrow> rstring list \<Rightarrow> sim_exit + sim_args" where
  "parse_args a [] = Inr a"
| "parse_args a [x] =
     (if x = str_bytes ''--nodes'' \<or> x = str_bytes ''--scenario'' \<or> x = str_bytes ''--seed'' then Inr a
      else if x = str_bytes ''-h'' \<or> x = str_bytes ''--help'' then Inl Help
      else Inl (UnknownArgument x))"
| "parse_args a (x # y # r) =
     (if x = str_bytes ''--nodes'' then parse_args (a\<lparr>a_nodes := (case parse_uint y of Some n \<Rightarrow> n | None \<Rightarrow> a_nodes a)\<rparr>) r
      else if x = str_bytes ''--scenario'' then parse_args (a\<lparr>a_scenario := y\<rparr>) r
      else if x = str_bytes ''--seed'' then parse_args (a\<lparr>a_seed := (case parse_uint y of Some n \<Rightarrow> of_nat n | None \<Rightarrow> a_seed a)\<rparr>) r
      else if x = str_bytes ''-h'' \<or> x = str_bytes ''--help'' then Inl Help
      else Inl (UnknownArgument x))"

text \<open>A seed gives the parameters of the nodes, the numbers of the world and those of the geometric graph.\<close>

record ('hs, 'ts) sim_seed =
  seed_envs :: "('hs, 'ts) envs"
  seed_world :: "nat \<Rightarrow> f64"
  seed_graph :: "nat \<Rightarrow> f64"

definition sim_main :: "(u64 \<Rightarrow> ('hs, 'ts) sim_seed) \<Rightarrow> rstring list \<Rightarrow> sim_exit loop" where
  "sim_main seeds args =
     (case parse_args \<lparr>a_nodes = 200, a_scenario = str_bytes ''broadcast'', a_seed = 7\<rparr> (drop 1 args) of
        Inl e \<Rightarrow> Some (Ret e)
      | Inr a \<Rightarrow>
          let S = seeds (a_seed a); E = seed_envs S; draw = seed_world S in
          if a_scenario a = str_bytes ''broadcast''
          then bind_loop (broadcast_scenario E draw (seed_graph S) (a_nodes a)) (\<lambda>r. Some (Ret (BroadcastRun (a_nodes a) r)))
          else if a_scenario a = str_bytes ''two'' then bind_loop (two_nodes_hello E draw) (\<lambda>r. Some (Ret (TwoRun r)))
          else if a_scenario a = str_bytes ''relay'' then bind_loop (line_relay E draw 6) (\<lambda>r. Some (Ret (RelayRun r)))
          else if a_scenario a = str_bytes ''partition'' then bind_loop (partition_heal E draw) (\<lambda>r. Some (Ret (PartitionRun r)))
          else if a_scenario a = str_bytes ''storm'' then bind_loop (duplicate_storm E draw) (\<lambda>r. Some (Ret (StormRun r)))
          else if a_scenario a = str_bytes ''flooder'' then bind_loop (malicious_flooder E draw) (\<lambda>r. Some (Ret (FlooderRun r)))
          else Some (Ret (UnknownScenario (a_scenario a))))"

section \<open>Every scenario returns\<close>

text \<open>A computation ends with a value that satisfies \<open>P\<close>.\<close>

definition ends :: "('a \<Rightarrow> bool) \<Rightarrow> 'a loop \<Rightarrow> bool" where
  "ends P x \<longleftrightarrow> (\<exists>a. x = Some (Ret a) \<and> P a)"

lemma ends_ret [simp, intro]: "ends P (Some (Ret a)) \<longleftrightarrow> P a"
  by (simp add: ends_def)

lemma ends_outcome: "ends P (Some x) \<longleftrightarrow> (\<exists>a. x = Ret a \<and> P a)"
  by (simp add: ends_def)

lemma ends_bind: "ends P x \<Longrightarrow> (\<And>a. P a \<Longrightarrow> ends Q (f a)) \<Longrightarrow> ends Q (bind_loop x f)"
  by (auto simp: ends_def)

lemma ends_bind_pair: "ends (\<lambda>(_, b). P b) x \<Longrightarrow> (\<And>a b. P b \<Longrightarrow> ends Q (f a b)) \<Longrightarrow> ends Q (bind_loop x (\<lambda>(a, b). f a b))"
  by (auto simp: ends_def)

lemma ends_if: "ends P x \<Longrightarrow> ends P y \<Longrightarrow> ends P (if c then x else y)"
  by simp

lemma ends_fold:
  assumes "\<And>k s x. P k s \<Longrightarrow> k \<le> k0 + c * length xs \<Longrightarrow> ends (P (k + c)) (f s x)" "P k0 s"
  shows "ends (P (k0 + c * length xs)) (fold_loop f s xs)"
  using assms
proof (induction xs arbitrary: k0 s)
  case (Cons x xs)
  have "ends (P (k0 + c)) (f s x)" by (rule Cons.prems(1) [OF Cons.prems(2)]) simp
  moreover have "ends (P (k0 + c + c * length xs)) (fold_loop f s' xs)" if "P (k0 + c) s'" for s'
    by (rule Cons.IH [OF _ that]) (rule Cons.prems(1), simp_all add: algebra_simps)
  ultimately show ?case by (auto intro: ends_bind simp: algebra_simps)
qed simp

text \<open>A world with steps of ten milliseconds, its clock at most \<open>b\<close>.\<close>

definition sim_ok :: "nat \<Rightarrow> nat \<Rightarrow> nat \<Rightarrow> ('hs, 'ts) world \<Rightarrow> bool" where
  "sim_ok N m b w \<longleftrightarrow> (\<exists>t. world_ok N m t 10 w \<and> unat t \<le> b)"

lemma sim_new: "sim_ok N 0 0 (world_new E N cfg)"
  using world_new_ok [of N E cfg] by (auto simp: sim_ok_def)

lemma sim_link_all:
  assumes "sim_ok N m b w" "\<forall>(x, y) \<in> set es. x < N \<and> y < N"
  shows "sim_ok N (m + length es) b (link_all w es)"
  using assms
proof (induction es arbitrary: m w)
  case (Cons e es)
  obtain x y where e: "e = (x, y)" by fastforce
  let ?w = "snd (link_nodes w x y LINK_LATENCY_MS 0 SIM_MTU)"
  have "sim_ok N (Suc m) b ?w"
    using Cons.prems e link_nodes_ok [of N m _ 10 w x y LINK_LATENCY_MS 0 SIM_MTU] by (auto simp: sim_ok_def)
  from Cons.IH [OF this] Cons.prems(2) show ?case by (simp add: link_all_def e)
qed (simp add: link_all_def)

lemma sim_bootstrap: "sim_ok N m b w \<Longrightarrow> m \<le> 2 ^ 64 \<Longrightarrow> ends (sim_ok N m b) (Some (bootstrap E draw w))"
  using bootstrap_ok [of N m _ 10 w E draw] by (fastforce simp: ends_outcome sim_ok_def)

lemma sim_run:
  assumes "sim_ok N m b w" "b + unat d + 20 < 2 ^ 64"
  shows "ends (sim_ok N m (b + unat d + 10)) (run_for E draw w d)"
proof -
  obtain t where t: "world_ok N m t 10 w" "unat t \<le> b" using assms(1) by (auto simp: sim_ok_def)
  have now: "w_now w = t" using t(1) by (simp add: world_ok_def)
  have sum: "unat (t + d) = unat t + unat d" using t(2) assms(2) by (simp add: unat_word_ariths)
  then have "unat (t + d) + unat (10 :: u64) < 2 ^ 64" using t(2) assms(2) by simp
  from run_until_returns [OF t(1) _ this, of E draw] obtain w' t' where
    "run_until E draw (t + d) w = Some (Ret w')" "world_ok N m t' 10 w'" "unat t' \<le> max (unat t) (unat (t + d) + unat (10 :: u64))"
    by auto
  then show ?thesis using t(2) sum now by (auto simp: run_for_def sim_ok_def ends_def)
qed

lemma sim_node_mut:
  assumes "sim_ok N m b w" "i < N" "\<And>n. node_command (E i) n (f n)"
  shows "ends (sim_ok N m b) (Some (node_mut w i f))"
proof -
  obtain t where t: "world_ok N m t 10 w" "unat t \<le> b" using assms(1) by (auto simp: sim_ok_def)
  have "\<exists>w'. node_mut w i f = Ret w' \<and> world_ok N m t 10 w'"
    unfolding node_mut_def by (rule update_node_ok [OF t(1) assms(2)]) (simp add: node_command_valid [OF assms(3)])
  with t(2) show ?thesis by (auto simp: ends_outcome sim_ok_def)
qed

lemma sim_say:
  assumes "sim_ok N m b w" "i < N"
  shows "ends (\<lambda>(_, w). sim_ok N m b w) (Some (say E w i c body))"
proof -
  have "ends (sim_ok N m b) (Some (node_mut w i (\<lambda>n. snd (send_channel_message (E i) n c body))))"
    by (rule sim_node_mut [OF assms]) (rule node_command.intros)
  then show ?thesis
    by (auto simp: ends_outcome say_def node_mut_def update_node_def index_def Let_def split: prod.splits if_splits)
qed

lemma sim_say_dm: "sim_ok N m b w \<Longrightarrow> i < N \<Longrightarrow> ends (sim_ok N m b) (Some (say_dm E w i fp body))"
  unfolding say_dm_def by (rule sim_node_mut) (auto intro: node_command.intros)

lemma sim_index: "sim_ok N m b w \<Longrightarrow> i < N \<Longrightarrow> index (w_nodes w) i = Ret (w_nodes w ! i)"
  by (auto simp: sim_ok_def world_ok_def index_def)

lemma sim_set_edge: "sim_ok N m b w \<Longrightarrow> ends (sim_ok N m b) (Some (set_edge_up E w l up))"
  using set_edge_up_ok [of N m _ 10 w E l up] by (fastforce simp: ends_outcome sim_ok_def)

lemma sim_connect:
  "sim_ok N m b w \<Longrightarrow> x < N \<Longrightarrow> y < N \<Longrightarrow> m < 2 ^ 64 \<Longrightarrow> ends (sim_ok N (Suc m) b) (Some (connect_nodes E draw w x y lat ls k))"
  using connect_nodes_ok [of N m _ 10 w x y E draw lat ls k] by (fastforce simp: ends_outcome sim_ok_def)

lemma sim_reset: "sim_ok N m b w \<Longrightarrow> sim_ok N m b (reset_tx w)"
  using node_command_valid [OF node_command.intros(2)] by (auto simp: sim_ok_def world_ok_def reset_tx_def)

lemma all_ret_total: "(\<And>x. x \<in> set xs \<Longrightarrow> \<exists>b. f x = Ret b) \<Longrightarrow> \<exists>b. all_ret f xs = Ret b"
  by (induction xs) force+


text \<open>The steps of a scenario, each with what follows it.\<close>

lemma sim_start:
  assumes "\<forall>(x, y) \<in> set es. x < N \<and> y < N" "length es \<le> 2 ^ 64" "\<And>w. sim_ok N (length es) 0 w \<Longrightarrow> ends Q (f w)"
  shows "ends Q (bind_loop (Some (bootstrap E draw (link_all (world_new E N cfg) es))) f)"
  by (rule ends_bind [OF sim_bootstrap [OF _ assms(2)] assms(3)]) (use sim_link_all [OF sim_new assms(1)] in simp_all)

lemma sim_run_bind:
  assumes "sim_ok N m b w" "b + unat d + 20 < 2 ^ 64" "\<And>w. sim_ok N m (b + unat d + 10) w \<Longrightarrow> ends Q (f w)"
  shows "ends Q (bind_loop (run_for E draw w d) f)"
  by (rule ends_bind [OF sim_run [OF assms(1,2)] assms(3)])

lemma sim_say_bind:
  assumes "sim_ok N m b w" "i < N" "\<And>d w. sim_ok N m b w \<Longrightarrow> ends Q (f d w)"
  shows "ends Q (bind_loop (Some (say E w i c body)) (\<lambda>(d, w). f d w))"
  by (rule ends_bind_pair [OF sim_say [OF assms(1,2)] assms(3)])

lemma sim_say_dm_bind:
  assumes "sim_ok N m b w" "i < N" "\<And>w. sim_ok N m b w \<Longrightarrow> ends Q (f w)"
  shows "ends Q (bind_loop (Some (say_dm E w i fp body)) f)"
  by (rule ends_bind [OF sim_say_dm [OF assms(1,2)] assms(3)])

lemma sim_set_edge_bind:
  assumes "sim_ok N m b w" "\<And>w. sim_ok N m b w \<Longrightarrow> ends Q (f w)"
  shows "ends Q (bind_loop (Some (set_edge_up E w l up)) f)"
  by (rule ends_bind [OF sim_set_edge [OF assms(1)] assms(2)])

lemma sim_read_bind: "\<exists>x. r = Ret x \<Longrightarrow> (\<And>x. ends Q (f x)) \<Longrightarrow> ends Q (bind_loop (Some r) f)"
  by auto

lemmas sim_steps = sim_start sim_run_bind sim_say_bind sim_say_dm_bind sim_set_edge_bind sim_reset

lemma sim_reads:
  assumes "sim_ok N m b w" "i < N"
  shows "\<exists>x. holds_message E w i d = Ret x" "\<exists>x. world_fingerprint E w i = Ret x" "\<exists>x. dms_received w i = Ret x"
    "\<exists>x. world_link_count w i = Ret x" "\<exists>x. duplicates_at w k i = Ret x"
    "\<exists>x. and_then (index (w_nodes w) i) (\<lambda>s. Ret (g s)) = Ret x"
  by (simp_all add: sim_index [OF assms] holds_message_def world_fingerprint_def dms_received_def world_events_def
      world_link_count_def duplicates_at_def)

lemma two_nodes_hello_returns: "ends (\<lambda>_. True) (two_nodes_hello E draw)"
  unfolding two_nodes_hello_def by (rule sim_steps | assumption | simp)+

lemma duplicate_storm_returns: "ends (\<lambda>_. True) (duplicate_storm E draw)"
  unfolding duplicate_storm_def by (rule sim_steps | assumption | simp)+

lemma line_relay_returns:
  assumes "hops < 2 ^ 64 - 1"
  shows "ends (\<lambda>r. rr_hops r = hops) (line_relay E draw hops)"
proof -
  have n: "(hops + 1) mod 2 ^ 64 = hops + 1" using assms by simp
  have "hops \<le> 2 ^ 64" using assms by simp
  then show ?thesis unfolding line_relay_def n Let_def
    by - (rule sim_steps sim_read_bind sim_reads | assumption | simp add: line_def)+
qed

lemma direct_message_returns: "ends (\<lambda>r. text_ok r \<longrightarrow> dr_delivered r) (direct_message_scenario E draw)"
  unfolding direct_message_scenario_def Let_def
  by (rule sim_steps sim_read_bind sim_reads | assumption | simp | force)+

lemma redundant_links_returns: "ends (\<lambda>_. True) (dm_over_redundant_links E draw)"
  unfolding dm_over_redundant_links_def Let_def
  by (rule sim_steps sim_read_bind sim_reads | assumption | simp)+

lemma link_dedup_returns: "ends (\<lambda>_. True) (link_dedup E draw)"
  unfolding link_dedup_def
  by (rule sim_steps sim_read_bind sim_reads | assumption | simp)+

lemma flood_once_ok:
  assumes "sim_ok 4 m b w" "b + 40 < 2 ^ 64"
  shows "ends (sim_ok 4 m (b + 30)) (flood_once E draw w k)"
proof -
  have eq: "b + unat (20 :: u64) + 10 = b + 30" and lt: "b + unat (20 :: u64) + 20 < 2 ^ 64" using assms(2) by simp_all
  have "ends (sim_ok 4 m (b + 30)) (run_for E draw w' 20)" if "sim_ok 4 m b w'" for w'
    using sim_run [OF that lt, of E draw] unfolding eq .
  then show ?thesis unfolding flood_once_def by (intro sim_say_bind [OF assms(1)]) simp_all
qed

lemma flood_bind:
  assumes "sim_ok 4 m b w" "b + 3100 < 2 ^ 64" "\<And>w. sim_ok 4 m (b + 3000) w \<Longrightarrow> ends Q (f w)"
  shows "ends Q (bind_loop (fold_loop (flood_once E draw) w [0..<100]) f)"
proof -
  have "ends (sim_ok 4 m (b + 30 * length [0..<100])) (fold_loop (flood_once E draw) w [0..<100])"
    by (rule ends_fold [where P = "sim_ok 4 m", OF flood_once_ok assms(1)]) (use assms(2) in simp_all)
  then show ?thesis using assms(3) by (intro ends_bind [where P = "sim_ok 4 m (b + 3000)"]) simp_all
qed

lemma malicious_flooder_returns: "ends (\<lambda>_. True) (malicious_flooder E draw)"
  unfolding malicious_flooder_def
  by (rule sim_steps flood_bind sim_read_bind sim_reads | assumption | simp)+

lemma partition_checks:
  assumes "sim_ok 6 m b w"
  shows "\<exists>c. all_ret (\<lambda>i. and_then (holds_message E w i d_a) (\<lambda>b. if b then holds_message E w i d_b else Ret False)) [0..<6] = Ret c"
    "\<exists>k. fold_ret (duplicates_at w) 0 [0..<6] = Ret k"
proof -
  show "\<exists>c. all_ret (\<lambda>i. and_then (holds_message E w i d_a) (\<lambda>b. if b then holds_message E w i d_b else Ret False)) [0..<6] = Ret c"
    by (rule all_ret_total) (auto simp: holds_message_def sim_index [OF assms])
  have "\<exists>k. fold_ret (duplicates_at w) 0 [0..<6] = Ret k \<and> True"
    by (rule fold_ret_inv [where P = "\<lambda>_. True"]) (use sim_reads(5) [OF assms] in auto)
  then show "\<exists>k. fold_ret (duplicates_at w) 0 [0..<6] = Ret k" by simp
qed

lemma partition_heal_returns: "ends (\<lambda>_. True) (partition_heal E draw)"
proof -
  let ?w = "link_all (link_all (world_new E 6 crowd_cfg) [(0, 1), (1, 2), (0, 2)]) [(3, 4), (4, 5), (3, 5)]"
  obtain door w where w: "link_nodes ?w 2 3 LINK_LATENCY_MS 0 SIM_MTU = (door, w)" by fastforce
  have rooms: "0 + length [(0, 1), (1, 2), (0, 2 :: nat) :: nat \<times> nat] + length [(3, 4), (4, 5), (3, 5 :: nat) :: nat \<times> nat] = 6" by simp
  have "sim_ok 6 6 0 ?w" unfolding rooms [symmetric] by (intro sim_link_all sim_new) simp_all
  then have "sim_ok 6 7 0 w"
    using link_nodes_ok [of 6 6 _ 10 ?w 2 3 LINK_LATENCY_MS 0 SIM_MTU] w by (auto simp: sim_ok_def)
  note start = ends_bind [OF sim_bootstrap [OF this]]
  show ?thesis unfolding partition_heal_def Let_def w prod.case
    by (rule start sim_steps sim_read_bind sim_reads partition_checks | assumption | simp)+
qed

section \<open>A message held for a peer out of reach\<close>

definition quiet :: "('hs, 'ts) world \<Rightarrow> bool" where
  "quiet w \<longleftrightarrow> (\<forall>s \<in> set (w_nodes w). sn_events s = [] \<and> events (sn_node s) = [])"

lemma send_directed_events [simp]: "events (send_directed E n t fp payload) = events n"
  by (auto simp: send_directed_def Let_def observe_own_def broadcast_eq split: option.splits)

lemma begin_handshake_events [simp]: "events (begin_handshake E n fp) = events n"
  by (auto simp: begin_handshake_def Let_def split: sum.splits prod.splits)

lemma tick_events:
  assumes "tick E n = Ret (d, n')"
  shows "events n' = events n"
proof -
  have f: "events (foldl (retry_handshake E) n fps) = events n" for n :: "('a, 'b, 'c) node" and fps
    by (induction fps arbitrary: n) (simp_all add: retry_handshake_def)
  have "events (foldl (fire_relay E) n ds) = events n" for n :: "('a, 'b, 'c) node" and ds
    by (induction ds arbitrary: n) (simp_all add: fire_relay_def broadcast_eq)
  then show ?thesis using assms by (auto simp: tick_def and_then_eq_Ret Let_def retry_stalled_handshakes_def f)
qed

lemma send_dm_events: "events (send_dm E n fp body) = events n"
  by (auto simp: send_dm_def store_dm_def encrypt_and_send_dm_def Let_def split: option.splits prod.splits sum.splits)


text \<open>A world without edges: nothing is in flight and no node has called its transport.\<close>

definition alone :: "nat \<Rightarrow> u64 \<Rightarrow> u64 \<Rightarrow> ('hs, 'ts) world \<Rightarrow> bool" where
  "alone N t st w \<longleftrightarrow> world_ok N 0 t st w \<and> quiet w"

lemma alone_node:
  assumes "alone N t st w" "i < N"
  shows "index (w_nodes w) i = Ret (w_nodes w ! i)" "outbox (sn_node (w_nodes w ! i)) = []" "sn_events (w_nodes w ! i) = []"
    "events (sn_node (w_nodes w ! i)) = []" "node_valid 0 (sn_node (w_nodes w ! i))"
  using assms by (auto simp: alone_def world_ok_def node_valid_def quiet_def index_def)

lemma alone_update:
  "alone N t st w \<Longrightarrow> node_valid 0 (sn_node s) \<Longrightarrow> sn_events s = [] \<Longrightarrow> events (sn_node s) = [] \<Longrightarrow>
     alone N t st (w\<lparr>w_nodes := (w_nodes w)[i := s]\<rparr>)"
  using world_ok_update [of N 0 t st w s i] by (auto simp: alone_def quiet_def dest!: set_update_subset_insert [THEN subsetD])

lemma alone_tick:
  assumes "alone N t st w" "i < N"
  shows "\<exists>w'. tick_node E w i = Ret w' \<and> alone N t st w'"
proof -
  let ?s = "w_nodes w ! i"
  note n = alone_node [OF assms]
  obtain d n' where t: "tick (E i) (sn_node ?s) = Ret (d, n')" "node_valid 0 n'" using tick_valid [OF n(5)] by blast
  have "alone N t st (w\<lparr>w_nodes := (w_nodes w)[i := ?s\<lparr>sn_node := n'\<rparr>]\<rparr>)"
    by (rule alone_update [OF assms(1)]) (use t(2) n tick_events [OF t(1)] in simp_all)
  then show ?thesis by (simp add: tick_node_def update_node_def n(1) t(1))
qed

lemma alone_collect:
  assumes "alone N t st w" "i < N"
  shows "collect_node draw w i = Ret w" "honor_closes E w i = Ret w"
proof -
  let ?s = "w_nodes w ! i"
  note n = alone_node [OF assms]
  have eqs: "?s\<lparr>sn_node := (sn_node ?s)\<lparr>events := [], outbox := []\<rparr>, sn_events := []\<rparr> = ?s" "?s\<lparr>sn_node := (sn_node ?s)\<lparr>outbox := []\<rparr>\<rparr> = ?s"
    using n(2-4) by simp_all
  show "collect_node draw w i = Ret w" "honor_closes E w i = Ret w"
    by (simp_all add: collect_node_def honor_closes_def n take_events_def Let_def eqs)
qed

lemma fold_ret_id: "(\<And>x. x \<in> set xs \<Longrightarrow> f s x = Ret s) \<Longrightarrow> fold_ret f s xs = Ret s"
  by (induction xs) auto

lemma alone_step:
  assumes "alone N t st w"
  shows "\<exists>w'. world_step E draw w = Ret w' \<and> alone N (t + st) st w'"
proof -
  have none: "inflight w = []" and now: "w_now w + step_ms w = t + st" and len: "length (w_nodes w) = N"
    using assms by (auto simp: alone_def world_ok_def simp flip: set_empty)
  let ?w = "w\<lparr>w_now := t + st, w_nodes := map (\<lambda>s. s\<lparr>sn_node := (sn_node s)\<lparr>clock := t + st\<rparr>\<rparr>) (w_nodes w), inflight := []\<rparr>"
  have "node_valid 0 (n\<lparr>clock := c\<rparr>)" if "node_valid 0 n" for n :: "('a, 'b, memory_store) node" and c
    using that by (simp add: node_valid_def node_ok_def parts_ok_def)
  then have "alone N (t + st) st ?w" using assms by (auto simp: alone_def world_ok_def quiet_def)
  then have "\<exists>w'. fold_ret (tick_node E) ?w [0..<N] = Ret w' \<and> alone N (t + st) st w'"
    by (intro fold_ret_inv [where P = "alone N (t + st) st"]) (auto intro: alone_tick)
  then obtain w' where w': "fold_ret (tick_node E) ?w [0..<N] = Ret w'" "alone N (t + st) st w'" by blast
  then have "length (w_nodes w') = N" by (simp add: alone_def world_ok_def)
  moreover have "fold_ret (collect_node draw) w' [0..<N] = Ret w'" "fold_ret (honor_closes E) w' [0..<N] = Ret w'"
    by (rule fold_ret_id, rule alone_collect [OF w'(2)], simp)+
  ultimately have "world_step E draw w = Ret w'"
    using w'(1) len none now by (simp add: world_step_def Let_def collect_and_route_def)
  with w'(2) show ?thesis by blast
qed

lemma store_and_forward_returns: "ends not_before (store_and_forward E draw)"
proof -
  let ?w = "world_new E 2 crowd_cfg" and ?fp = "node_fingerprint (E 1) (sn_node (sim_node_new E crowd_cfg 1))"
  let ?b = "str_bytes ''held for you''"
  have new: "alone 2 0 10 ?w"
    using world_new_ok [of 2 E crowd_cfg] by (auto simp: alone_def quiet_def world_new_def sim_node_new_def node_new_def Let_def)
  have fp: "world_fingerprint E ?w 1 = Ret ?fp"
    by (simp add: world_fingerprint_def world_new_def index_def)
  let ?s = "w_nodes ?w ! 0"
  note n = alone_node [OF new, of 0, simplified]
  have "node_valid 0 (send_dm (E 0) (sn_node ?s) ?fp ?b)" by (rule node_command_valid [OF node_command.intros(6) n(5)])
  then have "alone 2 0 10 (?w\<lparr>w_nodes := (w_nodes ?w)[0 := ?s\<lparr>sn_node := send_dm (E 0) (sn_node ?s) ?fp ?b\<rparr>]\<rparr>)"
    by (intro alone_update [OF new]) (use n in \<open>simp_all add: send_dm_events\<close>)
  then obtain w1 where w1: "say_dm E ?w 0 ?fp ?b = Ret w1" "alone 2 0 10 w1"
    using n(1) by (simp add: say_dm_def node_mut_def update_node_def)
  have "\<exists>w' t'. run_until E draw 1000 w1 = Some (Ret w') \<and> alone 2 t' 10 w' \<and> 1000 \<le> t' \<and> 0 \<le> t'
      \<and> unat t' \<le> max (unat (0 :: u64)) (unat (1000 :: u64) + unat (10 :: u64))"
  proof (rule run_until_inv [where P = "\<lambda>t w. alone 2 t 10 w", OF _ w1(2)])
    fix t and w :: "('a, 'b) world" assume "alone 2 t 10 w"
    then show "w_now w = t \<and> (\<exists>w'. world_step E draw w = Ret w' \<and> alone 2 (t + 10) 10 w')"
      using alone_step [of 2 t 10 w E draw] by (auto simp: alone_def world_ok_def)
  qed simp_all
  then obtain w2 t where w2: "run_until E draw 1000 w1 = Some (Ret w2)" "alone 2 t 10 w2" "unat t \<le> 1010" by auto
  have "w_now w1 = 0" using w1(2) by (simp add: alone_def world_ok_def)
  then have run: "run_for E draw w1 1000 = Some (Ret w2)" using w2(1) by (simp add: run_for_def)
  have sim: "sim_ok 2 0 1010 w2" using w2(2,3) by (auto simp: sim_ok_def alone_def)
  have "dms_received w2 1 = Ret []"
    using alone_node [OF w2(2), of 1] by (simp add: dms_received_def world_events_def map_filter_simps)
  note rest = ends_bind [OF sim_connect [OF sim]]
  show ?thesis unfolding store_and_forward_def Let_def fp w1(1) run bind_loop_simps \<open>dms_received w2 1 = Ret []\<close>
    by (rule rest sim_steps sim_read_bind sim_reads | assumption | simp)+
qed


section \<open>The broadcast scenario\<close>

lemma pairs_length: "length (pairs n) \<le> n * n"
proof -
  have "length (pairs n) = (\<Sum>i \<leftarrow> [0..<n]. n - (i + 1))" by (simp add: pairs_def length_concat o_def)
  also have "\<dots> \<le> (\<Sum>i \<leftarrow> [0..<n]. n)" by (rule sum_list_mono) simp
  finally show ?thesis by (simp add: sum_list_triv)
qed

lemma near_pairs_length: "near_pairs pos r2 ps = Ret es \<Longrightarrow> length es \<le> length ps"
  by (induction ps arbitrary: es) (force simp: and_then_eq_Ret split: if_splits)+

lemma geometric_size:
  "\<exists>g. geometric draw n deg = Some (Ret g) \<and> (\<forall>(x, y) \<in> set (g_edges g). x < n \<and> y < n) \<and> length (g_edges g) \<le> n * n + n"
proof -
  obtain es es' where g: "geometric draw n deg = Some (Ret \<lparr>g_n = n, g_edges = es @ es',
       positions = map (\<lambda>i. (draw (2 * i), draw (2 * i + 1))) [0..<n]\<rparr>)"
    and near: "near_pairs (map (\<lambda>i. (draw (2 * i), draw (2 * i + 1))) [0..<n]) (radius2 n deg) (pairs n) = Ret es"
    and sub: "set (es @ es') \<subseteq> set (pairs n)" and len: "length es' = components n es - 1"
    using geometric_builds [of draw n deg] by blast
  have "components n es \<le> n" using card_image_le [of "{..<n}"] by (simp add: components_def)
  moreover have "length es \<le> n * n" using near_pairs_length [OF near] pairs_length [of n] by linarith
  moreover have "\<forall>(x, y) \<in> set (es @ es'). x < n \<and> y < n" using pairs_below [of n] sub by (meson subsetD)
  ultimately show ?thesis using g len by auto
qed

lemma delivery_ratio_bounds:
  assumes "0 < length (w_nodes w)" "length (w_nodes w) \<le> 2 ^ 53"
  shows "0 \<le> delivery_ratio E w d \<and> delivery_ratio E w d \<le> 1"
proof -
  let ?n = "length (w_nodes w)" and ?k = "count_with_message E w d"
  have k: "?k \<le> ?n" unfolding count_with_message_def by (rule order_trans [OF length_filter_le]) simp
  then have "delivery_ratio E w d = f64_round (of_nat ?k / of_nat ?n)"
    using assms(2) by (simp add: delivery_ratio_def f64_round_of_nat)
  moreover have "0 \<le> (of_nat ?k / of_nat ?n :: f64)" "(of_nat ?k / of_nat ?n :: f64) \<le> of_nat 1" using k assms(1) by simp_all
  ultimately show ?thesis using f64.rnd_le_nat [of "of_nat ?k / of_nat ?n" 1] f64.rnd_nonneg by simp
qed

lemma broadcast_returns:
  assumes "0 < n" "n \<le> 2 ^ 31"
  shows "ends (\<lambda>r. br_nodes r = n \<and> 0 \<le> br_delivery_ratio r \<and> br_delivery_ratio r \<le> 1) (broadcast_scenario E draw gdraw n)"
proof -
  obtain g where g: "geometric gdraw n CROWD_DEGREE = Some (Ret g)" "\<forall>(x, y) \<in> set (g_edges g). x < n \<and> y < n"
    "length (g_edges g) \<le> n * n + n" using geometric_size by blast
  have "n * n + n \<le> 2 ^ 31 * 2 ^ 31 + 2 ^ 31" by (intro add_mono mult_mono assms(2)) simp_all
  then have len: "length (g_edges g) \<le> 2 ^ 64" using g(3) by simp
  have ratio: "0 \<le> delivery_ratio E w d \<and> delivery_ratio E w d \<le> 1" if "sim_ok n m b w" for m b w d
    using that assms by (intro delivery_ratio_bounds) (auto simp: sim_ok_def world_ok_def)
  show ?thesis unfolding broadcast_scenario_def g(1) bind_loop_simps
    by (rule sim_start [OF g(2) len]) (rule sim_steps ratio | assumption | simp add: assms(1) Let_def)+
qed

text \<open>A world without nodes runs, and then has nobody to speak.\<close>

lemma nobody_runs:
  assumes "sim_ok 0 0 0 w0" "unat d + 20 < 2 ^ 64"
  obtains w w' where "bootstrap E draw w0 = Ret w" "run_for E draw w d = Some (Ret w')" "w_nodes w' = []"
proof -
  from sim_bootstrap [OF assms(1), of E draw] obtain w where w: "bootstrap E draw w0 = Ret w" "sim_ok 0 0 0 w"
    by (auto simp: ends_outcome)
  from sim_run [OF w(2), of d E draw] assms(2) obtain w' where "run_for E draw w d = Some (Ret w')" "sim_ok 0 0 (0 + unat d + 10) w'"
    by (auto simp: ends_def)
  then show ?thesis using that [OF w(1)] by (auto simp: sim_ok_def world_ok_def)
qed

lemma broadcast_nobody: "broadcast_scenario E draw gdraw 0 = Some Panic"
proof -
  obtain g where g: "geometric gdraw 0 CROWD_DEGREE = Some (Ret g)" "length (g_edges g) \<le> 0"
    using geometric_size [of gdraw 0 CROWD_DEGREE] by auto
  have "sim_ok 0 0 0 (link_all (world_new E 0 crowd_cfg) (g_edges g))" using sim_new g(2) by (simp add: link_all_def)
  then obtain w w' where w: "bootstrap E draw (link_all (world_new E 0 crowd_cfg) (g_edges g)) = Ret w"
    "run_for E draw w 2000 = Some (Ret w')" "w_nodes w' = []"
    by (rule nobody_runs [of _ 2000 E draw]) simp_all
  then have "say E (reset_tx w') 0 general (str_bytes ''hello mesh'') = Panic" by (simp add: say_def index_def reset_tx_def)
  then show ?thesis unfolding broadcast_scenario_def g(1) bind_loop_simps w(1,2) by simp
qed

lemma line_relay_nobody: "line_relay E draw (2 ^ 64 - 1) = Some Panic"
proof -
  have n: "(2 ^ 64 - 1 + 1) mod 2 ^ 64 = (0 :: nat)" by simp
  have "sim_ok 0 0 0 (link_all (world_new E 0 crowd_cfg) (g_edges (line 0)))" using sim_new by (simp add: link_all_def line_def)
  then obtain w w' where w: "bootstrap E draw (link_all (world_new E 0 crowd_cfg) (g_edges (line 0))) = Ret w"
    "run_for E draw w 1000 = Some (Ret w')" "w_nodes w' = []"
    by (rule nobody_runs [of _ 1000 E draw]) simp_all
  then have "say E w' 0 general (str_bytes ''relay me'') = Panic" by (simp add: say_def index_def)
  then show ?thesis unfolding line_relay_def n Let_def bind_loop_simps w(1,2) by simp
qed
section \<open>The command line reads what it is given\<close>

lemma digit_byte:
  assumes "k < 10"
  shows "(of_char (char_of (48 + k)) :: u8) = of_nat (48 + k)"
proof -
  have "(of_char (char_of (48 + k)) :: u8) = of_nat (of_char (char_of (48 + k)))" by (simp only: of_nat_of_char)
  also have "\<dots> = of_nat ((48 + k) mod 256)" by (simp only: of_char_of)
  finally show ?thesis using assms by (simp del: of_nat_add)
qed

lemma decimal_bytes:
  "foldl (\<lambda>v d. v * 10 + (unat (d :: u8) - 48)) 0 (str_bytes (decimal n)) = n
   \<and> list_all (\<lambda>d. 48 \<le> d \<and> d \<le> 57) (str_bytes (decimal n)) \<and> str_bytes (decimal n) \<noteq> []"
proof (induction n rule: decimal.induct)
  case (1 n)
  have u: "unat (of_nat (48 + k) :: u8) = 48 + k" if "k < 10" for k using that by (simp add: unat_of_nat del: of_nat_add)
  then have r: "(48 :: u8) \<le> of_nat (48 + k) \<and> of_nat (48 + k) \<le> (57 :: u8)" if "k < 10" for k
    using that by (simp add: word_le_nat_alt del: of_nat_add)
  have s: "str_bytes (decimal n) = (if n < 10 then [of_nat (48 + n)] else str_bytes (decimal (n div 10)) @ [of_nat (48 + n mod 10)])"
    using digit_byte [of n] digit_byte [of "n mod 10"] by (subst decimal.simps) (simp add: str_bytes_def)
  show ?case
  proof (cases "n < 10")
    case True
    then show ?thesis unfolding s using u [of n] r [of n] by (simp del: of_nat_add)
  next
    case False
    with 1 u [of "n mod 10"] r [of "n mod 10"] show ?thesis unfolding s by (simp del: of_nat_add)
  qed
qed

lemma parse_uint_decimal:
  assumes "n < 2 ^ 64"
  shows "parse_uint (str_bytes (decimal n)) = Some n"
proof -
  note d = decimal_bytes [of n]
  obtain b r where br: "str_bytes (decimal n) = b # r" using d by (cases "str_bytes (decimal n)") auto
  then have "48 \<le> b" using d by simp
  then have "b \<noteq> 43" by auto
  with d br assms show ?thesis by (simp add: parse_uint_def Let_def)
qed


text \<open>Options may come in any order and the last of a kind wins; this is the order of the usage line.\<close>

lemma parse_args_usage:
  assumes "n < 2 ^ 64" "k < 2 ^ 64"
  shows "parse_args a [str_bytes ''--nodes'', str_bytes (decimal n), str_bytes ''--seed'', str_bytes (decimal k), str_bytes ''--scenario'', sc] =
    Inr (a\<lparr>a_nodes := n, a_seed := of_nat k, a_scenario := sc\<rparr>)"
proof -
  have "str_bytes ''--seed'' \<noteq> str_bytes ''--nodes''" "str_bytes ''--scenario'' \<noteq> str_bytes ''--nodes''" "str_bytes ''--seed'' \<noteq> str_bytes ''--scenario''"
    by code_simp+
  then show ?thesis using assms by (simp add: parse_uint_decimal)
qed

lemma sim_main_returns:
  assumes "\<And>a. parse_args \<lparr>a_nodes = 200, a_scenario = str_bytes ''broadcast'', a_seed = 7\<rparr> (drop 1 args) = Inr a \<Longrightarrow> 0 < a_nodes a \<and> a_nodes a \<le> 2 ^ 31"
  shows "\<exists>r. sim_main seeds args = Some (Ret r)"
proof (cases "parse_args \<lparr>a_nodes = 200, a_scenario = str_bytes ''broadcast'', a_seed = 7\<rparr> (drop 1 args)")
  case (Inr a)
  have b: "ends Q (bind_loop x (\<lambda>r. Some (Ret (g r))))" if "ends P x" "\<And>r. Q (g r)" for P Q x and g :: "'x \<Rightarrow> sim_exit"
    using that by (auto simp: ends_def)
  let ?S = "seeds (a_seed a)"
  have "0 < a_nodes a" "a_nodes a \<le> 2 ^ 31" using assms [OF Inr] by auto
  note bc = broadcast_returns [OF this, of "seed_envs ?S" "seed_world ?S" "seed_graph ?S"]
  have six: "(6 :: nat) < 2 ^ 64 - 1" by simp
  have "ends (\<lambda>_. True) (sim_main seeds args)"
    unfolding sim_main_def Inr sum.case Let_def
    by (intro ends_if b [OF bc] b [OF two_nodes_hello_returns] b [OF line_relay_returns [OF six]] b [OF partition_heal_returns]
        b [OF duplicate_storm_returns] b [OF malicious_flooder_returns]) simp_all
  then show ?thesis by (simp add: ends_def)
qed (simp add: sim_main_def)

section \<open>Properties\<close>

text \<open>C18: every scenario of the simulator comes to an end without a panic, for all parameters of the nodes
  and all random numbers, for lines of any number of hops but the greatest and crowds of up to \<open>2 ^ 31\<close> nodes (given the memory
  for them); what it reports is consistent (a delivery ratio lies between zero and one, a text that arrived is a delivery), and in
  the store-and-forward scenario the recipient has received nothing before it comes online.  The two ways to ask for a world without
  nodes panic: a broadcast among none, and a line of \<open>2 ^ 64 - 1\<close> hops, whose number of nodes wraps to zero.\<close>

theorem every_scenario_returns:
  "(\<exists>r. two_nodes_hello E draw = Some (Ret r))
   \<and> (hops < 2 ^ 64 - 1 \<longrightarrow> (\<exists>r. line_relay E draw hops = Some (Ret r) \<and> rr_hops r = hops))
   \<and> line_relay E draw (2 ^ 64 - 1) = Some Panic
   \<and> (\<exists>r. partition_heal E draw = Some (Ret r))
   \<and> (\<exists>r. duplicate_storm E draw = Some (Ret r))
   \<and> (\<exists>r. direct_message_scenario E draw = Some (Ret r) \<and> (text_ok r \<longrightarrow> dr_delivered r))
   \<and> (\<exists>r. dm_over_redundant_links E draw = Some (Ret r))
   \<and> (\<exists>r. link_dedup E draw = Some (Ret r))
   \<and> (\<exists>r. store_and_forward E draw = Some (Ret r) \<and> not_before r)
   \<and> (\<exists>r. malicious_flooder E draw = Some (Ret r))
   \<and> (0 < n \<and> n \<le> 2 ^ 31 \<longrightarrow> (\<exists>r. broadcast_scenario E draw gdraw n = Some (Ret r) \<and> br_nodes r = n
        \<and> 0 \<le> br_delivery_ratio r \<and> br_delivery_ratio r \<le> 1))
   \<and> broadcast_scenario E draw gdraw 0 = Some Panic"
  using two_nodes_hello_returns [of E draw] line_relay_returns [of hops E draw] partition_heal_returns [of E draw]
    duplicate_storm_returns [of E draw] direct_message_returns [of E draw] redundant_links_returns [of E draw]
    link_dedup_returns [of E draw] store_and_forward_returns [of E draw] malicious_flooder_returns [of E draw]
    broadcast_returns [of n E draw gdraw] broadcast_nobody [of E draw gdraw] line_relay_nobody [of E draw]
  unfolding ends_def by blast

theorem every_scenario_returns_witness:
  "\<exists>r r' r''. line_relay (\<lambda>_. sample_env) (\<lambda>_. 0) 6 = Some (Ret r) \<and> rr_hops r = 6
     \<and> broadcast_scenario (\<lambda>_. sample_env) (\<lambda>_. 0) (\<lambda>k. of_nat k / 8) 3 = Some (Ret r') \<and> br_delivery_ratio r' \<le> 1
     \<and> store_and_forward (\<lambda>_. sample_env) (\<lambda>_. 0) = Some (Ret r'') \<and> not_before r''"
  using every_scenario_returns [of "\<lambda>_. sample_env" "\<lambda>_. 0" 6 3 "\<lambda>k. of_nat k / 8"] by auto

end
