(* ===== verification/Spec2Isabelle.thy ===== *)
theory Spec2Isabelle
  imports Contacts Peers Resync Wipe Scenarios
begin

text \<open>
  A verification library for a Bluetooth mesh messenger: the core \<open>crates/meshcore\<close>, its encrypted store
  \<open>crates/meshcore-store\<close>, the bindings \<open>crates/meshcore-ffi\<close> and the simulator \<open>crates/sim\<close>.

  \<^bold>\<open>The program.\<close>  A node has links to nearby phones.  A frame that arrives on a link is reassembled
  (\<open>frag.rs\<close>) into a packet (\<open>wire.rs\<close>), which is dropped if its digest was heard or its sender is over its
  rate (\<open>relay.rs\<close>), and is handled by type and scheduled for rebroadcast (\<open>node.rs\<close>).  Announces are
  signed and bind an identity to a key for direct messages; channel messages are kept in a store
  (\<open>store.rs\<close>) and reconciled between neighbours (\<open>channels.rs\<close>); direct messages go through Noise XX
  sessions (\<open>noise.rs\<close>).  The core does no input or output: time, transport, store and randomness
  are injected.  The bindings put a node behind a mutex for the platform, and the simulator runs many
  nodes in virtual time.

  \<^bold>\<open>How the code is modelled.\<close>  A struct is a record, an enum a datatype, a function or method a definition
  of the same name (with a prefix where the name is taken).  State is passed explicitly.  A panic is
  the value \<open>Panic\<close> of the type \<open>outcome\<close>, an error a value of a sum or option type, a loop that may not
  end the value \<open>None\<close> of \<open>partial_function (option)\<close>.  Integers are words of their width and wrap as in a
  release build, except sizes and indices (\<open>usize\<close>), which are naturals: they count what is in memory, and allocation
  is taken to succeed.  Where such a number is any that the caller likes (the hops of \<open>line_relay\<close>), its wrap at \<open>2 ^ 64\<close> is written
  out.  \<open>f64\<close> is a rational with rounding to binary64.  Strings are their UTF-8 bytes.  Both map types of the code are sorted association
  lists; where the code iterates a hash map its order is a parameter.  What is not in the repository is
  a parameter: hashes, signatures, curves and LZ4 (record \<open>env\<close>), the Noise crate (record \<open>snow\<close>), random
  generators, the SQL engine's choice of order and the opening of the database.  What the theorems need
  of a parameter is a named hypothesis (\<open>crypto_ok\<close>, \<open>snow_ok\<close>, \<open>noise_laws\<close>, \<open>xx_exchange\<close>,
  \<open>store_laws\<close>, \<open>hash_order_ok\<close>), and the sample instance of theory Runs shows that they can hold together.

  \<^bold>\<open>Theories, in the order of the dependencies.\<close>
  \<^item> Prelude: machine types, \<open>outcome\<close>, big-endian integers, ordered maps, iterators.
  \<^item> Wire (\<open>wire.rs\<close>, \<open>error.rs\<close>): packet format; encoding and decoding are inverse, decoding accepts
    only the canonical encoding and never panics, the signature binds all but hop limit and signature.
  \<^item> F64: binary64 rounding, and the contract \<open>rounding\<close> that the token bucket relies on.
  \<^item> Config (\<open>config.rs\<close>, \<open>clock.rs\<close>, \<open>transport.rs\<close>): tunables, clock, transport events and calls.
  \<^item> Compress (\<open>compress.rs\<close>): compression with its cap; round trip and bound.
  \<^item> Channels (\<open>channels.rs\<close>): UTF-8, channel names, sync filters as set difference.
  \<^item> Identity (\<open>identity.rs\<close>): key derivation; proof of work is a numeric target and minting finds the
    least nonce or does not end.
  \<^item> Relay (\<open>relay.rs\<close>): duplicate cache (exact against a reference window and bounded), token bucket,
    rebroadcast queue.
  \<^item> Store (\<open>store.rs\<close>): the trait as a record of operations, MemoryStore, and the locale \<open>store_laws\<close>,
    what the core relies on, interpreted for MemoryStore (\<open>mem\<close>); the digest of a message dropped for its age stays claimed.
  \<^item> SqlStore, Threads (\<open>meshcore-store/src/lib.rs\<close>): SqliteStore over the rows of its tables, which
    satisfies the same laws (\<open>sql\<close>); its channel history; its conversations are those of MemoryStore.
  \<^item> Noise (\<open>noise.rs\<close>): sessions over the calls of the Noise crate; replay, loss and junk.
  \<^item> Payload (\<open>node.rs\<close>, the payload codecs) and Frag (\<open>frag.rs\<close>): round trips, bounds, reassembly in any
    order and its budget under arbitrary frames.
  \<^item> Node, Handlers (\<open>node.rs\<close>): the state of \<open>MeshNode\<close> and each of its commands, handlers and timers.
  \<^item> Relations: locales \<open>message_relation\<close> and \<open>handshake_relation\<close>, which carry a relation on nodes from
    the elementary updates to the operations made of them.  Events: \<open>event_relation\<close>, which extends them
    to whole transport events and the timer, and that a node calls only on its links (\<open>cw\<close>).
  \<^item> Invariants, Runs: the invariant of a node (\<open>kp\<close>), the step relation with a rule for every public
    operation, runs with their history, and that no run reaches a panic.
  \<^item> Trust, Sessions: which sessions become ready (\<open>sk\<close>), and that in a run every recorded key was announced
    (\<open>key_announced\<close>) and goes only with the wipe.
  \<^item> Delivery: frames to packets to handlers; an announce reaches a peer, and a first direct message
    between two nodes completes the handshake and is shown (\<open>tk\<close>).  Glare: two first messages that cross.
    Retry: the handshakes the timer opens anew (the inductive relation \<open>waits\<close> is what can happen meanwhile).
    Resync: a node that lost its half of a session gets through to the peer that has the other.
  \<^item> Gossip: a channel message reaches a neighbour, and a new link makes a node recover the messages of
    its channels that it lacks.  Multihop: what a relay takes in it passes on when its jitter is over, and a
    message crosses a line of relays (the inductive relation \<open>passes\<close>) to its end.
  \<^item> Contacts: the contact list changes by the user's commands only (\<open>cg\<close>).  Peers: the tables of addresses and
    keys keep the sizes of the arrays of the code and fit together (\<open>pk\<close>).
  \<^item> Ffi (\<open>meshcore-ffi/src/lib.rs\<close>): the store that delegates (\<open>ffi\<close>), identifiers as strings, the handle
    with its lock and every exported method; the handle refines the runs of the node.  Wipe: a run keeps
    identity, configuration and the bounds of the store (\<open>sc\<close>), and what \<open>panic_wipe\<close> leaves.
  \<^item> Topology (\<open>sim/src/topology.rs\<close>): union-find, and that the random geometric graph is built and connected.
  \<^item> Simulator (\<open>sim/src/lib.rs\<close>): the world of nodes and edges; no operation of a scenario panics and
    runs end.
  \<^item> Scenarios (\<open>sim/src/scenarios.rs\<close>, \<open>main.rs\<close>): each scenario and the command line; every scenario returns,
    unless it asks for a world without nodes.

  \<^bold>\<open>Bounds.\<close>  No fuel is used: loops are structural, have a measure, or are partial functions whose
  termination is proved where it is claimed (the proof of work when a nonce exists; \<open>find\<close> and the joining of components;
  \<open>run_for\<close> when the clock does not overflow).  The clock does not change during one call of the core.

  \<^bold>\<open>Not modelled.\<close>  The strings of error messages except where they are built, \<open>zeroize\<close>, logging, the
  encryption of the database file, failing SQL statements, generated bindings, the platform behind the
  transport, threads waiting for the mutex, the seeds of the generators, what the simulator
  prints, tests and fuzz targets, and the applications in other languages.
\<close>

end
